(* ===== verification/Miresga_Prelude.thy ===== *)
theory Miresga_Prelude
  imports "HOL-Library.Word" "HOL-Library.Monad_Syntax"
begin

text \<open>
  Shared vocabulary of the development: the machine integers of the C code, byte-level memory
  with bounds-checked little-endian loads and stores (every machine that runs the code is
  little-endian, so \<open>htons\<close>/\<open>htonl\<close> are byte swaps), and the generic lemmas that the components
  share.  An access outside a buffer is the value \<open>None\<close>: a program whose result is \<open>Some\<close>
  never touched memory out of range.
\<close>

unbundle bit_operations_syntax

section \<open>Machine integers\<close>

type_synonym u8 = "8 word"
type_synonym u16 = "16 word"
type_synonym u32 = "32 word"
type_synonym u64 = "64 word"

type_synonym bytes = "u8 list"

named_theorems mem_simps
named_theorems word_conv

definition byte_at :: "nat \<Rightarrow> 'a::len word \<Rightarrow> u8" where
  "byte_at k w = word_of_nat (unat w div 256 ^ k)"

definition le16 :: "u8 \<Rightarrow> u8 \<Rightarrow> u16" where
  "le16 a b = word_of_nat (unat a + 256 * unat b)"

definition le32 :: "u8 \<Rightarrow> u8 \<Rightarrow> u8 \<Rightarrow> u8 \<Rightarrow> u32" where
  "le32 a b c d = word_of_nat (unat a + 256 * (unat b + 256 * (unat c + 256 * unat d)))"

definition bytes16 :: "u16 \<Rightarrow> bytes" where
  "bytes16 w = [byte_at 0 w, byte_at 1 w]"

definition bytes32 :: "u32 \<Rightarrow> bytes" where
  "bytes32 w = [byte_at 0 w, byte_at 1 w, byte_at 2 w, byte_at 3 w]"

text \<open>Network byte order: \<open>htons\<close>/\<open>ntohs\<close> and \<open>htonl\<close>/\<open>ntohl\<close> are the same swap.\<close>

definition bswap16 :: "u16 \<Rightarrow> u16" where
  "bswap16 w = le16 (byte_at 1 w) (byte_at 0 w)"

definition bswap32 :: "u32 \<Rightarrow> u32" where
  "bswap32 w = le32 (byte_at 3 w) (byte_at 2 w) (byte_at 1 w) (byte_at 0 w)"

lemma unat_u8_lt [simp]: "unat (a :: u8) < 256"
  by (rule order_less_le_trans [OF unsigned_less]) simp

lemma unat_u16_lt [simp]: "unat (a :: u16) < 65536"
  by (rule order_less_le_trans [OF unsigned_less]) simp

lemma unat_u32_lt [simp]: "unat (a :: u32) < 4294967296"
  by (rule order_less_le_trans [OF unsigned_less]) simp

lemma unat_word_of_nat_small:
  "n < 2 ^ LENGTH('a) \<Longrightarrow> unat (word_of_nat n :: 'a::len word) = n"
  by (simp only: unsigned_of_nat take_bit_nat_eq_self_iff of_nat_id)

lemma unat_byte_at: "unat (byte_at k w) = unat w div 256 ^ k mod 256"
  by (simp only: byte_at_def unsigned_of_nat take_bit_eq_mod) simp

lemma unat_byte_at_digits [word_conv]:
  "unat (byte_at 0 w) = unat w mod 256"
  "unat (byte_at (Suc 0) w) = unat w div 256 mod 256"
  "unat (byte_at 2 w) = unat w div 256 div 256 mod 256"
  "unat (byte_at 3 w) = unat w div 256 div 256 div 256 mod 256"
  by (simp_all add: unat_byte_at div_mult2_eq [symmetric])

lemma digit_lt: "x < 256 \<Longrightarrow> y < n \<Longrightarrow> x + 256 * y < 256 * (n :: nat)"
  by linarith

lemma unat_le16 [word_conv]: "unat (le16 a b) = unat a + 256 * unat b"
proof -
  have "unat a + 256 * unat b < 65536"
    using unat_u8_lt [of a] unat_u8_lt [of b] by linarith
  then show ?thesis
    unfolding le16_def by (intro unat_word_of_nat_small) simp
qed

lemma unat_le32 [word_conv]:
  "unat (le32 a b c d) = unat a + 256 * (unat b + 256 * (unat c + 256 * unat d))"
proof -
  have "unat c + 256 * unat d < 256 * 256" by (intro digit_lt) simp_all
  then have "unat b + 256 * (unat c + 256 * unat d) < 256 * (256 * 256)"
    by (intro digit_lt) simp_all
  then have "unat a + 256 * (unat b + 256 * (unat c + 256 * unat d)) < 256 * (256 * (256 * 256))"
    by (intro digit_lt) simp_all
  then show ?thesis
    unfolding le32_def by (intro unat_word_of_nat_small) simp
qed

lemma le16_byte_at [simp]: "le16 (byte_at 0 w) (byte_at (Suc 0) w) = w"
proof -
  have "unat w div 256 < 256" using unat_u16_lt [of w] by linarith
  then show ?thesis by (simp add: word_unat_eq_iff word_conv)
qed

lemma le32_byte_at [simp]:
  "le32 (byte_at 0 w) (byte_at (Suc 0) w) (byte_at 2 w) (byte_at 3 w) = w"
proof -
  have "unat w div 256 div 256 div 256 < 256" using unat_u32_lt [of w] by linarith
  then show ?thesis by (simp add: word_unat_eq_iff word_conv)
qed

lemma digit_mod: "x < 256 \<Longrightarrow> (x + 256 * y) mod 256 = (x :: nat)"
  and digit_div: "x < 256 \<Longrightarrow> (x + 256 * y) div 256 = (y :: nat)"
  by simp_all

lemmas digit_simps = word_conv digit_mod digit_div unat_u8_lt mod_less

lemma byte_at_le16 [simp]: "byte_at 0 (le16 a b) = a" "byte_at (Suc 0) (le16 a b) = b"
  by (simp_all only: word_unat_eq_iff digit_simps)

lemma byte_at_le32 [simp]:
  "byte_at 0 (le32 a b c d) = a" "byte_at (Suc 0) (le32 a b c d) = b"
  "byte_at 2 (le32 a b c d) = c" "byte_at 3 (le32 a b c d) = d"
  by (simp_all only: word_unat_eq_iff digit_simps)

lemma bswap16_bswap16 [simp]: "bswap16 (bswap16 w) = w"
  by (simp add: bswap16_def)

lemma bswap32_bswap32 [simp]: "bswap32 (bswap32 w) = w"
  by (simp add: bswap32_def)

lemma bswap32_eq_iff [simp]: "bswap32 a = bswap32 b \<longleftrightarrow> a = b"
  by (metis bswap32_bswap32)

lemma length_bytes [simp]: "length (bytes16 v) = 2" "length (bytes32 w) = 4"
  by (simp_all add: bytes16_def bytes32_def)

section \<open>Bounds-checked memory\<close>

definition ld8 :: "bytes \<Rightarrow> nat \<Rightarrow> u8 option" where
  "ld8 p i = (if i < length p then Some (p ! i) else None)"

definition ld16 :: "bytes \<Rightarrow> nat \<Rightarrow> u16 option" where
  "ld16 p i = (if i + 2 \<le> length p then Some (le16 (p ! i) (p ! (i + 1))) else None)"

definition ld32 :: "bytes \<Rightarrow> nat \<Rightarrow> u32 option" where
  "ld32 p i = (if i + 4 \<le> length p
     then Some (le32 (p ! i) (p ! (i + 1)) (p ! (i + 2)) (p ! (i + 3))) else None)"

text \<open>A run of \<open>n\<close> raw bytes, and the store of a run of raw bytes.\<close>

definition ldn :: "bytes \<Rightarrow> nat \<Rightarrow> nat \<Rightarrow> bytes option" where
  "ldn p i n = (if i + n \<le> length p then Some (take n (drop i p)) else None)"

definition patch :: "bytes \<Rightarrow> nat \<Rightarrow> bytes \<Rightarrow> bytes" where
  "patch p i bs = take i p @ bs @ drop (i + length bs) p"

definition stn :: "bytes \<Rightarrow> nat \<Rightarrow> bytes \<Rightarrow> bytes option" where
  "stn p i bs = (if i + length bs \<le> length p
     then Some (patch p i bs) else None)"

definition st16 :: "bytes \<Rightarrow> nat \<Rightarrow> u16 \<Rightarrow> bytes option" where
  "st16 p i w = stn p i (bytes16 w)"

definition st32 :: "bytes \<Rightarrow> nat \<Rightarrow> u32 \<Rightarrow> bytes option" where
  "st32 p i w = stn p i (bytes32 w)"

subsection \<open>Accesses in range\<close>

lemma ld8_in [mem_simps]: "i < length p \<Longrightarrow> ld8 p i = Some (p ! i)"
  by (simp add: ld8_def)

lemma ld16_in [mem_simps]: "i + 2 \<le> length p \<Longrightarrow> ld16 p i = Some (le16 (p ! i) (p ! (i + 1)))"
  by (simp add: ld16_def)

lemma ld32_in [mem_simps]:
  "i + 4 \<le> length p \<Longrightarrow> ld32 p i = Some (le32 (p ! i) (p ! (i + 1)) (p ! (i + 2)) (p ! (i + 3)))"
  by (simp add: ld32_def)

lemma ldn_in [mem_simps]: "i + n \<le> length p \<Longrightarrow> ldn p i n = Some (take n (drop i p))"
  by (simp add: ldn_def)

lemma stn_in [mem_simps]: "i + length bs \<le> length p \<Longrightarrow> stn p i bs = Some (patch p i bs)"
  by (simp add: stn_def)

lemma st16_in [mem_simps]: "i + 2 \<le> length p \<Longrightarrow> st16 p i w = Some (patch p i (bytes16 w))"
  by (simp add: st16_def stn_def)

lemma st32_in [mem_simps]: "i + 4 \<le> length p \<Longrightarrow> st32 p i w = Some (patch p i (bytes32 w))"
  by (simp add: st32_def stn_def)

lemma length_patch [simp]: "i + length bs \<le> length p \<Longrightarrow> length (patch p i bs) = length p"
  by (simp add: patch_def)

text \<open>A store changes its own bytes and no others.\<close>

lemma nth_patch:
  assumes "i + length bs \<le> length p" "j < length p"
  shows "patch p i bs ! j = (if i \<le> j \<and> j < i + length bs then bs ! (j - i) else p ! j)"
  using assms by (auto simp: patch_def nth_append min_def)

lemma nth_patch_in:
  "i + length bs \<le> length p \<Longrightarrow> k < length bs \<Longrightarrow> patch p i bs ! (i + k) = bs ! k"
  by (simp add: nth_patch)

lemma nth_patch_out:
  "i + length bs \<le> length p \<Longrightarrow> j < length p \<Longrightarrow> j < i \<or> i + length bs \<le> j \<Longrightarrow>
   patch p i bs ! j = p ! j"
  by (auto simp: nth_patch)

lemma ld32_patch_same:
  assumes "i + 4 \<le> length p" shows "ld32 (patch p i (bytes32 w)) i = Some w"
proof -
  have b: "bytes32 w ! 0 = byte_at 0 w" "bytes32 w ! Suc 0 = byte_at (Suc 0) w"
    "bytes32 w ! 2 = byte_at 2 w" "bytes32 w ! 3 = byte_at 3 w"
    by (simp_all add: bytes32_def)
  show ?thesis using assms by (simp add: ld32_def nth_patch b)
qed

lemma ld16_patch_same:
  assumes "i + 2 \<le> length p" shows "ld16 (patch p i (bytes16 w)) i = Some w"
  using assms by (simp add: ld16_def nth_patch bytes16_def)

lemma ld32_patch_other:
  assumes "i + length bs \<le> length p" "j + 4 \<le> i \<or> i + length bs \<le> j"
  shows "ld32 (patch p i bs) j = ld32 p j"
  using assms(2) by (elim disjE) (simp_all add: ld32_def nth_patch_out assms(1))

lemma ld16_patch_other:
  assumes "i + length bs \<le> length p" "j + 2 \<le> i \<or> i + length bs \<le> j"
  shows "ld16 (patch p i bs) j = ld16 p j"
  using assms(2) by (elim disjE) (simp_all add: ld16_def nth_patch_out assms(1))

lemma ld8_patch_other:
  assumes "i + length bs \<le> length p" "j < i \<or> i + length bs \<le> j"
  shows "ld8 (patch p i bs) j = ld8 p j"
  using assms(2) by (elim disjE) (simp_all add: ld8_def nth_patch_out assms(1))

lemma patch_id: "i + 2 \<le> length p \<Longrightarrow> patch p i [p ! i, p ! (i + 1)] = p"
  by (intro nth_equalityI) (auto simp: nth_patch nth_Cons' less_Suc_eq intro!: arg_cong [of _ _ "nth p"])

lemma patch_patch_append:
  "n + length xs + length ys \<le> length p \<Longrightarrow> m = n + length xs \<Longrightarrow> patch (patch p n xs) m ys = patch p n (xs @ ys)"
  by (simp add: patch_def ac_simps)

lemma drop_patch: "k \<le> i \<Longrightarrow> i \<le> length p \<Longrightarrow> drop k (patch p i bs) = patch (drop k p) (i - k) bs"
  by (simp add: patch_def drop_take)

lemma take_drop_patch:
  "k + n \<le> i \<Longrightarrow> i \<le> length p \<Longrightarrow> take n (drop k (patch p i bs)) = take n (drop k p)"
  by (auto simp: patch_def drop_take min_def)

lemma take4_drop:
  assumes "i + 4 \<le> length p"
  shows "take 4 (drop i p) = [p ! i, p ! (i + 1), p ! (i + 2), p ! (i + 3)]"
  using assms by (simp add: numeral_eq_Suc take_Suc_conv_app_nth)

lemma bytes32_eq_take_drop:
  assumes "i + 4 \<le> length p"
  shows "take 4 (drop i p) = bytes32 (le32 (p ! i) (p ! (i + 1)) (p ! (i + 2)) (p ! (i + 3)))"
  using assms by (simp add: take4_drop bytes32_def)

text \<open>A 32-bit field in network byte order, and adding an offset to it in place.\<close>

definition be32 :: "bytes \<Rightarrow> nat \<Rightarrow> u32" where
  "be32 p i = bswap32 (le32 (p ! i) (p ! (i + 1)) (p ! (i + 2)) (p ! (i + 3)))"

definition shift_word :: "u32 \<Rightarrow> nat \<Rightarrow> bytes \<Rightarrow> bytes" where
  "shift_word d i p = patch p i (bytes32 (bswap32 (be32 p i + d)))"

fun shift_words :: "u32 \<Rightarrow> nat \<Rightarrow> nat \<Rightarrow> bytes \<Rightarrow> bytes" where
  "shift_words d 0 i p = p"
| "shift_words d (Suc n) i p = shift_words d n (i + 4) (shift_word d i p)"

lemma ld32_be32: "i + 4 \<le> length p \<Longrightarrow> ld32 p i = Some (bswap32 (be32 p i))"
  by (simp add: ld32_in be32_def)

lemma length_shift_word [simp]: "i + 4 \<le> length p \<Longrightarrow> length (shift_word d i p) = length p"
  by (simp add: shift_word_def)

lemma length_shift_words [simp]: "i + 4 * n \<le> length p \<Longrightarrow> length (shift_words d n i p) = length p"
  by (induction n arbitrary: i p) auto

lemma be32_patch_same: "i + 4 \<le> length p \<Longrightarrow> be32 (patch p i (bytes32 w)) i = bswap32 w"
  using ld32_patch_same [of i p w] by (simp add: ld32_def be32_def split: if_splits)

lemma be32_patch_other:
  assumes "i + length bs \<le> length p" "j + 4 \<le> length p" "j + 4 \<le> i \<or> i + length bs \<le> j"
  shows "be32 (patch p i bs) j = be32 p j"
  using assms ld32_patch_other [OF assms(1,3)] by (simp add: ld32_be32)

lemma be32_shift_word_same: "i + 4 \<le> length p \<Longrightarrow> be32 (shift_word d i p) i = be32 p i + d"
  by (simp add: shift_word_def be32_patch_same)

lemma be32_shift_word_other:
  "i + 4 \<le> length p \<Longrightarrow> j + 4 \<le> length p \<Longrightarrow> j + 4 \<le> i \<or> i + 4 \<le> j \<Longrightarrow> be32 (shift_word d i p) j = be32 p j"
  unfolding shift_word_def by (rule be32_patch_other) simp_all

lemma nth_shift_words_out:
  "i + 4 * n \<le> length p \<Longrightarrow> j < length p \<Longrightarrow> j < i \<or> i + 4 * n \<le> j \<Longrightarrow> shift_words d n i p ! j = p ! j"
proof (induction n arbitrary: i p)
  case (Suc n)
  then have "shift_words d n (i + 4) (shift_word d i p) ! j = shift_word d i p ! j"
    by (intro Suc.IH) auto
  also have "\<dots> = p ! j" using Suc.prems by (auto simp: shift_word_def nth_patch)
  finally show ?case by simp
qed simp

text \<open>Every word of the run is shifted.\<close>

lemma be32_shift_words:
  "i + 4 * n \<le> length p \<Longrightarrow> k < n \<Longrightarrow> be32 (shift_words d n i p) (i + 4 * k) = be32 p (i + 4 * k) + d"
proof (induction n arbitrary: i p k)
  case (Suc n)
  let ?q = "shift_word d i p"
  have len: "length ?q = length p" using Suc.prems by simp
  show ?case
  proof (cases k)
    case 0
    have "be32 (shift_words d n (i + 4) ?q) i = be32 ?q i"
      using Suc.prems len by (simp add: be32_def nth_shift_words_out)
    then show ?thesis using 0 Suc.prems by (simp add: be32_shift_word_same)
  next
    case (Suc m)
    then have "be32 (shift_words d n (i + 4) ?q) (i + 4 + 4 * m) = be32 ?q (i + 4 + 4 * m) + d"
      using Suc.IH Suc.prems len by (intro Suc.IH) auto
    moreover have "be32 ?q (i + 4 + 4 * m) = be32 p (i + 4 + 4 * m)"
      using Suc Suc.prems by (intro be32_shift_word_other) auto
    ultimately show ?thesis using Suc by (simp add: add.assoc)
  qed
qed simp

lemma shift_words_add: "shift_words d (m + n) i p = shift_words d n (i + 4 * m) (shift_words d m i p)"
  by (induction m arbitrary: i p) (auto simp: add.assoc)

end
