(* ===== verification/Checksum.thy ===== *)
theory Checksum
  imports Miresga_Prelude
begin

text \<open>
  The Internet checksum as the agents use it: the one's-complement sum of a byte buffer as a
  natural number, the folding helper \<open>csum_folder_helper\<close> of \<open>src/Backend/ingress_xdp.c\<close> (and its
  copy in \<open>src/Backend/egress_tc.c\<close>), and the arithmetic modulo 65535 that incremental checksum
  updates rest on.
\<close>

section \<open>One's-complement sums\<close>

fun csum_words :: "bytes \<Rightarrow> nat" where
  "csum_words [] = 0"
| "csum_words [a] = unat a"
| "csum_words (a # b # r) = unat a + 256 * unat b + csum_words r"

lemma csum_words_append: "even (length xs) \<Longrightarrow> csum_words (xs @ ys) = csum_words xs + csum_words ys"
  by (induction xs rule: csum_words.induct) auto

lemma csum_words_patch:
  assumes "even i" "even (length bs)" "i + length bs \<le> length p"
  shows "csum_words (patch p i bs) + csum_words (take (length bs) (drop i p)) = csum_words p + csum_words bs"
proof -
  define a where "a = take i p"
  define b where "b = take (length bs) (drop i p)"
  define c where "c = drop (i + length bs) p"
  have "p = a @ b @ c"
    unfolding a_def b_def c_def by (metis append_take_drop_id drop_drop add.commute)
  moreover have "length a = i" "length b = length bs"
    using assms(3) by (simp_all add: a_def b_def)
  then have "even (length a)" "even (length b)" using assms by simp_all
  ultimately have "csum_words p = csum_words a + csum_words b + csum_words c"
    by (simp add: csum_words_append)
  moreover have "csum_words (patch p i bs) = csum_words a + csum_words bs + csum_words c"
    using \<open>even (length a)\<close> assms(2)
    by (simp add: patch_def a_def [symmetric] c_def [symmetric] csum_words_append)
  ultimately show ?thesis by (simp add: b_def [symmetric])
qed

text \<open>Behind an odd number of bytes the two bytes of each word are swapped: the sum counts 256 times.\<close>

lemma csum_words_Cons: "(65535 :: int) dvd int (csum_words (x # ys)) - (int (unat x) + 256 * int (csum_words ys))"
proof (induction ys arbitrary: x rule: csum_words.induct)
  case (3 y z r)
  have "int (csum_words (x # y # z # r)) - (int (unat x) + 256 * int (csum_words (y # z # r))) =
      (int (csum_words (z # r)) - (int (unat z) + 256 * int (csum_words r))) - 65535 * int (unat z)"
    by simp
  then show ?case using 3 [of z] by (metis dvd_diff dvd_triv_left)
qed simp_all

lemma csum_words_append_odd:
  assumes "odd (length xs)"
  shows "(65535 :: int) dvd int (csum_words (xs @ ys)) - (int (csum_words xs) + 256 * int (csum_words ys))"
proof -
  obtain zs z where xs: "xs = zs @ [z]" using assms by (cases xs rule: rev_cases) auto
  then have "even (length zs)" using assms by simp
  then have "csum_words (xs @ ys) = csum_words zs + csum_words (z # ys)" "csum_words xs = csum_words zs + unat z"
    by (simp_all add: xs csum_words_append)
  then have "int (csum_words (xs @ ys)) - (int (csum_words xs) + 256 * int (csum_words ys)) =
      int (csum_words (z # ys)) - (int (unat z) + 256 * int (csum_words ys))"
    by linarith
  then show ?thesis using csum_words_Cons [of z ys] by metis
qed

lemma csum_words_patch_odd:
  assumes "odd i" "even (length bs)" "i + length bs \<le> length p"
  shows "(65535 :: int) dvd int (csum_words (patch p i bs)) - int (csum_words p)
    - 256 * (int (csum_words bs) - int (csum_words (take (length bs) (drop i p))))"
proof -
  define a where "a = take i p"
  define b where "b = take (length bs) (drop i p)"
  define c where "c = drop (i + length bs) p"
  have p: "p = a @ b @ c"
    unfolding a_def b_def c_def by (metis append_take_drop_id drop_drop add.commute)
  have q: "patch p i bs = a @ bs @ c" by (simp add: patch_def a_def c_def)
  have "length a = i" "length b = length bs" using assms(3) by (simp_all add: a_def b_def)
  then have odd: "odd (length a)" and even: "even (length b)" using assms by simp_all
  have "int (csum_words (a @ bs @ c)) - int (csum_words (a @ b @ c)) - 256 * (int (csum_words bs) - int (csum_words b)) =
      (int (csum_words (a @ bs @ c)) - (int (csum_words a) + 256 * int (csum_words (bs @ c)))) -
      (int (csum_words (a @ b @ c)) - (int (csum_words a) + 256 * int (csum_words (b @ c))))"
    using even assms(2) by (simp add: csum_words_append)
  then show ?thesis
    unfolding q b_def [symmetric] using csum_words_append_odd [OF odd] by (metis p dvd_diff)
qed

lemma csum_words_bytes16: "csum_words (bytes16 w) = unat w"
proof -
  have "csum_words (bytes16 w) = unat (le16 (byte_at 0 w) (byte_at (Suc 0) w))"
    by (simp only: bytes16_def unat_le16 csum_words.simps One_nat_def add_0_right)
  then show ?thesis by simp
qed

lemma mod_65535_eq_iff:
  "(a :: nat) mod 65535 = b mod 65535 \<longleftrightarrow> (65535 :: int) dvd int a - int b"
proof -
  have "a mod 65535 = b mod 65535 \<longleftrightarrow> int (a mod 65535) = int (b mod 65535)"
    by (simp only: of_nat_eq_iff)
  then show ?thesis by (simp only: of_nat_mod of_nat_numeral mod_eq_dvd_iff)
qed

section \<open>The folding helper\<close>

definition csum_folder_helper :: "u32 \<Rightarrow> u16" where
  "csum_folder_helper csum =
     (let sum = drop_bit 16 csum + (csum AND 0xffff);
          sum = sum + drop_bit 16 sum
      in ucast (NOT sum))"

lemma unat_add_u32: "unat a + unat b < 4294967296 \<Longrightarrow> unat (a + b :: u32) = unat a + unat b"
  by (simp add: unat_word_ariths)

lemma unat_drop_bit_16: "unat (drop_bit 16 (c :: u32)) = unat c div 65536"
  by (simp only: unat_drop_bit_eq) (simp add: drop_bit_eq_div)

lemma unat_not_u16: "unat (NOT (w :: u16)) = 65535 - unat w"
proof -
  have "unat (NOT w) = unat (- 1 - w)"
    by (simp only: not_eq_complement minus_diff_commute [of w 1])
  also have "\<dots> = unat (- 1 :: u16) - unat w" by (rule unat_sub) simp
  finally show ?thesis by (simp add: unsigned_minus_1_eq_mask mask_eq_exp_minus_1)
qed

lemma unat_ucast_not_u16: "unat (ucast (NOT (s :: u32)) :: u16) = 65535 - unat s mod 65536"
proof -
  have "(ucast (NOT s) :: u16) = NOT (ucast s)"
    by (rule bit_word_eqI) (simp add: bit_simps)
  then show ?thesis by (simp add: unat_not_u16 unsigned_ucast_eq take_bit_eq_mod)
qed

text \<open>The two folding steps leave the carry-free one's-complement residue of the argument.\<close>

lemma csum_folder_helper_nat:
  "unat (csum_folder_helper c) =
     65535 - (let s = unat c div 65536 + unat c mod 65536 in if s < 65536 then s else s - 65535)"
proof -
  define hi where "hi = unat c div 65536"
  define lo where "lo = unat c mod 65536"
  have hi: "hi < 65536" using unat_u32_lt [of c] unfolding hi_def by linarith
  have lo: "lo < 65536" by (simp add: lo_def)
  have dhi: "unat (drop_bit 16 c) = hi"
    by (simp only: unat_drop_bit_16 hi_def)
  have "c AND 0xffff = take_bit 16 c"
    by (simp add: take_bit_eq_mask mask_eq_exp_minus_1)
  then have "unat (c AND 0xffff) = take_bit 16 (unat c)"
    by (simp only: unsigned_take_bit_eq)
  then have dlo: "unat (c AND 0xffff) = lo"
    by (simp add: take_bit_eq_mod lo_def)
  let ?s = "drop_bit 16 c + (c AND 0xffff)"
  have s: "unat ?s = hi + lo" using hi lo by (subst unat_add_u32) (simp_all add: dhi dlo)
  have "unat (drop_bit 16 ?s) = (hi + lo) div 65536"
    by (simp only: unat_drop_bit_16 s)
  then have t: "unat (?s + drop_bit 16 ?s) = hi + lo + (hi + lo) div 65536"
    using hi lo by (subst unat_add_u32) (simp_all add: s)
  have "(hi + lo + (hi + lo) div 65536) mod 65536 = (if hi + lo < 65536 then hi + lo else hi + lo - 65535)"
    using hi lo by (auto simp: mod_if div_if)
  then show ?thesis
    by (simp add: csum_folder_helper_def Let_def unat_ucast_not_u16 t hi_def [symmetric] lo_def [symmetric])
qed

text \<open>In congruence form: the folded value and the argument cancel modulo 65535.\<close>

lemma csum_folder_helper_cancel: "(65535 :: int) dvd int (unat (csum_folder_helper c)) + int (unat c)"
proof -
  define s where "s = unat c div 65536 + unat c mod 65536"
  have n: "int (unat c) = 65535 * int (unat c div 65536) + int s"
    unfolding s_def using div_mult_mod_eq [of "unat c" 65536] by linarith
  have "unat c div 65536 < 65536" using unat_u32_lt [of c] by linarith
  then have le: "s \<le> 131070" using mod_less_divisor [of 65536 "unat c"] unfolding s_def by linarith
  have "int (unat (csum_folder_helper c)) + int s = (if s < 65536 then 65535 else 131070)"
    using le by (simp add: csum_folder_helper_nat Let_def s_def [symmetric])
  then have "(65535 :: int) dvd int (unat (csum_folder_helper c)) + int s" by (auto split: if_splits)
  then have "(65535 :: int) dvd (int (unat (csum_folder_helper c)) + int s) + 65535 * int (unat c div 65536)"
    by (rule dvd_add) simp
  then show ?thesis by (simp only: n ac_simps)
qed

text \<open>Folding the complement of a checksum gives it back, with the two zeros identified.\<close>

lemma unat_not_ucast_u16: "unat (NOT (ucast (w :: u16)) :: u32) = 4294967295 - unat w"
proof -
  have "unat (NOT (ucast w :: u32)) = unat (- 1 - (ucast w :: u32))"
    by (simp only: not_eq_complement minus_diff_commute [of "ucast w" 1])
  also have "\<dots> = unat (- 1 :: u32) - unat (ucast w :: u32)" by (rule unat_sub) simp
  also have "unat (ucast w :: u32) = unat w"
    by (simp only: unsigned_ucast_eq take_bit_eq_mod)
      (use order_less_trans [OF unat_u16_lt [of w], of 4294967296] in simp)
  finally show ?thesis by (simp add: unsigned_minus_1_eq_mask mask_eq_exp_minus_1)
qed

lemma csum_folder_helper_not:
  "csum_folder_helper (NOT (ucast (w :: u16))) = (if w = 0xffff then 0 else w)"
proof -
  have lt: "unat w \<le> 65535" using unat_u16_lt [of w] by linarith
  then have "4294967295 - unat w = (65535 - unat w) + 65535 * 65536" by linarith
  then have "(4294967295 - unat w) div 65536 = 65535" "(4294967295 - unat w) mod 65536 = 65535 - unat w"
    by (simp_all only: div_mult_self1 mod_mult_self1) simp_all
  then have "unat (csum_folder_helper (NOT (ucast w))) = (if unat w = 65535 then 0 else unat w)"
    using lt by (simp add: csum_folder_helper_nat unat_not_ucast_u16 Let_def) arith
  then show ?thesis by (simp add: word_unat_eq_iff)
qed

text \<open>
  Hence the helper returns the complement of the canonical representative of its argument
  modulo 65535, where only the argument 0 folds to 0 (C25).
\<close>

theorem csum_folder_helper_spec:
  "unat (NOT (csum_folder_helper c)) = (if c = 0 then 0 else (unat c - 1) mod 65535 + 1)"
proof -
  define s where "s = unat c div 65536 + unat c mod 65536"
  have n: "unat c = 65535 * (unat c div 65536) + s"
    unfolding s_def using div_mult_mod_eq [of "unat c" 65536] by linarith
  have "unat c div 65536 < 65536" using unat_u32_lt [of c] by linarith
  then have le: "s \<le> 131070" using mod_less_divisor [of 65536 "unat c"] unfolding s_def by linarith
  have f: "unat (NOT (csum_folder_helper c)) = (if s < 65536 then s else s - 65535)"
    using le by (simp add: unat_not_u16 csum_folder_helper_nat Let_def s_def [symmetric])
  show ?thesis
  proof (cases "c = 0")
    case True
    then show ?thesis using f by (simp add: s_def)
  next
    case False
    then have "unat c \<noteq> 0" by (simp add: unat_eq_zero)
    then have "0 < s" using n by (cases "s = 0") (auto simp: s_def)
    then have "(unat c - 1) mod 65535 = (s - 1) mod 65535"
      using n by (metis Nat.add_diff_assoc One_nat_def Suc_leI mod_mult_self4)
    also have "\<dots> + 1 = (if s < 65536 then s else s - 65535)"
      using \<open>0 < s\<close> le by (auto simp: mod_if)
    finally show ?thesis using False f by simp
  qed
qed

end
