(* ===== verification/Backend_Agent.thy ===== *)
theory Backend_Agent
  imports Checksum "HOL-Library.AList"
begin

text \<open>
  What the two eBPF programs of the back-end agent share: the flow key, the two hash maps that
  the loader pins for both, the kernel helpers they call (a parameter of every definition, since
  the kernel is not part of the repository), the layout of an Ethernet/IPv4/TCP frame, and the
  one's-complement sum that a receiver checks.
\<close>

section \<open>Flow keys, maps and kernel helpers\<close>

record key_t =
  k_ip :: u32
  k_port :: u16
  k_padding :: u16

definition max_entries :: nat where
  "max_entries = 102400"

record 'm bpf_maps =
  seq_map :: 'm
  flow_map :: 'm

text \<open>
  The helpers as the programs call them: the status of an update or a deletion is ignored by the
  code, so only the map after the call is kept; \<open>bpf_csum_diff\<close> reads two raw buffers.
\<close>

record 'm bpf_helpers =
  bpf_map_lookup_elem :: "'m \<Rightarrow> key_t \<Rightarrow> u32 option"
  bpf_map_update_elem :: "'m \<Rightarrow> key_t \<Rightarrow> u32 \<Rightarrow> 'm"
  bpf_map_delete_elem :: "'m \<Rightarrow> key_t \<Rightarrow> 'm"
  bpf_csum_diff :: "bytes \<Rightarrow> bytes \<Rightarrow> u32 \<Rightarrow> u32"

abbreviation flow_of :: "'m bpf_helpers \<Rightarrow> 'm bpf_maps \<Rightarrow> key_t \<rightharpoonup> u32" where
  "flow_of h m \<equiv> bpf_map_lookup_elem h (flow_map m)"

abbreviation seq_of :: "'m bpf_helpers \<Rightarrow> 'm bpf_maps \<Rightarrow> key_t \<rightharpoonup> u32" where
  "seq_of h m \<equiv> bpf_map_lookup_elem h (seq_map m)"

text \<open>
  The documented contract of a \<open>BPF_MAP_TYPE_HASH\<close> map under \<open>BPF_ANY\<close> updates: an update
  overwrites a present key, inserts a new one while there is room, and fails without effect when
  the map holds \<open>cap\<close> keys; a deletion removes exactly its key.
\<close>

locale bpf_hash_map =
  fixes h :: "'m bpf_helpers" and cap :: nat
  assumes finite_dom: "finite (dom (bpf_map_lookup_elem h m))"
    and lookup_update: "k \<in> dom (bpf_map_lookup_elem h m) \<or> card (dom (bpf_map_lookup_elem h m)) < cap \<Longrightarrow>
      bpf_map_lookup_elem h (bpf_map_update_elem h m k v) = (bpf_map_lookup_elem h m)(k \<mapsto> v)"
    and lookup_update_full: "k \<notin> dom (bpf_map_lookup_elem h m) \<Longrightarrow> cap \<le> card (dom (bpf_map_lookup_elem h m)) \<Longrightarrow>
      bpf_map_lookup_elem h (bpf_map_update_elem h m k v) = bpf_map_lookup_elem h m"
    and lookup_delete: "bpf_map_lookup_elem h (bpf_map_delete_elem h m k) = (bpf_map_lookup_elem h m)(k := None)"
begin

lemma lookup_update_cases:
  "bpf_map_lookup_elem h (bpf_map_update_elem h m k v) = (bpf_map_lookup_elem h m)(k \<mapsto> v) \<or>
   bpf_map_lookup_elem h (bpf_map_update_elem h m k v) = bpf_map_lookup_elem h m \<and>
   k \<notin> dom (bpf_map_lookup_elem h m)"
proof (cases "k \<in> dom (bpf_map_lookup_elem h m) \<or> card (dom (bpf_map_lookup_elem h m)) < cap")
  case True
  then show ?thesis using lookup_update by blast
next
  case False
  then show ?thesis using lookup_update_full [of k m v] by simp
qed

lemma dom_update: "dom (bpf_map_lookup_elem h (bpf_map_update_elem h m k v)) \<subseteq> insert k (dom (bpf_map_lookup_elem h m))"
  using lookup_update_cases [of m k v] by auto

lemma dom_update_mono: "dom (bpf_map_lookup_elem h m) \<subseteq> dom (bpf_map_lookup_elem h (bpf_map_update_elem h m k v))"
  using lookup_update_cases [of m k v] by auto

text \<open>The capacity is an invariant of every operation.\<close>

lemma card_update:
  assumes "card (dom (bpf_map_lookup_elem h m)) \<le> cap"
  shows "card (dom (bpf_map_lookup_elem h (bpf_map_update_elem h m k v))) \<le> cap"
proof (cases "k \<in> dom (bpf_map_lookup_elem h m) \<or> card (dom (bpf_map_lookup_elem h m)) < cap")
  case True
  then show ?thesis
    using assms finite_dom [of m] by (auto simp: lookup_update card_insert_if insert_absorb)
next
  case False
  then show ?thesis using assms by (simp add: lookup_update_full)
qed

lemma card_delete:
  assumes "card (dom (bpf_map_lookup_elem h m)) \<le> cap"
  shows "card (dom (bpf_map_lookup_elem h (bpf_map_delete_elem h m k))) \<le> cap"
proof -
  have "dom (bpf_map_lookup_elem h (bpf_map_delete_elem h m k)) \<subseteq> dom (bpf_map_lookup_elem h m)"
    by (auto simp: lookup_delete split: if_splits)
  then have "card (dom (bpf_map_lookup_elem h (bpf_map_delete_elem h m k))) \<le> card (dom (bpf_map_lookup_elem h m))"
    by (rule card_mono [OF finite_dom])
  then show ?thesis using assms by (rule order_trans)
qed

end

text \<open>
  The documented contract of \<open>bpf_csum_diff\<close> on four-byte buffers: the seed plus the sum of the
  second buffer minus the sum of the first, in one's-complement arithmetic.
\<close>

definition csum_diff_ok :: "'m bpf_helpers \<Rightarrow> bool" where
  "csum_diff_ok h \<longleftrightarrow> (\<forall>from to seed. length from = 4 \<and> length to = 4 \<longrightarrow>
     (unat (bpf_csum_diff h from to seed) + csum_words from) mod 65535 = (unat seed + csum_words to) mod 65535)"

locale bpf_env = bpf_hash_map h max_entries for h :: "'m bpf_helpers" +
  assumes csum_diff: "csum_diff_ok h"

section \<open>Frame layout\<close>

text \<open>Byte offsets of the fields that \<open>struct ethhdr\<close>, \<open>struct iphdr\<close> and \<open>struct tcphdr\<close> name;
  the programs take the IPv4 header to be 20 bytes long.\<close>

abbreviation (input) off_h_proto :: nat where "off_h_proto \<equiv> 12"
abbreviation (input) off_protocol :: nat where "off_protocol \<equiv> 23"
abbreviation (input) off_saddr :: nat where "off_saddr \<equiv> 26"
abbreviation (input) off_daddr :: nat where "off_daddr \<equiv> 30"
abbreviation (input) off_source :: nat where "off_source \<equiv> 34"
abbreviation (input) off_dest :: nat where "off_dest \<equiv> 36"
abbreviation (input) off_seq :: nat where "off_seq \<equiv> 38"
abbreviation (input) off_ack_seq :: nat where "off_ack_seq \<equiv> 42"
abbreviation (input) off_doff :: nat where "off_doff \<equiv> 46"
abbreviation (input) off_flags :: nat where "off_flags \<equiv> 47"
abbreviation (input) off_check :: nat where "off_check \<equiv> 50"
abbreviation (input) off_opt :: nat where "off_opt \<equiv> 54"

text \<open>The bit fields of the fourth word of the TCP header.\<close>

definition tcp_doff :: "u8 \<Rightarrow> u8" where "tcp_doff b = drop_bit 4 b"
definition tcp_syn :: "u8 \<Rightarrow> bool" where "tcp_syn b = bit b 1"
definition tcp_rst :: "u8 \<Rightarrow> bool" where "tcp_rst b = bit b 2"
definition tcp_ack :: "u8 \<Rightarrow> bool" where "tcp_ack b = bit b 4"

text \<open>The frames that both programs go on with, and the accumulator that both start from.\<close>

definition tcp_frame :: "bytes \<Rightarrow> bool" where
  "tcp_frame p \<longleftrightarrow> 54 \<le> length p \<and> le16 (p ! off_h_proto) (p ! (off_h_proto + 1)) = bswap16 0x0800 \<and> p ! off_protocol = 6"

definition csum_seed :: "bytes \<Rightarrow> u32" where
  "csum_seed p = NOT (ucast (le16 (p ! off_check) (p ! (off_check + 1))))"

section \<open>The sum a receiver checks\<close>

text \<open>
  The part of the TCP checksum that depends on the frame: both addresses and everything from the
  TCP header to the end of the frame.  Protocol and length of the pseudo header are added by
  \<open>tcp_csum_valid\<close>; a receiver accepts the segment when the whole sum vanishes modulo 65535.
  The segment is taken to end with the frame, so a short frame with Ethernet padding behind it is not covered.
\<close>

definition tcp_sum :: "bytes \<Rightarrow> nat" where
  "tcp_sum p = csum_words (take 8 (drop off_saddr p)) + csum_words (drop off_source p)"

definition tcp_csum_valid :: "bytes \<Rightarrow> bool" where
  "tcp_csum_valid p \<longleftrightarrow>
     (tcp_sum p + csum_words [0, 6] + unat (bswap16 (word_of_nat (length p - 34)))) mod 65535 = 0"

lemma tcp_sum_patch:
  assumes "34 \<le> i" "even i" "even (length bs)" "i + length bs \<le> length p"
  shows "tcp_sum (patch p i bs) + csum_words (take (length bs) (drop i p)) = tcp_sum p + csum_words bs"
proof -
  have "csum_words (patch (drop 34 p) (i - 34) bs) + csum_words (take (length bs) (drop (i - 34) (drop 34 p))) =
      csum_words (drop 34 p) + csum_words bs"
    using assms by (intro csum_words_patch) auto
  moreover have "take 8 (drop 26 (patch p i bs)) = take 8 (drop 26 p)"
    using assms by (intro take_drop_patch) simp_all
  moreover have "drop 34 (patch p i bs) = patch (drop 34 p) (i - 34) bs"
    using assms by (intro drop_patch) simp_all
  ultimately show ?thesis
    using assms unfolding tcp_sum_def by simp
qed

text \<open>
  The invariant of incremental updating: the accumulator \<open>c\<close> stands for the (negated) checksum
  field that makes the frame's sum equal to \<open>r\<close>.
\<close>

definition csum_acc :: "int \<Rightarrow> bytes \<Rightarrow> u32 \<Rightarrow> bool" where
  "csum_acc r p c \<longleftrightarrow> (65535 :: int) dvd
     int (tcp_sum p) - int (csum_words (take 2 (drop off_check p))) - r - int (unat c)"

lemma take2_drop:
  "i + 2 \<le> length p \<Longrightarrow> take 2 (drop i p) = [p ! i, p ! (i + 1)]"
  by (simp add: numeral_eq_Suc take_Suc_conv_app_nth)

text \<open>The seed \<open>~check\<close>, extended to 32 bits, starts the invariant.\<close>

lemma csum_acc_start:
  assumes "off_check + 2 \<le> length p"
  shows "csum_acc (int (tcp_sum p)) p (NOT (ucast (le16 (p ! off_check) (p ! (off_check + 1)))))"
proof -
  let ?w = "le16 (p ! off_check) (p ! (off_check + 1))"
  have chk: "csum_words (take 2 (drop off_check p)) = unat ?w"
    using assms by (simp add: take2_drop unat_le16)
  have "unat ?w < 65536" by simp
  then have "int (tcp_sum p) - int (unat ?w) - int (tcp_sum p) - int (4294967295 - unat ?w) = 65535 * (- 65537)"
    by linarith
  then show ?thesis
    unfolding csum_acc_def chk unat_not_ucast_u16 by (metis dvd_triv_left)
qed

text \<open>Rewriting four even-aligned bytes with \<open>bpf_csum_diff\<close> keeps it, away from the checksum field.\<close>

lemma csum_acc_step:
  assumes ok: "csum_diff_ok h" and acc: "csum_acc r p c"
    and i: "34 \<le> i" "even i" "i + 4 \<le> length p" "i + 4 \<le> off_check \<or> off_check + 2 \<le> i"
    and len: "off_check + 2 \<le> length p" and bs: "length bs = 4"
  shows "csum_acc r (patch p i bs) (bpf_csum_diff h (take 4 (drop i p)) bs c)"
proof -
  let ?c' = "bpf_csum_diff h (take 4 (drop i p)) bs c" and ?old = "csum_words (take 4 (drop i p))"
  have "(unat ?c' + ?old) mod 65535 = (unat c + csum_words bs) mod 65535"
    using ok i bs by (simp add: csum_diff_ok_def)
  then have d: "(65535 :: int) dvd int (unat ?c' + ?old) - int (unat c + csum_words bs)"
    by (simp only: mod_65535_eq_iff)
  have sum: "tcp_sum (patch p i bs) + ?old = tcp_sum p + csum_words bs"
    using tcp_sum_patch [of i bs p] i bs by simp
  have chk: "take 2 (drop off_check (patch p i bs)) = take 2 (drop off_check p)"
    using i bs len by (elim disjE) (simp_all add: take2_drop nth_patch_out)
  have "int (tcp_sum (patch p i bs)) - int (csum_words (take 2 (drop off_check p))) - r - int (unat ?c')
      = (int (tcp_sum p) - int (csum_words (take 2 (drop off_check p))) - r - int (unat c))
        - (int (unat ?c' + ?old) - int (unat c + csum_words bs))"
    using sum by linarith
  then show ?thesis
    unfolding csum_acc_def chk using acc [unfolded csum_acc_def] d by (metis dvd_diff)
qed

text \<open>
  Four odd-aligned bytes stand in the sum with their words swapped, but \<open>bpf_csum_diff\<close> takes them as they come:
  255 times their change is missing.
\<close>

lemma tcp_sum_patch_odd:
  assumes "34 \<le> i" "odd i" "even (length bs)" "i + length bs \<le> length p"
  shows "(65535 :: int) dvd int (tcp_sum (patch p i bs)) - int (tcp_sum p)
    - 256 * (int (csum_words bs) - int (csum_words (take (length bs) (drop i p))))"
proof -
  have "take 8 (drop 26 (patch p i bs)) = take 8 (drop 26 p)" "drop 34 (patch p i bs) = patch (drop 34 p) (i - 34) bs"
    using assms by (intro take_drop_patch drop_patch; simp)+
  moreover have "drop (i - 34) (drop 34 p) = drop i p" "odd (i - 34)" using assms(1,2) by simp_all
  ultimately show ?thesis
    using csum_words_patch_odd [of "i - 34" bs "drop 34 p"] assms by (simp add: tcp_sum_def)
qed

lemma csum_acc_step_odd:
  assumes ok: "csum_diff_ok h" and acc: "csum_acc r p c"
    and i: "off_check + 2 \<le> i" "odd i" "i + 4 \<le> length p" and bs: "length bs = 4"
  shows "csum_acc (r + 255 * (int (csum_words bs) - int (csum_words (take 4 (drop i p)))))
    (patch p i bs) (bpf_csum_diff h (take 4 (drop i p)) bs c)"
proof -
  let ?c' = "bpf_csum_diff h (take 4 (drop i p)) bs c" and ?old = "csum_words (take 4 (drop i p))"
  have "(unat ?c' + ?old) mod 65535 = (unat c + csum_words bs) mod 65535"
    using ok i bs by (simp add: csum_diff_ok_def)
  then have d: "(65535 :: int) dvd int (unat ?c' + ?old) - int (unat c + csum_words bs)"
    by (simp only: mod_65535_eq_iff)
  have sum: "(65535 :: int) dvd int (tcp_sum (patch p i bs)) - int (tcp_sum p) - 256 * (int (csum_words bs) - int ?old)"
    using tcp_sum_patch_odd [of i bs p] i bs by simp
  have chk: "take 2 (drop off_check (patch p i bs)) = take 2 (drop off_check p)"
    using i bs by (simp add: take2_drop nth_patch_out)
  have "int (tcp_sum (patch p i bs)) - int (csum_words (take 2 (drop off_check p)))
        - (r + 255 * (int (csum_words bs) - int ?old)) - int (unat ?c')
      = (int (tcp_sum p) - int (csum_words (take 2 (drop off_check p))) - r - int (unat c))
        + (int (tcp_sum (patch p i bs)) - int (tcp_sum p) - 256 * (int (csum_words bs) - int ?old))
        - (int (unat ?c' + ?old) - int (unat c + csum_words bs))"
    by (simp add: algebra_simps)
  then show ?thesis
    unfolding csum_acc_def chk using acc [unfolded csum_acc_def] d sum by (metis dvd_add dvd_diff)
qed

text \<open>Storing the folded accumulator gives the frame its original sum back.\<close>

lemma csum_acc_finish:
  assumes acc: "csum_acc r p c" and len: "off_check + 2 \<le> length p"
  shows "(65535 :: int) dvd int (tcp_sum (patch p off_check (bytes16 (csum_folder_helper c)))) - r"
proof -
  let ?q = "patch p off_check (bytes16 (csum_folder_helper c))"
  have "tcp_sum ?q + csum_words (take 2 (drop off_check p)) = tcp_sum p + unat (csum_folder_helper c)"
    using tcp_sum_patch [of off_check "bytes16 (csum_folder_helper c)" p] len
    by (simp add: csum_words_bytes16)
  then have "int (tcp_sum ?q) - r =
      (int (tcp_sum p) - int (csum_words (take 2 (drop off_check p))) - r - int (unat c))
      + (int (unat (csum_folder_helper c)) + int (unat c))"
    by linarith
  then show ?thesis
    using acc [unfolded csum_acc_def] csum_folder_helper_cancel [of c] by (metis dvd_add)
qed

lemma tcp_csum_valid_cong:
  assumes "(65535 :: int) dvd int (tcp_sum q) - int (tcp_sum p)" "length q = length p"
  shows "tcp_csum_valid q \<longleftrightarrow> tcp_csum_valid p"
proof -
  have "tcp_sum q mod 65535 = tcp_sum p mod 65535"
    using assms(1) by (simp only: mod_65535_eq_iff)
  then have "(tcp_sum q + x) mod 65535 = (tcp_sum p + x) mod 65535" for x
    by (rule mod_add_cong) simp
  then show ?thesis by (simp add: tcp_csum_valid_def assms(2) add.assoc)
qed

text \<open>An error of \<open>255 e\<close> in the sum goes unnoticed when 257 divides \<open>e\<close>.\<close>

lemma tcp_csum_valid_error:
  assumes "(65535 :: int) dvd int (tcp_sum q) - int (tcp_sum p) - 255 * e" "length q = length p" "tcp_csum_valid p"
  shows "tcp_csum_valid q \<longleftrightarrow> 257 dvd e"
proof -
  define x where "x = int (csum_words [0, 6] + unat (bswap16 (word_of_nat (length p - 34))))"
  have v: "tcp_csum_valid r \<longleftrightarrow> (65535 :: int) dvd int (tcp_sum r) + x" if "length r = length p" for r
  proof -
    have "tcp_csum_valid r \<longleftrightarrow> 65535 dvd tcp_sum r + (csum_words [0, 6] + unat (bswap16 (word_of_nat (length p - 34))))"
      unfolding tcp_csum_valid_def that by (simp only: add.assoc dvd_eq_mod_eq_0)
    then show ?thesis unfolding x_def by (metis of_nat_add of_nat_dvd_iff of_nat_numeral)
  qed
  have "int (tcp_sum q) + x = (int (tcp_sum q) - int (tcp_sum p) - 255 * e) + (int (tcp_sum p) + x) + 255 * e" by simp
  moreover have "(65535 :: int) dvd (int (tcp_sum q) - int (tcp_sum p) - 255 * e) + (int (tcp_sum p) + x)"
    using assms(1,3) v [OF refl] by (metis dvd_add)
  ultimately have "tcp_csum_valid q \<longleftrightarrow> (65535 :: int) dvd 255 * e"
    unfolding v [OF assms(2)] by (metis dvd_add_right_iff)
  also have "\<dots> \<longleftrightarrow> 255 * 257 dvd 255 * e" by simp
  also have "\<dots> \<longleftrightarrow> 257 dvd e" by (subst dvd_mult_cancel_left) simp
  finally show ?thesis .
qed

section \<open>A concrete instance of the helpers\<close>

text \<open>
  An instance of the kernel interface that evaluates: maps are association lists of at most
  \<open>max_entries\<close> keys, and the checksum difference is the sum reduced modulo 65535.  It shows that
  the contracts above can be met together and serves the concrete runs.
\<close>

definition alist_update :: "(key_t \<times> u32) list \<Rightarrow> key_t \<Rightarrow> u32 \<Rightarrow> (key_t \<times> u32) list" where
  "alist_update m k v =
     (if k \<in> set (map fst m) \<or> length (remdups (map fst m)) < max_entries then AList.update k v m else m)"

definition alist_csum_diff :: "bytes \<Rightarrow> bytes \<Rightarrow> u32 \<Rightarrow> u32" where
  "alist_csum_diff from to seed =
     word_of_nat ((unat seed + csum_words to + (65535 - csum_words from mod 65535)) mod 65535)"

definition alist_helpers :: "(key_t \<times> u32) list bpf_helpers" where
  "alist_helpers = \<lparr>bpf_map_lookup_elem = map_of, bpf_map_update_elem = alist_update,
     bpf_map_delete_elem = (\<lambda>m k. AList.delete k m), bpf_csum_diff = alist_csum_diff\<rparr>"

lemma alist_helpers_sel:
  "bpf_map_lookup_elem alist_helpers = map_of" "bpf_map_update_elem alist_helpers = alist_update"
  "bpf_map_delete_elem alist_helpers m k = AList.delete k m" "bpf_csum_diff alist_helpers = alist_csum_diff"
  by (simp_all add: alist_helpers_def)

lemma alist_csum_diff_ok: "csum_diff_ok alist_helpers"
proof -
  have "(unat (alist_csum_diff from to seed) + csum_words from) mod 65535 = (unat seed + csum_words to) mod 65535"
    for "from" "to" seed
  proof -
    let ?n = "unat seed + csum_words to + (65535 - csum_words from mod 65535)"
    have "?n mod 65535 < 2 ^ LENGTH(32)"
      by (rule order_less_le_trans [OF mod_less_divisor]) simp_all
    then have "unat (alist_csum_diff from to seed) = ?n mod 65535"
      unfolding alist_csum_diff_def by (rule unat_word_of_nat_small)
    then have "(unat (alist_csum_diff from to seed) + csum_words from) mod 65535
        = (?n + csum_words from mod 65535) mod 65535"
      by (simp only: mod_add_left_eq mod_add_right_eq)
    also have "?n + csum_words from mod 65535 = unat seed + csum_words to + 65535"
      using mod_less_divisor [of 65535 "csum_words from"] by linarith
    finally show ?thesis by simp
  qed
  then show ?thesis by (simp add: csum_diff_ok_def alist_helpers_def)
qed

interpretation alist: bpf_env alist_helpers
proof unfold_locales
  fix m :: "(key_t \<times> u32) list" and k :: key_t and v :: u32
  show "finite (dom (bpf_map_lookup_elem alist_helpers m))"
    by (simp add: alist_helpers_def finite_dom_map_of)
  show "bpf_map_lookup_elem alist_helpers (bpf_map_delete_elem alist_helpers m k) =
      (bpf_map_lookup_elem alist_helpers m)(k := None)"
    by (simp add: alist_helpers_def delete_conv')
  show "k \<in> dom (bpf_map_lookup_elem alist_helpers m) \<or> card (dom (bpf_map_lookup_elem alist_helpers m)) < max_entries \<Longrightarrow>
      bpf_map_lookup_elem alist_helpers (bpf_map_update_elem alist_helpers m k v) = (bpf_map_lookup_elem alist_helpers m)(k \<mapsto> v)"
    by (simp add: alist_helpers_def alist_update_def update_conv' dom_map_of_conv_image_fst length_remdups_card_conv)
  show "k \<notin> dom (bpf_map_lookup_elem alist_helpers m) \<Longrightarrow> max_entries \<le> card (dom (bpf_map_lookup_elem alist_helpers m)) \<Longrightarrow>
      bpf_map_lookup_elem alist_helpers (bpf_map_update_elem alist_helpers m k v) = bpf_map_lookup_elem alist_helpers m"
    by (simp add: alist_helpers_def alist_update_def length_remdups_card_conv dom_map_of_conv_image_fst)
qed (rule alist_csum_diff_ok)

end
