(* ===== verification/Backend_Ingress.thy ===== *)
theory Backend_Ingress
  imports Backend_Agent
begin

text \<open>
  The XDP program of \<open>src/Backend/ingress_xdp.c\<close>: every frame that reaches the back-end server is
  looked up by its source address and port.  For a spliced flow the acknowledgement number and the
  SACK edges are shifted by the flow's offset; the SYN of a new flow records the acknowledgement
  number that the front end put there.  The result \<open>None\<close> is an access outside the frame.
\<close>

section \<open>The program\<close>

datatype xdp_action = XDP_DROP | XDP_PASS

type_synonym 'm xdp_result = "(xdp_action \<times> bytes \<times> 'm bpf_maps) option"

text \<open>
  Where one check of the option scan (lines 80 to 126) leaves to: the drop, the label \<open>out\<close>, the
  label \<open>sack_out\<close>, or the statement after it with the option pointer advanced past a NOP.
\<close>

datatype opt_scan = Scan_Drop | Scan_Out | Scan_Sack nat | Scan_Next nat

definition scan_nop :: "bytes \<Rightarrow> nat \<Rightarrow> opt_scan option" where
  "scan_nop p opt =
     (if opt + 1 > length p then Some Scan_Drop
      else do {
        b \<leftarrow> ld8 p opt;
        Some (if b = 1 then Scan_Next (opt + 1) else if b \<noteq> 5 then Scan_Out else Scan_Sack opt)
      })"

definition scan_last :: "bytes \<Rightarrow> nat \<Rightarrow> opt_scan option" where
  "scan_last p opt =
     (if opt + 1 > length p then Some Scan_Drop
      else do {
        b \<leftarrow> ld8 p opt;
        Some (if b \<noteq> 5 then Scan_Out else Scan_Sack opt)
      })"

definition scan_options :: "bytes \<Rightarrow> opt_scan option" where
  "scan_options p = do {
     b \<leftarrow> ld8 p off_doff;
     if tcp_doff b > 5 then do {
       s \<leftarrow> scan_nop p off_opt;
       (case s of
          Scan_Next opt \<Rightarrow> do {
            s \<leftarrow> scan_nop p opt;
            (case s of Scan_Next opt \<Rightarrow> scan_last p opt | s \<Rightarrow> Some s)
          }
        | s \<Rightarrow> Some s)
     } else Some Scan_Out
   }"

text \<open>One SACK edge: shift it, account for it in the checksum, store it, advance.\<close>

definition sack_edge :: "'m bpf_helpers \<Rightarrow> u32 \<Rightarrow> bytes \<times> nat \<times> u32 \<Rightarrow> (bytes \<times> nat \<times> u32) option" where
  "sack_edge h diff = (\<lambda>(p, sack, csum). do {
     v \<leftarrow> ld32 p sack;
     let new_ack = bswap32 (bswap32 v + diff);
     from \<leftarrow> ldn p sack 4;
     let csum = bpf_csum_diff h from (bytes32 new_ack) csum;
     p \<leftarrow> st32 p sack new_ack;
     Some (p, sack + 4, csum)
   })"

text \<open>One of the four unrolled blocks; \<open>Inl\<close> is the drop of a block that leaves the frame.\<close>

definition sack_block ::
  "'m bpf_helpers \<Rightarrow> u32 \<Rightarrow> bytes \<times> nat \<times> u8 \<times> u32 \<Rightarrow> (bytes + bytes \<times> nat \<times> u8 \<times> u32) option" where
  "sack_block h diff = (\<lambda>(p, sack, len, csum).
     if len \<ge> 10 then
       if sack + 8 > length p then Some (Inl p)
       else do {
         (p, sack, csum) \<leftarrow> sack_edge h diff (p, sack, csum);
         (p, sack, csum) \<leftarrow> sack_edge h diff (p, sack, csum);
         Some (Inr (p, sack, len - 8, csum))
       }
     else Some (Inr (p, sack, len, csum)))"

definition sack_next ::
  "'m bpf_helpers \<Rightarrow> u32 \<Rightarrow> (bytes + bytes \<times> nat \<times> u8 \<times> u32) \<Rightarrow> (bytes + bytes \<times> nat \<times> u8 \<times> u32) option" where
  "sack_next h diff r = (case r of Inl p \<Rightarrow> Some (Inl p) | Inr st \<Rightarrow> sack_block h diff st)"

definition ingress_out :: "'m bpf_maps \<Rightarrow> u32 \<Rightarrow> bytes \<Rightarrow> 'm xdp_result" where
  "ingress_out maps csum p = do {
     p \<leftarrow> st16 p off_check (csum_folder_helper csum);
     Some (XDP_PASS, p, maps)
   }"

definition sack_out ::
  "'m bpf_helpers \<Rightarrow> 'm bpf_maps \<Rightarrow> u32 \<Rightarrow> u32 \<Rightarrow> bytes \<Rightarrow> nat \<Rightarrow> 'm xdp_result" where
  "sack_out h maps diff csum p opt =
     (if opt + 2 > length p then Some (XDP_DROP, p, maps)
      else do {
        len \<leftarrow> ld8 p (opt + 1);
        r \<leftarrow> sack_block h diff (p, opt + 2, len, csum);
        r \<leftarrow> sack_next h diff r;
        r \<leftarrow> sack_next h diff r;
        r \<leftarrow> sack_next h diff r;
        (case r of
           Inl p \<Rightarrow> Some (XDP_DROP, p, maps)
         | Inr (p, sack, len, csum) \<Rightarrow>
             if len \<noteq> 2 then Some (XDP_DROP, p, maps) else ingress_out maps csum p)
      })"

definition ingress_rst :: "'m bpf_helpers \<Rightarrow> 'm bpf_maps \<Rightarrow> key_t \<Rightarrow> u32 \<Rightarrow> bytes \<Rightarrow> 'm xdp_result" where
  "ingress_rst h maps key csum p = do {
     fl \<leftarrow> ld8 p off_flags;
     let maps = (if tcp_rst fl
       then maps\<lparr>flow_map := bpf_map_delete_elem h (flow_map maps) key,
                 seq_map := bpf_map_delete_elem h (seq_map maps) key\<rparr>
       else maps);
     ingress_out maps csum p
   }"

definition ingress_flow ::
  "'m bpf_helpers \<Rightarrow> 'm bpf_maps \<Rightarrow> key_t \<Rightarrow> u32 \<Rightarrow> u32 \<Rightarrow> bytes \<Rightarrow> 'm xdp_result" where
  "ingress_flow h maps key diff csum p = do {
     ack_seq \<leftarrow> ld32 p off_ack_seq;
     let new_ack = bswap32 (bswap32 ack_seq + diff);
     from \<leftarrow> ldn p off_ack_seq 4;
     let csum = bpf_csum_diff h from (bytes32 new_ack) csum;
     p \<leftarrow> st32 p off_ack_seq new_ack;
     s \<leftarrow> scan_options p;
     (case s of
        Scan_Drop \<Rightarrow> Some (XDP_DROP, p, maps)
      | Scan_Out \<Rightarrow> ingress_out maps csum p
      | Scan_Sack opt \<Rightarrow> sack_out h maps diff csum p opt
      | Scan_Next opt \<Rightarrow> ingress_rst h maps key csum p)
   }"

definition ingress_new_flow ::
  "'m bpf_helpers \<Rightarrow> 'm bpf_maps \<Rightarrow> key_t \<Rightarrow> u32 \<Rightarrow> bytes \<Rightarrow> 'm xdp_result" where
  "ingress_new_flow h maps key csum p = do {
     fl \<leftarrow> ld8 p off_flags;
     if \<not> tcp_syn fl then Some (XDP_PASS, p, maps)
     else do {
       ack_seq \<leftarrow> ld32 p off_ack_seq;
       let maps = maps\<lparr>seq_map := bpf_map_update_elem h (seq_map maps) key ack_seq\<rparr>;
       from \<leftarrow> ldn p off_ack_seq 4;
       let csum = bpf_csum_diff h from (bytes32 0) csum;
       p \<leftarrow> st32 p off_ack_seq 0;
       ingress_out maps csum p
     }
   }"

definition ingress_xdp_prog :: "'m bpf_helpers \<Rightarrow> 'm bpf_maps \<Rightarrow> bytes \<Rightarrow> 'm xdp_result" where
  "ingress_xdp_prog h maps p =
     (if 14 > length p then Some (XDP_DROP, p, maps)
      else do {
        h_proto \<leftarrow> ld16 p off_h_proto;
        if h_proto \<noteq> bswap16 0x0800 then Some (XDP_PASS, p, maps)
        else if 34 > length p then Some (XDP_DROP, p, maps)
        else do {
          protocol \<leftarrow> ld8 p off_protocol;
          if protocol \<noteq> 6 then Some (XDP_PASS, p, maps)
          else if 54 > length p then Some (XDP_DROP, p, maps)
          else do {
            saddr \<leftarrow> ld32 p off_saddr;
            source \<leftarrow> ld16 p off_source;
            let key = \<lparr>k_ip = saddr, k_port = source, k_padding = 0\<rparr>;
            check \<leftarrow> ld16 p off_check;
            let csum = NOT (ucast check);
            (case bpf_map_lookup_elem h (flow_map maps) key of
               Some diff \<Rightarrow> ingress_flow h maps key diff csum p
             | None \<Rightarrow> ingress_new_flow h maps key csum p)
          }
        }
      })"

section \<open>Parsing\<close>

definition ingress_key :: "bytes \<Rightarrow> key_t" where
  "ingress_key p = \<lparr>k_ip = le32 (p ! off_saddr) (p ! (off_saddr + 1)) (p ! (off_saddr + 2)) (p ! (off_saddr + 3)),
     k_port = le16 (p ! off_source) (p ! (off_source + 1)), k_padding = 0\<rparr>"

lemma ingress_tcp:
  assumes "tcp_frame p"
  shows "ingress_xdp_prog h maps p =
     (case flow_of h maps (ingress_key p) of
        Some diff \<Rightarrow> ingress_flow h maps (ingress_key p) diff (csum_seed p) p
      | None \<Rightarrow> ingress_new_flow h maps (ingress_key p) (csum_seed p) p)"
  using assms by (simp add: tcp_frame_def ingress_xdp_prog_def mem_simps ingress_key_def csum_seed_def Let_def
      split: option.split)

lemma ingress_not_tcp:
  assumes "\<not> tcp_frame p"
  shows "\<exists>a. ingress_xdp_prog h maps p = Some (a, p, maps)"
  using assms by (auto simp: tcp_frame_def ingress_xdp_prog_def mem_simps)

section \<open>The option scan\<close>

text \<open>
  The options as the bytes of the frame show them, without regard to how the program reads them.  The program
  is meant for the layouts that senders use for an acknowledgement: a SACK option (kind 5) at the
  beginning of the options, behind at most two NOPs (kind 1).  A SACK option anywhere else, for instance behind a
  timestamp, is not one for this purpose.
\<close>

definition has_options :: "bytes \<Rightarrow> bool" where
  "has_options p \<longleftrightarrow> 5 < tcp_doff (p ! off_doff)"

definition nops :: "bytes \<Rightarrow> nat" where
  "nops p = length (takeWhile (\<lambda>b. b = 1) (drop off_opt p))"

definition has_sack :: "bytes \<Rightarrow> bool" where
  "has_sack p \<longleftrightarrow> has_options p \<and> nops p \<le> 2 \<and> off_opt + nops p < length p \<and> p ! (off_opt + nops p) = 5"

text \<open>The frame ends within the leading NOPs, though the header announces options.\<close>

definition options_cut :: "bytes \<Rightarrow> bool" where
  "options_cut p \<longleftrightarrow> has_options p \<and> nops p \<le> 2 \<and> length p \<le> off_opt + nops p"

text \<open>The scan finds exactly this; it always leaves to a label or drops, and never falls through.\<close>

lemma scan_nop_eq:
  "scan_nop p opt = Some (if length p \<le> opt then Scan_Drop else if p ! opt = 1 then Scan_Next (opt + 1)
     else if p ! opt \<noteq> 5 then Scan_Out else Scan_Sack opt)"
  by (simp add: scan_nop_def mem_simps)

lemma scan_last_eq:
  "scan_last p opt = Some (if length p \<le> opt then Scan_Drop
     else if p ! opt \<noteq> 5 then Scan_Out else Scan_Sack opt)"
  by (simp add: scan_last_def mem_simps)

lemma nops_unfold:
  "nops p = (if length p \<le> 54 \<or> p ! 54 \<noteq> 1 then 0 else if length p \<le> 55 \<or> p ! 55 \<noteq> 1 then 1
    else if length p \<le> 56 \<or> p ! 56 \<noteq> 1 then 2 else 3 + length (takeWhile (\<lambda>b. b = 1) (drop 57 p)))"
proof -
  have d: "drop n p = (if n < length p then p ! n # drop (Suc n) p else [])" for n
    by (simp add: Cons_nth_drop_Suc)
  show ?thesis by (simp add: nops_def d [of 54] d [of 55] d [of 56])
qed

lemma scan_options_spec:
  assumes "54 \<le> length p"
  shows "scan_options p = Some (if options_cut p then Scan_Drop else if has_sack p then Scan_Sack (off_opt + nops p) else Scan_Out)"
  using assms
  by (simp add: scan_options_def scan_nop_eq scan_last_eq mem_simps options_cut_def has_sack_def has_options_def nops_unfold)

lemma scan_options_cases:
  assumes "54 \<le> length p"
  obtains "options_cut p" "scan_options p = Some Scan_Drop"
  | "\<not> options_cut p" "\<not> has_sack p" "scan_options p = Some Scan_Out"
  | "\<not> options_cut p" "has_sack p" "scan_options p = Some (Scan_Sack (off_opt + nops p))"
  using scan_options_spec [OF assms] by (cases "options_cut p"; cases "has_sack p") auto

section \<open>The SACK blocks\<close>

lemma sack_edge_eq:
  assumes "sack + 4 \<le> length p"
  shows "sack_edge h diff (p, sack, csum) =
    Some (shift_word diff sack p, sack + 4,
      bpf_csum_diff h (take 4 (drop sack p)) (bytes32 (bswap32 (be32 p sack + diff))) csum)"
  using assms by (simp add: sack_edge_def ld32_be32 ldn_in st32_in shift_word_def Let_def)

lemma sack_block_total: "\<exists>r. sack_block h diff st = Some r"
  by (cases st) (auto simp: sack_block_def sack_edge_eq)

lemma sack_next_total: "\<exists>r'. sack_next h diff r = Some r'"
  by (cases r) (auto simp: sack_next_def sack_block_total)

text \<open>
  What one block keeps: it either drops an unchanged frame, does nothing, or shifts the next two
  words.
\<close>

lemma sack_block_cases:
  assumes "sack_block h diff (p, sack, len, csum) = Some r"
  obtains "10 \<le> len" "length p < sack + 8" "r = Inl p"
  | csum' where "10 \<le> len" "sack + 8 \<le> length p"
      "r = Inr (shift_words diff 2 sack p, sack + 8, len - 8, csum')"
      "csum' = bpf_csum_diff h (take 4 (drop (sack + 4) (shift_word diff sack p)))
         (bytes32 (bswap32 (be32 (shift_word diff sack p) (sack + 4) + diff)))
         (bpf_csum_diff h (take 4 (drop sack p)) (bytes32 (bswap32 (be32 p sack + diff))) csum)"
  | "\<not> 10 \<le> len" "r = Inr (p, sack, len, csum)"
  using assms
  by (auto simp: sack_block_def sack_edge_eq numeral_2_eq_2 split: if_splits)

text \<open>
  The state after at most \<open>n\<close> blocks: some \<open>k \<le> n\<close> pairs of edges are shifted, the length byte has
  gone down by eight for each of them, and the accumulator follows the frame, up to an error that vanishes
  when the edges are even-aligned.
\<close>

definition sack_err :: "nat \<Rightarrow> nat \<Rightarrow> bytes \<Rightarrow> bytes \<Rightarrow> int" where
  "sack_err i n p q = (if even i then 0
     else 255 * (int (csum_words (take n (drop i q))) - int (csum_words (take n (drop i p)))))"

lemma shift_words_Suc: "shift_words d (Suc n) i p = shift_word d (i + 4 * n) (shift_words d n i p)"
  using shift_words_add [of d n 1 i p] by simp

lemma csum_words_run:
  "i + 4 * n + 4 \<le> length p \<Longrightarrow>
   csum_words (take (4 * n + 4) (drop i p)) = csum_words (take (4 * n) (drop i p)) + csum_words (take 4 (drop (i + 4 * n) p))"
  by (simp add: take_add [of "4 * n" 4] csum_words_append add.commute [of "4 * n" i])

lemma sack_err_Suc:
  assumes "i + 4 * n + 4 \<le> length p"
  shows "sack_err i (4 * Suc n) p (shift_words d (Suc n) i p) = sack_err i (4 * n) p (shift_words d n i p) +
    sack_err (i + 4 * n) 4 (shift_words d n i p) (shift_words d (Suc n) i p)"
proof -
  let ?q = "shift_words d n i p"
  let ?r = "shift_word d (i + 4 * n) ?q"
  have l: "length ?q = length p" "length ?r = length p" using assms by simp_all
  have "take (4 * n) (drop i ?r) = take (4 * n) (drop i ?q)"
    unfolding shift_word_def using l assms by (intro take_drop_patch) simp_all
  moreover have "take 4 (drop (i + 4 * n) ?q) = take 4 (drop (i + 4 * n) p)"
    using l assms by (intro nth_equalityI) (simp_all add: nth_shift_words_out)
  moreover have "csum_words (take (4 * n + 4) (drop i ?r)) = csum_words (take (4 * n) (drop i ?r)) + csum_words (take 4 (drop (i + 4 * n) ?r))"
    "csum_words (take (4 * n + 4) (drop i p)) = csum_words (take (4 * n) (drop i p)) + csum_words (take 4 (drop (i + 4 * n) p))"
    using l assms by (intro csum_words_run; simp)+
  ultimately show ?thesis by (simp add: sack_err_def shift_words_Suc add.commute [of 4] del: shift_words.simps)
qed

lemma sack_err_block:
  assumes "i + 8 * k + 8 \<le> length p"
  shows "sack_err i (8 * Suc k) p (shift_words d (2 * Suc k) i p) = sack_err i (8 * k) p (shift_words d (2 * k) i p) +
    sack_err (i + 8 * k) 4 (shift_words d (2 * k) i p) (shift_word d (i + 8 * k) (shift_words d (2 * k) i p)) +
    sack_err (i + 8 * k + 4) 4 (shift_word d (i + 8 * k) (shift_words d (2 * k) i p)) (shift_words d (2 * Suc k) i p)"
proof -
  have w: "shift_word d (i + 8 * k) (shift_words d (2 * k) i p) = shift_words d (Suc (2 * k)) i p"
    using shift_words_Suc [of d "2 * k" i p] by simp
  have e: "2 * Suc k = Suc (Suc (2 * k))" "8 * Suc k = 4 * Suc (Suc (2 * k))" "8 * k = 4 * (2 * k)" "i + 4 * (2 * k) + 4 = i + 4 * Suc (2 * k)"
    by simp_all
  have "sack_err i (4 * Suc (2 * k)) p (shift_words d (Suc (2 * k)) i p) = sack_err i (4 * (2 * k)) p (shift_words d (2 * k) i p) +
      sack_err (i + 4 * (2 * k)) 4 (shift_words d (2 * k) i p) (shift_words d (Suc (2 * k)) i p)"
    by (rule sack_err_Suc) (use assms in simp)
  moreover have "sack_err i (4 * Suc (Suc (2 * k))) p (shift_words d (Suc (Suc (2 * k))) i p) =
      sack_err i (4 * Suc (2 * k)) p (shift_words d (Suc (2 * k)) i p) +
      sack_err (i + 4 * Suc (2 * k)) 4 (shift_words d (Suc (2 * k)) i p) (shift_words d (Suc (Suc (2 * k))) i p)"
    by (rule sack_err_Suc) (use assms in simp)
  ultimately show ?thesis unfolding w unfolding e by (simp only:)
qed

lemma sack_err_0 [simp]: "sack_err i 0 p q = 0"
  by (simp add: sack_err_def)

definition sack_rel ::
  "'m bpf_helpers \<Rightarrow> u32 \<Rightarrow> int \<Rightarrow> bytes \<Rightarrow> nat \<Rightarrow> u8 \<Rightarrow> nat \<Rightarrow> bytes \<times> nat \<times> u8 \<times> u32 \<Rightarrow> bool" where
  "sack_rel h diff r p0 i0 len0 n = (\<lambda>(p, sack, len, csum). \<exists>k \<le> n.
     p = shift_words diff (2 * k) i0 p0 \<and> sack = i0 + 8 * k \<and> sack \<le> length p0 \<and>
     unat len + 8 * k = unat len0 \<and>
     (csum_diff_ok h \<longrightarrow> csum_acc (r + sack_err i0 (8 * k) p0 p) p csum))"

lemma csum_acc_shift_word:
  assumes "csum_diff_ok h" "csum_acc r p c" "52 \<le> i" "i + 4 \<le> length p"
  shows "csum_acc (r + sack_err i 4 p (shift_word diff i p)) (shift_word diff i p)
    (bpf_csum_diff h (take 4 (drop i p)) (bytes32 (bswap32 (be32 p i + diff))) c)"
proof (cases "even i")
  case True
  then show ?thesis unfolding sack_err_def shift_word_def using assms by (simp, intro csum_acc_step) auto
next
  case False
  have "take 4 (drop i (shift_word diff i p)) = bytes32 (bswap32 (be32 p i + diff))"
    using assms(4) by (simp add: shift_word_def patch_def)
  then show ?thesis
    using csum_acc_step_odd [OF assms(1,2) _ False assms(4), of "bytes32 (bswap32 (be32 p i + diff))"] assms(3) False
    by (simp add: sack_err_def) (simp add: shift_word_def)
qed

lemma sack_block_rel:
  assumes rel: "sack_rel h diff r p0 i0 len0 n st" and i0: "52 \<le> i0"
    and step: "sack_block h diff st = Some (Inr st')"
  shows "sack_rel h diff r p0 i0 len0 (Suc n) st'"
proof -
  obtain p sack len csum where st: "st = (p, sack, len, csum)" by (cases st)
  from rel obtain k where k: "k \<le> n" "p = shift_words diff (2 * k) i0 p0" "sack = i0 + 8 * k"
    "sack \<le> length p0" "unat len + 8 * k = unat len0" "csum_diff_ok h \<longrightarrow> csum_acc (r + sack_err i0 (8 * k) p0 p) p csum"
    by (auto simp: sack_rel_def st)
  have lp: "length p = length p0" using k by simp
  from step [unfolded st] show ?thesis
  proof (cases rule: sack_block_cases)
    case (2 csum')
    have len: "8 \<le> unat len" "8 \<le> len" using 2(1) by (simp_all add: word_le_nat_alt)
    have sh: "shift_words diff 2 sack p = shift_words diff (2 * Suc k) i0 p0"
      using shift_words_add [of diff "2 * k" 2 i0 p0] k by simp
    have acc: "csum_acc (r + sack_err i0 (8 * Suc k) p0 (shift_words diff 2 sack p)) (shift_words diff 2 sack p) csum'"
      if ok: "csum_diff_ok h"
    proof -
      let ?p1 = "shift_word diff sack p"
      let ?p2 = "shift_word diff (sack + 4) ?p1"
      have s: "52 \<le> sack" "csum_acc (r + sack_err i0 (8 * k) p0 p) p csum" using ok k i0 by auto
      have "csum_acc (r + sack_err i0 (8 * k) p0 p + sack_err sack 4 p ?p1) ?p1
          (bpf_csum_diff h (take 4 (drop sack p)) (bytes32 (bswap32 (be32 p sack + diff))) csum)"
        using 2(2) s ok by (intro csum_acc_shift_word) simp_all
      then have "csum_acc (r + sack_err i0 (8 * k) p0 p + sack_err sack 4 p ?p1 + sack_err (sack + 4) 4 ?p1 ?p2) ?p2 csum'"
        unfolding 2(4) using 2(2) s ok by (intro csum_acc_shift_word) simp_all
      moreover have "?p2 = shift_words diff (2 * Suc k) i0 p0" using sh by (simp add: numeral_2_eq_2)
      then have "sack_err i0 (8 * Suc k) p0 ?p2 = sack_err i0 (8 * k) p0 p + sack_err sack 4 p ?p1 + sack_err (sack + 4) 4 ?p1 ?p2"
        using sack_err_block [of i0 k p0 diff] 2(2) lp k(2,3) by (simp del: shift_words.simps mult_Suc_right)
      ultimately show ?thesis by (simp add: numeral_2_eq_2 add.assoc)
    qed
    have "unat (len - 8) + 8 * Suc k = unat len0"
      using len k(5) by (simp add: unat_sub)
    moreover have "st' = (shift_words diff 2 sack p, sack + 8, len - 8, csum')" using 2(3) by simp
    ultimately show ?thesis
      unfolding sack_rel_def using k(1,3) 2(2) lp sh acc by (auto intro!: exI [of _ "Suc k"])
  next
    case 3
    then show ?thesis using k by (auto simp: sack_rel_def intro!: exI [of _ k])
  qed simp
qed

lemma sack_next_rel:
  assumes "\<And>st. x = Inr st \<Longrightarrow> sack_rel h diff r p0 i0 len0 n st" "52 \<le> i0"
    and "sack_next h diff x = Some (Inr st')"
  shows "sack_rel h diff r p0 i0 len0 (Suc n) st'"
  using assms by (cases x) (auto simp: sack_next_def intro: sack_block_rel)

text \<open>The four blocks always run to the end of the option or to a drop.\<close>

lemma sack_out_run:
  assumes "opt + 2 \<le> length p"
  obtains r1 r2 r3 r4 where "sack_block h diff (p, opt + 2, p ! (opt + 1), csum) = Some r1"
    "sack_next h diff r1 = Some r2" "sack_next h diff r2 = Some r3" "sack_next h diff r3 = Some r4"
    "sack_out h maps diff csum p opt = (case r4 of Inl p \<Rightarrow> Some (XDP_DROP, p, maps)
      | Inr (p, sack, len, csum) \<Rightarrow> if len \<noteq> 2 then Some (XDP_DROP, p, maps) else ingress_out maps csum p)"
proof -
  obtain r1 where r1: "sack_block h diff (p, opt + 2, p ! (opt + 1), csum) = Some r1"
    using sack_block_total by blast
  obtain r2 where r2: "sack_next h diff r1 = Some r2" using sack_next_total by blast
  obtain r3 where r3: "sack_next h diff r2 = Some r3" using sack_next_total by blast
  obtain r4 where r4: "sack_next h diff r3 = Some r4" using sack_next_total by blast
  have "sack_out h maps diff csum p opt = (case r4 of Inl p \<Rightarrow> Some (XDP_DROP, p, maps)
      | Inr (p, sack, len, csum) \<Rightarrow> if len \<noteq> 2 then Some (XDP_DROP, p, maps) else ingress_out maps csum p)"
    using assms by (simp add: sack_out_def mem_simps r1 [simplified] r2 r3 r4)
  then show thesis using that r1 r2 r3 r4 by blast
qed

text \<open>A SACK option passes only when it announces at most four whole blocks; all are shifted.\<close>

lemma sack_out_pass:
  assumes pass: "sack_out h maps diff csum p opt = Some (XDP_PASS, q, m)"
    and opt: "off_opt \<le> opt" and acc: "csum_diff_ok h \<longrightarrow> csum_acc r p csum"
  obtains n c where "n \<le> 4" "unat (p ! (opt + 1)) = 2 + 8 * n" "opt + 2 + 8 * n \<le> length p" "m = maps"
    "q = patch (shift_words diff (2 * n) (opt + 2) p) off_check (bytes16 (csum_folder_helper c))"
    "csum_diff_ok h \<longrightarrow> csum_acc (r + sack_err (opt + 2) (8 * n) p (shift_words diff (2 * n) (opt + 2) p))
       (shift_words diff (2 * n) (opt + 2) p) c"
proof -
  have len: "opt + 2 \<le> length p" using pass by (auto simp: sack_out_def split: if_splits)
  let ?rel = "sack_rel h diff r p (opt + 2) (p ! (opt + 1))"
  from len obtain r1 r2 r3 r4 where r1: "sack_block h diff (p, opt + 2, p ! (opt + 1), csum) = Some r1"
    and r2: "sack_next h diff r1 = Some r2" and r3: "sack_next h diff r2 = Some r3"
    and r4: "sack_next h diff r3 = Some r4"
    and "sack_out h maps diff csum p opt = (case r4 of Inl p \<Rightarrow> Some (XDP_DROP, p, maps)
      | Inr (p, sack, len, csum) \<Rightarrow> if len \<noteq> 2 then Some (XDP_DROP, p, maps) else ingress_out maps csum p)"
    by (rule sack_out_run)
  then obtain p' sack' csum' where r4': "r4 = Inr (p', sack', 2, csum')"
    and out: "ingress_out maps csum' p' = Some (XDP_PASS, q, m)"
    using pass by (auto split: sum.splits prod.splits if_splits)
  have i0: "52 \<le> opt + 2" using opt by simp
  have "?rel 0 (p, opt + 2, p ! (opt + 1), csum)" using acc len by (simp add: sack_rel_def)
  then have "\<And>st. r1 = Inr st \<Longrightarrow> ?rel (Suc 0) st" using sack_block_rel i0 r1 by blast
  then have "\<And>st. r2 = Inr st \<Longrightarrow> ?rel (Suc (Suc 0)) st" using sack_next_rel i0 r2 by blast
  then have "\<And>st. r3 = Inr st \<Longrightarrow> ?rel (Suc (Suc (Suc 0))) st" using sack_next_rel i0 r3 by blast
  then have "?rel (Suc (Suc (Suc (Suc 0)))) (p', sack', 2, csum')"
    using sack_next_rel i0 r4 r4' by blast
  then obtain k where "k \<le> Suc (Suc (Suc (Suc 0)))" "unat (2 :: u8) + 8 * k = unat (p ! (opt + 1))"
      "sack' = opt + 2 + 8 * k" "sack' \<le> length p" and p': "p' = shift_words diff (2 * k) (opt + 2) p"
      and acc': "csum_diff_ok h \<longrightarrow> csum_acc (r + sack_err (opt + 2) (8 * k) p p') p' csum'"
    unfolding sack_rel_def prod.case by blast
  then have k: "k \<le> 4" "unat (p ! (opt + 1)) = 2 + 8 * k" "opt + 2 + 8 * k \<le> length p" by simp_all
  have "q = patch p' off_check (bytes16 (csum_folder_helper csum'))" "m = maps"
    using out k opt p' by (auto simp: ingress_out_def st16_in)
  then show thesis using that [OF k] p' acc' by simp
qed

section \<open>Whole runs\<close>

lemma ingress_out_eq:
  "52 \<le> length p \<Longrightarrow>
   ingress_out maps csum p = Some (XDP_PASS, patch p off_check (bytes16 (csum_folder_helper csum)), maps)"
  by (simp add: ingress_out_def st16_in)

lemma sack_block_length:
  "sack_block h diff (p, sack, len, csum) = Some r \<Longrightarrow> case_sum length (length \<circ> fst) r = length p"
  by (erule sack_block_cases) simp_all

lemma sack_next_length:
  "sack_next h diff r = Some r' \<Longrightarrow> case_sum length (length \<circ> fst) r = n \<Longrightarrow>
   case_sum length (length \<circ> fst) r' = n"
  by (cases r) (auto simp: sack_next_def dest!: sack_block_length)

lemma sack_out_safe:
  assumes "54 \<le> length p"
  shows "\<exists>a q. sack_out h maps diff csum p opt = Some (a, q, maps) \<and> length q = length p"
proof (cases "opt + 2 \<le> length p")
  case True
  then obtain r1 r2 r3 r4 where r1: "sack_block h diff (p, opt + 2, p ! (opt + 1), csum) = Some r1"
    and r2: "sack_next h diff r1 = Some r2" and r3: "sack_next h diff r2 = Some r3"
    and r4: "sack_next h diff r3 = Some r4"
    and eq: "sack_out h maps diff csum p opt = (case r4 of Inl p \<Rightarrow> Some (XDP_DROP, p, maps)
      | Inr (p, sack, len, csum) \<Rightarrow> if len \<noteq> 2 then Some (XDP_DROP, p, maps) else ingress_out maps csum p)"
    by (rule sack_out_run)
  have "case_sum length (length \<circ> fst) r4 = length p"
    using sack_next_length [OF r4 sack_next_length [OF r3 sack_next_length [OF r2 sack_block_length [OF r1]]]] .
  with assms show ?thesis
    by (auto simp: eq ingress_out_eq split: sum.split)
next
  case False
  then show ?thesis by (simp add: sack_out_def)
qed

lemma ingress_flow_eq:
  assumes "54 \<le> length p" "scan_options (shift_word diff off_ack_seq p) = Some s"
  shows "ingress_flow h maps key diff csum p =
    (let p1 = shift_word diff off_ack_seq p;
         c = bpf_csum_diff h (take 4 (drop off_ack_seq p)) (bytes32 (bswap32 (be32 p off_ack_seq + diff))) csum
     in case s of Scan_Drop \<Rightarrow> Some (XDP_DROP, p1, maps) | Scan_Out \<Rightarrow> ingress_out maps c p1
        | Scan_Sack opt \<Rightarrow> sack_out h maps diff c p1 opt | Scan_Next opt \<Rightarrow> ingress_rst h maps key c p1)"
  using assms by (simp add: ingress_flow_def ld32_be32 ldn_in st32_in Let_def shift_word_def)

lemma ingress_flow_safe:
  assumes "54 \<le> length p"
  shows "\<exists>a q. ingress_flow h maps key diff csum p = Some (a, q, maps) \<and> length q = length p"
proof -
  let ?p = "shift_word diff off_ack_seq p"
  have len: "54 \<le> length ?p" "length ?p = length p" using assms by simp_all
  from len(1) show ?thesis
  proof (cases rule: scan_options_cases)
    case 1
    then show ?thesis using assms by (simp add: ingress_flow_eq Let_def)
  next
    case 2
    then show ?thesis using assms by (simp add: ingress_flow_eq Let_def ingress_out_eq)
  next
    case 3
    then show ?thesis using assms sack_out_safe [OF len(1)] len(2) by (simp add: ingress_flow_eq Let_def)
  qed
qed

lemma ingress_new_flow_eq:
  assumes "54 \<le> length p"
  shows "ingress_new_flow h maps key csum p =
    (if tcp_syn (p ! off_flags) then
       ingress_out (maps\<lparr>seq_map := bpf_map_update_elem h (seq_map maps) key (bswap32 (be32 p off_ack_seq))\<rparr>)
         (bpf_csum_diff h (take 4 (drop off_ack_seq p)) (bytes32 0) csum) (patch p off_ack_seq (bytes32 0))
     else Some (XDP_PASS, p, maps))"
  using assms by (simp add: ingress_new_flow_def mem_simps be32_def)

lemma ingress_total:
  "\<exists>a q m. ingress_xdp_prog h maps p = Some (a, q, m) \<and> length q = length p"
proof (cases "tcp_frame p")
  case True
  then have len: "54 \<le> length p" by (simp add: tcp_frame_def)
  show ?thesis
  proof (cases "flow_of h maps (ingress_key p)")
    case None
    with True show ?thesis using len by (simp add: ingress_tcp ingress_new_flow_eq ingress_out_eq)
  next
    case (Some d)
    with True show ?thesis
      using ingress_flow_safe [OF len, of h maps "ingress_key p" d "csum_seed p"] by (auto simp: ingress_tcp)
  qed
next
  case False
  then show ?thesis using ingress_not_tcp [of p h maps] by auto
qed

text \<open>
  (C19) The program never reads or writes outside the frame, whatever the frame, the maps and the
  helpers are, and it keeps the frame's length.
\<close>

theorem ingress_memory_safe:
  "\<exists>a q m. ingress_xdp_prog h maps p = Some (a, q, m) \<and> length q = length p"
  by (rule ingress_total)

text \<open>
  (C35) A frame of a spliced flow changes neither map.  In particular an RST from the client side
  removes nothing: the clean-up at lines 128 to 132 of \<open>ingress_xdp.c\<close> is never reached, because
  every branch of the option scan before it ends in a jump.
\<close>

theorem ingress_flow_keeps_maps:
  assumes "tcp_frame p" "flow_of h maps (ingress_key p) = Some d"
  shows "\<exists>a q. ingress_xdp_prog h maps p = Some (a, q, maps)"
  using assms ingress_flow_safe [of p h maps "ingress_key p" d "csum_seed p"]
  by (auto simp: ingress_tcp tcp_frame_def)

section \<open>What a passed frame looks like\<close>

text \<open>
  The SACK edges of a frame: where they start and how many 32-bit words they are, by the length byte of the
  option.
\<close>

definition sack_start :: "bytes \<Rightarrow> nat" where
  "sack_start p = (if has_sack p then off_opt + nops p + 2 else off_opt)"

definition sack_words :: "bytes \<Rightarrow> nat" where
  "sack_words p = (if has_sack p then 2 * ((unat (p ! (off_opt + nops p + 1)) - 2) div 8) else 0)"

text \<open>None of this depends on the acknowledgement number.\<close>

lemma options_shift_ack:
  assumes "54 \<le> length p"
  shows "nops (shift_word d off_ack_seq p) = nops p" "has_sack (shift_word d off_ack_seq p) = has_sack p"
    "options_cut (shift_word d off_ack_seq p) = options_cut p"
proof -
  let ?p = "shift_word d off_ack_seq p"
  have "drop off_opt ?p = drop off_opt p" using assms by (simp add: shift_word_def patch_def)
  then show n: "nops ?p = nops p" by (simp add: nops_def)
  have "?p ! off_doff = p ! off_doff" "length ?p = length p" using assms by (simp_all add: shift_word_def nth_patch)
  moreover have "?p ! (off_opt + nops p) = p ! (off_opt + nops p)" if "off_opt + nops p < length p"
    using that assms by (simp add: shift_word_def nth_patch)
  ultimately show "has_sack ?p = has_sack p" "options_cut ?p = options_cut p"
    by (auto simp: has_sack_def options_cut_def has_options_def n)
qed

definition odd_sack :: "bytes \<Rightarrow> bool" where
  "odd_sack p \<longleftrightarrow> ld8 p off_opt = Some 1 \<and> ld8 p (off_opt + 1) = Some 5"

lemma even_sack_start:
  assumes "\<not> odd_sack p"
  shows "even (sack_start p)"
proof (cases "has_sack p \<and> nops p = 1")
  case True
  then have "p ! off_opt = 1" "p ! (off_opt + 1) = 5" "off_opt + 1 < length p"
    by (auto simp: has_sack_def nops_unfold split: if_splits)
  then show ?thesis using assms by (simp add: odd_sack_def ld8_def)
next
  case False
  then have "has_sack p \<Longrightarrow> nops p = 0 \<or> nops p = 2" by (auto simp: has_sack_def)
  then show ?thesis by (auto simp: sack_start_def)
qed

text \<open>
  A passed frame of a spliced flow is the received one with the acknowledgement number and all
  SACK edges shifted and a new checksum; the checksum is the right one up to the error of
  odd-aligned edges.
\<close>

lemma ingress_flow_pass:
  assumes len: "54 \<le> length p"
    and pass: "ingress_flow h maps key d (csum_seed p) p = Some (XDP_PASS, q, m)"
  obtains c where "sack_start p + 4 * sack_words p \<le> length p" "off_opt \<le> sack_start p"
    "q = patch (shift_words d (sack_words p) (sack_start p) (shift_word d off_ack_seq p)) off_check
       (bytes16 (csum_folder_helper c))"
    "csum_diff_ok h \<longrightarrow> csum_acc (int (tcp_sum p) + sack_err (sack_start p) (4 * sack_words p) (shift_word d off_ack_seq p)
         (shift_words d (sack_words p) (sack_start p) (shift_word d off_ack_seq p)))
       (shift_words d (sack_words p) (sack_start p) (shift_word d off_ack_seq p)) c"
proof -
  let ?p = "shift_word d off_ack_seq p"
  let ?c = "bpf_csum_diff h (take 4 (drop off_ack_seq p)) (bytes32 (bswap32 (be32 p off_ack_seq + d))) (csum_seed p)"
  have lp: "54 \<le> length ?p" "length ?p = length p" using len by simp_all
  note same = options_shift_ack [OF len, of d]
  have acc: "csum_diff_ok h \<Longrightarrow> csum_acc (int (tcp_sum p)) ?p ?c"
    unfolding shift_word_def csum_seed_def using len csum_acc_start [of p]
    by (intro csum_acc_step) simp_all
  from lp(1) show thesis
  proof (cases rule: scan_options_cases)
    case 1
    then show ?thesis using pass len by (simp add: ingress_flow_eq Let_def)
  next
    case 2
    then have "q = patch ?p off_check (bytes16 (csum_folder_helper ?c))"
      using pass len by (simp add: ingress_flow_eq Let_def ingress_out_eq)
    then show ?thesis
      using that [of ?c] 2 len acc by (simp add: same sack_start_def sack_words_def)
  next
    case 3
    let ?opt = "off_opt + nops ?p"
    have "sack_out h maps d ?c ?p ?opt = Some (XDP_PASS, q, m)"
      using pass len 3(3) by (simp add: ingress_flow_eq Let_def)
    then obtain n c where "n \<le> 4" and n: "unat (?p ! (?opt + 1)) = 2 + 8 * n" "?opt + 2 + 8 * n \<le> length ?p"
      and "m = maps" and q: "q = patch (shift_words d (2 * n) (?opt + 2) ?p) off_check (bytes16 (csum_folder_helper c))"
      and c: "csum_diff_ok h \<longrightarrow> csum_acc (int (tcp_sum p) + sack_err (?opt + 2) (8 * n) ?p (shift_words d (2 * n) (?opt + 2) ?p))
        (shift_words d (2 * n) (?opt + 2) ?p) c"
      using acc by (rule sack_out_pass [OF _ le_add1 impI])
    have "?p ! (?opt + 1) = p ! (?opt + 1)"
      using n(2) len lp(2) by (simp add: shift_word_def nth_patch)
    then have w: "sack_start p = ?opt + 2" "sack_words p = 2 * n"
      using 3(2) n(1) by (simp_all add: same sack_start_def sack_words_def)
    show ?thesis
      using that [of c] n q c lp(2) unfolding w by simp
  qed
qed

lemma ingress_flow_run:
  assumes frame: "tcp_frame p" and flow: "flow_of h maps (ingress_key p) = Some d"
    and pass: "ingress_xdp_prog h maps p = Some (XDP_PASS, q, m)"
  shows "be32 q off_ack_seq = be32 p off_ack_seq + d \<and>
    (\<forall>k < sack_words p. be32 q (sack_start p + 4 * k) = be32 p (sack_start p + 4 * k) + d) \<and>
    (\<forall>j < length p. j \<notin> {off_ack_seq..<off_ack_seq + 4} \<and> j \<notin> {off_check..<off_check + 2} \<and>
       j \<notin> {sack_start p..<sack_start p + 4 * sack_words p} \<longrightarrow> q ! j = p ! j)"
proof -
  have len: "54 \<le> length p" using frame by (simp add: tcp_frame_def)
  have "ingress_flow h maps (ingress_key p) d (csum_seed p) p = Some (XDP_PASS, q, m)"
    using pass frame flow by (simp add: ingress_tcp)
  then obtain c where s: "sack_start p + 4 * sack_words p \<le> length p" "off_opt \<le> sack_start p"
    and q: "q = patch (shift_words d (sack_words p) (sack_start p) (shift_word d off_ack_seq p)) off_check
       (bytes16 (csum_folder_helper c))"
    by (rule ingress_flow_pass [OF len])
  let ?p1 = "shift_word d off_ack_seq p"
  let ?p2 = "shift_words d (sack_words p) (sack_start p) ?p1"
  have l: "length ?p1 = length p" "length ?p2 = length p" using len s by simp_all
  have "be32 q off_ack_seq = be32 ?p2 off_ack_seq"
    unfolding q using l len by (intro be32_patch_other) simp_all
  also have "\<dots> = be32 ?p1 off_ack_seq"
    unfolding be32_def using s l len by (simp add: nth_shift_words_out)
  also have "\<dots> = be32 p off_ack_seq + d" using len by (simp add: be32_shift_word_same)
  finally have ack: "be32 q off_ack_seq = be32 p off_ack_seq + d" .
  have edge: "be32 q (sack_start p + 4 * k) = be32 p (sack_start p + 4 * k) + d" if "k < sack_words p" for k
  proof -
    have "be32 q (sack_start p + 4 * k) = be32 ?p2 (sack_start p + 4 * k)"
      unfolding q using l s that by (intro be32_patch_other) simp_all
    also have "\<dots> = be32 ?p1 (sack_start p + 4 * k) + d"
      using s l that by (intro be32_shift_words) simp_all
    also have "be32 ?p1 (sack_start p + 4 * k) = be32 p (sack_start p + 4 * k)"
      using s len that by (intro be32_shift_word_other) simp_all
    finally show ?thesis .
  qed
  have rest: "q ! j = p ! j" if "j < length p" "j \<notin> {off_ack_seq..<off_ack_seq + 4}" "j \<notin> {off_check..<off_check + 2}"
      "j \<notin> {sack_start p..<sack_start p + 4 * sack_words p}" for j
  proof -
    have "q ! j = ?p2 ! j" unfolding q using l that len by (subst nth_patch_out) auto
    also have "\<dots> = ?p1 ! j" using l s that by (intro nth_shift_words_out) auto
    also have "\<dots> = p ! j" unfolding shift_word_def using that len by (subst nth_patch_out) auto
    finally show ?thesis .
  qed
  show ?thesis using ack edge rest by blast
qed

text \<open>
  (C8) On a spliced flow with offset \<open>d\<close>, a passed frame has its acknowledgement number increased by
  \<open>d\<close> (modulo \<open>2 ^ 32\<close>), and so is every edge of a SACK option that stands at the beginning of the
  TCP options, behind at most two NOPs; every byte outside these fields and the checksum is as received.  In
  particular the edges of a SACK option that follows another one, such as a timestamp, are not translated.
\<close>

theorem ingress_translates:
  assumes frame: "tcp_frame p" and flow: "flow_of h maps (ingress_key p) = Some d"
    and pass: "ingress_xdp_prog h maps p = Some (XDP_PASS, q, m)"
  shows "be32 q off_ack_seq = be32 p off_ack_seq + d \<and>
    (\<forall>k < sack_words p. be32 q (sack_start p + 4 * k) = be32 p (sack_start p + 4 * k) + d) \<and>
    (\<forall>j < length p. j \<notin> {off_ack_seq..<off_ack_seq + 4} \<and> j \<notin> {off_check..<off_check + 2} \<and>
       j \<notin> {sack_start p..<sack_start p + 4 * sack_words p} \<longrightarrow> q ! j = p ! j)"
  using assms by (rule ingress_flow_run)

text \<open>
  (C9) Every frame that the program passes keeps the validity of its TCP checksum, provided a SACK
  option, if there is one, is preceded by no NOP or by two of them.
\<close>

theorem ingress_keeps_checksum:
  assumes ok: "csum_diff_ok h" and even: "\<not> odd_sack p"
    and pass: "ingress_xdp_prog h maps p = Some (XDP_PASS, q, m)"
  shows "tcp_csum_valid q \<longleftrightarrow> tcp_csum_valid p"
proof (cases "tcp_frame p")
  case True
  then have len: "54 \<le> length p" by (simp add: tcp_frame_def)
  have lq: "length q = length p" using ingress_total [of h maps p] pass by auto
  have start: "csum_acc (int (tcp_sum p)) p (csum_seed p)"
    unfolding csum_seed_def using len by (intro csum_acc_start) simp
  show ?thesis
  proof (cases "flow_of h maps (ingress_key p)")
    case None
    let ?c = "bpf_csum_diff h (take 4 (drop off_ack_seq p)) (bytes32 0) (csum_seed p)"
    have "csum_acc (int (tcp_sum p)) (patch p off_ack_seq (bytes32 0)) ?c"
      using len start ok by (intro csum_acc_step) simp_all
    then have "(65535 :: int) dvd int (tcp_sum (patch (patch p off_ack_seq (bytes32 0)) off_check
        (bytes16 (csum_folder_helper ?c)))) - int (tcp_sum p)"
      using len by (intro csum_acc_finish) simp_all
    moreover have "q = p \<or> q = patch (patch p off_ack_seq (bytes32 0)) off_check (bytes16 (csum_folder_helper ?c))"
      using pass True None len by (auto simp: ingress_tcp ingress_new_flow_eq ingress_out_eq split: if_splits)
    ultimately show ?thesis using tcp_csum_valid_cong [OF _ lq] by auto
  next
    case (Some d)
    then have "ingress_flow h maps (ingress_key p) d (csum_seed p) p = Some (XDP_PASS, q, m)"
      using pass True by (simp add: ingress_tcp)
    then obtain c where s: "sack_start p + 4 * sack_words p \<le> length p"
      and q: "q = patch (shift_words d (sack_words p) (sack_start p) (shift_word d off_ack_seq p)) off_check
       (bytes16 (csum_folder_helper c))"
      and acc': "csum_acc (int (tcp_sum p) + sack_err (sack_start p) (4 * sack_words p) (shift_word d off_ack_seq p)
         (shift_words d (sack_words p) (sack_start p) (shift_word d off_ack_seq p)))
       (shift_words d (sack_words p) (sack_start p) (shift_word d off_ack_seq p)) c"
      using ok by (auto elim: ingress_flow_pass [OF len])
    have acc: "csum_acc (int (tcp_sum p)) (shift_words d (sack_words p) (sack_start p) (shift_word d off_ack_seq p)) c"
      using acc' even_sack_start [OF even] by (simp add: sack_err_def)
    have "(65535 :: int) dvd int (tcp_sum q) - int (tcp_sum p)"
      unfolding q using acc s len by (intro csum_acc_finish) simp_all
    then show ?thesis using lq by (rule tcp_csum_valid_cong)
  qed
next
  case False
  then show ?thesis using ingress_not_tcp [of p h maps] pass by auto
qed

text \<open>
  (C36) The condition on the NOPs is needed.  When the SACK option stands behind exactly one NOP, its edges are
  odd-aligned, but \<open>bpf_csum_diff\<close> adds them up as if they were even-aligned: a valid checksum stays valid only
  if the change of the edges, summed up as 16-bit words, happens to be a multiple of 257.
\<close>

theorem ingress_odd_sack_checksum:
  assumes ok: "csum_diff_ok h" and frame: "tcp_frame p" and flow: "flow_of h maps (ingress_key p) = Some d"
    and odd: "has_sack p" "nops p = 1" and valid: "tcp_csum_valid p"
    and pass: "ingress_xdp_prog h maps p = Some (XDP_PASS, q, m)"
  shows "tcp_csum_valid q \<longleftrightarrow> 257 dvd int (csum_words (take (4 * sack_words p) (drop (sack_start p) q))) -
    int (csum_words (take (4 * sack_words p) (drop (sack_start p) p)))"
proof -
  let ?p1 = "shift_word d off_ack_seq p" and ?s = "sack_start p" and ?w = "sack_words p"
  let ?p2 = "shift_words d ?w ?s ?p1"
  have len: "54 \<le> length p" using frame by (simp add: tcp_frame_def)
  have lq: "length q = length p" using ingress_total [of h maps p] pass by auto
  have "ingress_flow h maps (ingress_key p) d (csum_seed p) p = Some (XDP_PASS, q, m)"
    using pass frame flow by (simp add: ingress_tcp)
  then obtain c where s: "?s + 4 * ?w \<le> length p"
    and q: "q = patch ?p2 off_check (bytes16 (csum_folder_helper c))"
    and acc: "csum_acc (int (tcp_sum p) + sack_err ?s (4 * ?w) ?p1 ?p2) ?p2 c"
    using ok by (auto elim: ingress_flow_pass [OF len])
  have start: "?s = 57" using odd by (simp add: sack_start_def)
  have l: "length ?p1 = length p" "length ?p2 = length p" using len s by simp_all
  have edges: "drop ?s q = drop ?s ?p2" "drop ?s ?p1 = drop ?s p"
    unfolding q using len start l by (simp_all add: shift_word_def patch_def)
  define e where "e = int (csum_words (take (4 * ?w) (drop ?s q))) - int (csum_words (take (4 * ?w) (drop ?s p)))"
  have "(65535 :: int) dvd int (tcp_sum q) - (int (tcp_sum p) + sack_err ?s (4 * ?w) ?p1 ?p2)"
    unfolding q using acc len l by (intro csum_acc_finish) simp_all
  then have "(65535 :: int) dvd int (tcp_sum q) - int (tcp_sum p) - 255 * e"
    by (simp add: sack_err_def start e_def edges [unfolded start] diff_diff_eq)
  from tcp_csum_valid_error [OF this lq valid] show ?thesis unfolding e_def .
qed

section \<open>Which frames of a spliced flow pass\<close>

lemma sack_next_progress:
  assumes "unat len = 2 + 8 * m" "i + 8 * m \<le> length p"
  obtains p' i' len' c' where "sack_next h diff (Inr (p, i, len, c)) = Some (Inr (p', i', len', c'))"
    "unat len' = 2 + 8 * (m - 1)" "i' + 8 * (m - 1) \<le> length p'" "length p' = length p"
proof (cases m)
  case 0
  then have "\<not> 10 \<le> len" using assms by (simp add: word_le_nat_alt)
  then show ?thesis using that [of p i len c] assms 0 by (simp add: sack_next_def sack_block_def)
next
  case (Suc n)
  then have len: "10 \<le> len" "8 \<le> len" using assms by (simp_all add: word_le_nat_alt)
  then have "unat (len - 8) = 2 + 8 * n" using assms Suc by (simp add: unat_sub)
  moreover obtain r where r: "sack_block h diff (p, i, len, c) = Some r" using sack_block_total by blast
  from r show ?thesis
  proof (cases rule: sack_block_cases)
    case (2 c')
    then show ?thesis
      using that [of "shift_words diff 2 i p" "i + 8" "len - 8" c'] r assms Suc calculation
      by (simp add: sack_next_def)
  qed (use len assms Suc in auto)
qed

lemma sack_out_passes:
  assumes "n \<le> 4" "unat (p ! (opt + 1)) = 2 + 8 * n" "opt + 2 + 8 * n \<le> length p" "54 \<le> length p"
  shows "\<exists>q. sack_out h maps diff csum p opt = Some (XDP_PASS, q, maps)"
proof -
  have len: "opt + 2 \<le> length p" using assms by simp
  obtain p1 i1 l1 c1 where 1: "sack_next h diff (Inr (p, opt + 2, p ! (opt + 1), csum)) = Some (Inr (p1, i1, l1, c1))"
    "unat l1 = 2 + 8 * (n - 1)" "i1 + 8 * (n - 1) \<le> length p1" "length p1 = length p"
    using sack_next_progress [OF assms(2,3)] by metis
  obtain p2 i2 l2 c2 where 2: "sack_next h diff (Inr (p1, i1, l1, c1)) = Some (Inr (p2, i2, l2, c2))"
    "unat l2 = 2 + 8 * (n - 1 - 1)" "i2 + 8 * (n - 1 - 1) \<le> length p2" "length p2 = length p1"
    using sack_next_progress [OF 1(2,3)] by metis
  obtain p3 i3 l3 c3 where 3: "sack_next h diff (Inr (p2, i2, l2, c2)) = Some (Inr (p3, i3, l3, c3))"
    "unat l3 = 2 + 8 * (n - 1 - 1 - 1)" "i3 + 8 * (n - 1 - 1 - 1) \<le> length p3" "length p3 = length p2"
    using sack_next_progress [OF 2(2,3)] by metis
  obtain p4 i4 l4 c4 where 4: "sack_next h diff (Inr (p3, i3, l3, c3)) = Some (Inr (p4, i4, l4, c4))"
    "unat l4 = 2 + 8 * (n - 1 - 1 - 1 - 1)" "length p4 = length p3"
    using sack_next_progress [OF 3(2,3)] by metis
  have "l4 = 2" using 4(2) assms(1) by (simp add: word_unat_eq_iff)
  then have "sack_out h maps diff csum p opt = ingress_out maps c4 p4"
    using len 1(1) 2(1) 3(1) 4(1) by (simp add: sack_out_def mem_simps sack_next_def [of h diff "Inr (p, _)"])
  then show ?thesis using assms(4) 1(4) 2(4) 3(4) 4(3) by (simp add: ingress_out_eq)
qed

definition sack_ok :: "bytes \<Rightarrow> bool" where
  "sack_ok p \<longleftrightarrow> \<not> options_cut p \<and> (has_sack p \<longrightarrow>
     (\<exists>n \<le> 4. sack_start p + 8 * n \<le> length p \<and> unat (p ! (sack_start p - 1)) = 2 + 8 * n))"

lemma sack_ok_sack:
  assumes "54 \<le> length p" "has_sack p"
  shows "sack_ok p \<longleftrightarrow> (\<exists>n \<le> 4. off_opt + nops p + 2 + 8 * n \<le> length (shift_word d off_ack_seq p) \<and>
    unat (shift_word d off_ack_seq p ! (off_opt + nops p + 1)) = 2 + 8 * n)"
proof -
  let ?p = "shift_word d off_ack_seq p"
  have "\<not> options_cut p" using assms(2) by (simp add: options_cut_def has_sack_def)
  moreover have "sack_start p = off_opt + nops p + 2" using assms(2) by (simp add: sack_start_def)
  moreover have "length ?p = length p" using assms(1) by simp
  moreover have "?p ! (off_opt + nops p + 1) = p ! (off_opt + nops p + 1)" if "off_opt + nops p + 2 \<le> length p"
    using that assms(1) by (simp add: shift_word_def nth_patch)
  ultimately show ?thesis using assms(2) by (auto simp: sack_ok_def)
qed

lemma ingress_flow_passes:
  assumes "54 \<le> length p" "sack_ok p"
  shows "\<exists>q. ingress_flow h maps key d csum p = Some (XDP_PASS, q, maps)"
proof -
  let ?p = "shift_word d off_ack_seq p"
  have lp: "54 \<le> length ?p" using assms by simp
  note same = options_shift_ack [OF assms(1), of d]
  from lp show ?thesis
  proof (cases rule: scan_options_cases)
    case 1
    then show ?thesis using assms(2) by (simp add: sack_ok_def same)
  next
    case 2
    then show ?thesis using assms(1) by (simp add: ingress_flow_eq Let_def ingress_out_eq)
  next
    case 3
    then show ?thesis
      using assms lp sack_ok_sack [OF assms(1), of d] sack_out_passes [of _ ?p "off_opt + nops ?p" h maps d]
      by (auto simp: same ingress_flow_eq Let_def)
  qed
qed

lemma ingress_flow_pass_sack_ok:
  assumes len: "54 \<le> length p" and pass: "ingress_flow h maps key d csum p = Some (XDP_PASS, q, m)"
  shows "sack_ok p"
proof -
  let ?p = "shift_word d off_ack_seq p"
  have lp: "54 \<le> length ?p" using assms by simp
  note same = options_shift_ack [OF len, of d]
  from lp show ?thesis
  proof (cases rule: scan_options_cases)
    case 3
    let ?opt = "off_opt + nops ?p"
    obtain c where "sack_out h maps d c ?p ?opt = Some (XDP_PASS, q, m)"
      using pass len 3(3) by (auto simp: ingress_flow_eq Let_def)
    then obtain n where "n \<le> 4" "unat (?p ! (?opt + 1)) = 2 + 8 * n" "?opt + 2 + 8 * n \<le> length ?p"
      by (rule sack_out_pass [OF _ le_add1, where r = "int (tcp_sum ?p) - int (csum_words (take 2 (drop off_check ?p))) - int (unat c)"])
        (auto simp: csum_acc_def)
    then show ?thesis using 3(2) sack_ok_sack [OF len, of d] by (auto simp: same)
  qed (use pass len in \<open>simp_all add: same sack_ok_def ingress_flow_eq Let_def\<close>)
qed

text \<open>
  (C21) Exactly these frames of a spliced flow pass: the options, if the header announces any, do not end
  with the frame within their first NOPs, and if a SACK option stands at their beginning (behind at most two
  NOPs), its length byte is \<open>2 + 8 n\<close> for at most four blocks, all of which lie in the frame.  No other
  frame of the flow reaches the server.
\<close>

theorem ingress_passes_iff:
  assumes "tcp_frame p" "flow_of h maps (ingress_key p) = Some d"
  shows "(\<exists>q m. ingress_xdp_prog h maps p = Some (XDP_PASS, q, m)) \<longleftrightarrow> sack_ok p"
proof -
  have len: "54 \<le> length p" using assms(1) by (simp add: tcp_frame_def)
  show ?thesis
    using assms ingress_flow_passes [OF len] ingress_flow_pass_sack_ok [OF len]
    by (simp add: ingress_tcp) blast
qed

section \<open>Concrete runs\<close>

text \<open>
  The client 10.0.1.100:1234 of a flow whose server-side sequence numbers are 70000 ahead of the
  ones it has seen: an acknowledgement with one SACK block after two NOPs, and the same with the
  option moved one byte to the left.
\<close>

definition ex_key :: key_t where
  "ex_key = \<lparr>k_ip = le32 10 0 1 100, k_port = le16 4 210, k_padding = 0\<rparr>"

definition ex_maps :: "(key_t \<times> u32) list bpf_maps" where
  "ex_maps = \<lparr>seq_map = [(ex_key, bswap32 5000)], flow_map = [(ex_key, 70000)]\<rparr>"

definition ex_sack :: bytes where
  "ex_sack = [12, 66, 161, 74, 255, 2, 12, 66, 161, 209, 208, 200, 8, 0, 69, 0, 0, 52, 0, 1, 64, 0, 64, 6, 35, 91,
     10, 0, 1, 100, 10, 0, 2, 5, 4, 210, 0, 80, 0, 0, 3, 232, 0, 0, 19, 137, 128, 16, 2, 0, 27, 134, 0, 0,
     1, 1, 5, 10, 0, 0, 19, 236, 0, 0, 20, 80]"

definition ex_odd :: bytes where
  "ex_odd = [12, 66, 161, 74, 255, 2, 12, 66, 161, 209, 208, 200, 8, 0, 69, 0, 0, 52, 0, 1, 64, 0, 64, 6, 35, 91,
     10, 0, 1, 100, 10, 0, 2, 5, 4, 210, 0, 80, 0, 0, 3, 232, 0, 0, 19, 137, 128, 16, 2, 0, 2, 159, 0, 0,
     1, 5, 10, 0, 0, 19, 236, 0, 0, 20, 80, 1]"

lemma ex_sack_frame: "tcp_frame ex_sack" "ingress_key ex_sack = ex_key"
  by (simp_all add: tcp_frame_def ingress_key_def ex_key_def ex_sack_def le16_def bswap16_def byte_at_def)

lemma ex_maps_flow: "flow_of alist_helpers ex_maps ex_key = Some 70000"
  by (simp add: alist_helpers_def ex_maps_def)

lemma ex_sack_scan: "nops ex_sack = 2" "has_sack ex_sack" "ex_sack ! 57 = 10" "length ex_sack = 66"
  by (simp_all add: nops_def has_sack_def has_options_def tcp_doff_def ex_sack_def)

lemma ex_sack_ok: "sack_ok ex_sack"
  by (auto simp: sack_ok_def sack_start_def options_cut_def ex_sack_scan intro!: exI [of _ "1 :: nat"])

lemma ex_sack_passes: "\<exists>q. ingress_xdp_prog alist_helpers ex_maps ex_sack = Some (XDP_PASS, q, ex_maps)"
  using ingress_flow_passes [of ex_sack] ex_sack_ok
  by (simp add: ingress_tcp ex_sack_frame ex_maps_flow ex_sack_scan)

lemma ex_sack_words: "sack_words ex_sack = 2" "sack_start ex_sack = 58"
  by (simp_all add: sack_words_def sack_start_def ex_sack_scan)

lemma ex_sack_fields: "be32 ex_sack 42 = 5001" "be32 ex_sack 58 = 5100" "be32 ex_sack 62 = 5200"
  by (simp_all add: be32_def ex_sack_def le32_def bswap32_def byte_at_def)

theorem ingress_flow_keeps_maps_witness:
  "tcp_frame ex_sack \<and> (\<exists>a q. ingress_xdp_prog alist_helpers ex_maps ex_sack = Some (a, q, ex_maps))"
  using ingress_flow_keeps_maps [of ex_sack alist_helpers ex_maps 70000] by (simp add: ex_sack_frame ex_maps_flow)

theorem ingress_translates_witness:
  "\<exists>q. ingress_xdp_prog alist_helpers ex_maps ex_sack = Some (XDP_PASS, q, ex_maps) \<and>
     be32 q 42 = 75001 \<and> be32 q 58 = 75100 \<and> be32 q 62 = 75200"
proof -
  obtain q where q: "ingress_xdp_prog alist_helpers ex_maps ex_sack = Some (XDP_PASS, q, ex_maps)"
    using ex_sack_passes by blast
  then have "be32 q off_ack_seq = be32 ex_sack off_ack_seq + 70000"
    "\<forall>k < 2. be32 q (58 + 4 * k) = be32 ex_sack (58 + 4 * k) + 70000"
    using ingress_translates [of ex_sack alist_helpers ex_maps 70000 q ex_maps]
    by (simp_all add: ex_sack_frame ex_maps_flow ex_sack_words)
  then show ?thesis using q by (auto simp: ex_sack_fields dest: spec [of _ 0] spec [of _ 1])
qed

theorem ingress_keeps_checksum_witness:
  "\<exists>q. ingress_xdp_prog alist_helpers ex_maps ex_sack = Some (XDP_PASS, q, ex_maps) \<and> tcp_csum_valid q"
proof -
  obtain q where q: "ingress_xdp_prog alist_helpers ex_maps ex_sack = Some (XDP_PASS, q, ex_maps)"
    using ex_sack_passes by blast
  have "\<not> odd_sack ex_sack" by (simp add: odd_sack_def ld8_def ex_sack_def)
  then have "tcp_csum_valid q \<longleftrightarrow> tcp_csum_valid ex_sack"
    using q by (rule ingress_keeps_checksum [OF alist_csum_diff_ok])
  moreover have "tcp_csum_valid ex_sack"
    by (simp add: tcp_csum_valid_def tcp_sum_def ex_sack_def le16_def bswap16_def byte_at_def)
  ultimately show ?thesis using q by blast
qed

theorem ingress_passes_iff_witness:
  "sack_ok ex_sack \<and> (\<exists>q m. ingress_xdp_prog alist_helpers ex_maps ex_sack = Some (XDP_PASS, q, m))"
  using ingress_passes_iff [of ex_sack alist_helpers ex_maps 70000]
  by (simp add: ex_sack_frame ex_maps_flow ex_sack_ok)

subsection \<open>A SACK after one NOP\<close>

text \<open>The run on \<open>ex_odd\<close>, stage by stage: the acknowledgement number, then the two edges.\<close>

definition ex_odd1 :: bytes where
  "ex_odd1 = take 42 ex_odd @ [0, 1, 36, 249] @ drop 46 ex_odd"

definition ex_odd2 :: bytes where
  "ex_odd2 = take 57 ex_odd1 @ [0, 1, 37, 92] @ drop 61 ex_odd1"

definition ex_odd3 :: bytes where
  "ex_odd3 = take 61 ex_odd2 @ [0, 1, 37, 192] @ drop 65 ex_odd2"

lemmas ex_eval = be32_def le32_def le16_def bswap32_def byte_at_def bytes32_def bytes16_def

lemma ex_odd_frame: "tcp_frame ex_odd" "ingress_key ex_odd = ex_key" "length ex_odd = 66"
  by (simp_all add: tcp_frame_def ingress_key_def ex_key_def ex_odd_def le16_def bswap16_def byte_at_def)

lemma ex_odd_scan: "scan_options ex_odd1 = Some (Scan_Sack 55)" "ex_odd1 ! 56 = 10" "length ex_odd1 = 66"
  by (simp_all add: scan_options_def scan_nop_eq scan_last_eq ld8_def tcp_doff_def ex_odd1_def ex_odd_def)

lemma ex_odd_ack:
  "shift_word 70000 42 ex_odd = ex_odd1"
  "alist_csum_diff (take 4 (drop 42 ex_odd)) (bytes32 (bswap32 (be32 ex_odd 42 + 70000))) (csum_seed ex_odd) = 53774"
  by (simp_all add: shift_word_def patch_def ex_odd1_def ex_odd_def alist_csum_diff_def csum_seed_def ex_eval)

lemma ex_odd_edge1:
  "shift_word 70000 57 ex_odd1 = ex_odd2"
  "alist_csum_diff (take 4 (drop 57 ex_odd1)) (bytes32 (bswap32 (be32 ex_odd1 57 + 70000))) 53774 = 17184"
  by (simp_all add: shift_word_def patch_def ex_odd2_def ex_odd1_def ex_odd_def alist_csum_diff_def ex_eval)

lemma ex_odd_edge2:
  "shift_word 70000 61 ex_odd2 = ex_odd3"
  "alist_csum_diff (take 4 (drop 61 ex_odd2)) (bytes32 (bswap32 (be32 ex_odd2 61 + 70000))) 17184 = 46129"
  by (simp_all add: shift_word_def patch_def ex_odd3_def ex_odd2_def ex_odd1_def ex_odd_def alist_csum_diff_def ex_eval)

lemma ex_odd_block:
  "sack_block alist_helpers 70000 (ex_odd1, 57, 10, 53774) = Some (Inr (ex_odd3, 65, 2, 46129))"
proof -
  have "sack_edge alist_helpers 70000 (ex_odd1, 57, 53774) = Some (ex_odd2, 61, 17184)"
    using ex_odd_edge1 by (simp add: sack_edge_eq ex_odd_scan alist_helpers_def)
  moreover have "length ex_odd2 = 66" by (simp add: ex_odd2_def ex_odd_scan)
  then have "sack_edge alist_helpers 70000 (ex_odd2, 61, 17184) = Some (ex_odd3, 65, 46129)"
    using ex_odd_edge2 by (simp add: sack_edge_eq alist_helpers_def)
  ultimately show ?thesis by (simp add: sack_block_def ex_odd_scan)
qed

lemma ex_odd_run:
  "ingress_xdp_prog alist_helpers ex_maps ex_odd =
     Some (XDP_PASS, patch ex_odd3 50 (bytes16 (csum_folder_helper 46129)), ex_maps)"
proof -
  have "sack_next alist_helpers 70000 (Inr (ex_odd3, 65, 2, 46129)) = Some (Inr (ex_odd3, 65, 2, 46129))"
    by (simp add: sack_next_def sack_block_def)
  moreover have "length ex_odd3 = 66" by (simp add: ex_odd3_def ex_odd2_def ex_odd_scan)
  ultimately have "sack_out alist_helpers ex_maps 70000 53774 ex_odd1 55 =
      Some (XDP_PASS, patch ex_odd3 50 (bytes16 (csum_folder_helper 46129)), ex_maps)"
    by (simp add: sack_out_def ex_odd_scan ld8_def ex_odd_block ingress_out_eq)
  then show ?thesis
    using ex_odd_ack
    by (simp add: ingress_tcp ex_odd_frame ex_maps_flow ingress_flow_eq ex_odd_scan Let_def alist_helpers_sel(4))
qed

text \<open>The checksum of \<open>ex_odd\<close> is valid, and that of the frame that is passed on is not.\<close>

theorem ingress_odd_sack_checksum_witness:
  "\<exists>q. ingress_xdp_prog alist_helpers ex_maps ex_odd = Some (XDP_PASS, q, ex_maps) \<and>
     tcp_csum_valid ex_odd \<and> \<not> tcp_csum_valid q"
proof -
  let ?q = "patch ex_odd3 50 (bytes16 (csum_folder_helper 46129))"
  have v: "tcp_csum_valid ex_odd"
    by (simp add: tcp_csum_valid_def tcp_sum_def ex_odd_def le16_def bswap16_def byte_at_def)
  have o: "has_sack ex_odd" "nops ex_odd = 1" "ex_odd ! 56 = 10"
    by (simp_all add: has_sack_def has_options_def nops_def tcp_doff_def ex_odd_def)
  have w: "sack_start ex_odd = 57" "sack_words ex_odd = 2"
    using o by (simp_all add: sack_start_def sack_words_def)
  have e: "take 8 (drop 57 ?q) = [0, 1, 37, 92, 0, 1, 37, 192]" "take 8 (drop 57 ex_odd) = [0, 0, 19, 236, 0, 0, 20, 80]"
    by (simp_all add: patch_def bytes16_def ex_odd3_def ex_odd2_def ex_odd1_def ex_odd_def)
  have "tcp_csum_valid ?q \<longleftrightarrow> 257 dvd int (csum_words (take (4 * 2) (drop 57 ?q))) - int (csum_words (take (4 * 2) (drop 57 ex_odd)))"
    using ingress_odd_sack_checksum [OF alist_csum_diff_ok _ _ o(1,2) v ex_odd_run, of 70000] ex_odd_frame ex_maps_flow
    unfolding w by simp
  then show ?thesis using ex_odd_run v by (auto simp: e)
qed

end
