(* ===== verification/Backend_Egress.thy ===== *)
theory Backend_Egress
  imports Backend_Agent
begin

text \<open>
  The traffic-control program of \<open>src/Backend/egress_tc.c\<close>: every frame that leaves the back-end
  server is looked up by its destination address and port.  For a spliced flow the sequence number
  is shifted back by the flow's offset, and a reset ends the flow; the SYN-ACK of a flow that the
  ingress side has announced fixes its offset.  The result \<open>None\<close> is an access outside the frame.
\<close>

section \<open>The program\<close>

datatype tc_action = TC_ACT_OK | TC_ACT_SHOT

type_synonym 'm tc_result = "(tc_action \<times> bytes \<times> 'm bpf_maps) option"

definition egress_out :: "'m bpf_maps \<Rightarrow> u32 \<Rightarrow> bytes \<Rightarrow> 'm tc_result" where
  "egress_out maps csum p = do {
     p \<leftarrow> st16 p off_check (csum_folder_helper csum);
     Some (TC_ACT_OK, p, maps)
   }"

definition egress_flow ::
  "'m bpf_helpers \<Rightarrow> 'm bpf_maps \<Rightarrow> key_t \<Rightarrow> u32 \<Rightarrow> u32 \<Rightarrow> bytes \<Rightarrow> 'm tc_result" where
  "egress_flow h maps key diff csum p = do {
     seq \<leftarrow> ld32 p off_seq;
     let new_seq = bswap32 (bswap32 seq - diff);
     from \<leftarrow> ldn p off_seq 4;
     let csum = bpf_csum_diff h from (bytes32 new_seq) csum;
     p \<leftarrow> st32 p off_seq new_seq;
     fl \<leftarrow> ld8 p off_flags;
     let maps = (if tcp_rst fl
       then maps\<lparr>flow_map := bpf_map_delete_elem h (flow_map maps) key,
                 seq_map := bpf_map_delete_elem h (seq_map maps) key\<rparr>
       else maps);
     egress_out maps csum p
   }"

definition egress_new_flow ::
  "'m bpf_helpers \<Rightarrow> 'm bpf_maps \<Rightarrow> key_t \<Rightarrow> u32 \<Rightarrow> bytes \<Rightarrow> 'm tc_result" where
  "egress_new_flow h maps key csum p = do {
     fl \<leftarrow> ld8 p off_flags;
     if \<not> tcp_syn fl \<or> \<not> tcp_ack fl then Some (TC_ACT_OK, p, maps)
     else (case bpf_map_lookup_elem h (seq_map maps) key of
         None \<Rightarrow> Some (TC_ACT_OK, p, maps)
       | Some f_seq \<Rightarrow> do {
           seq \<leftarrow> ld32 p off_seq;
           let new_diff = bswap32 seq - bswap32 f_seq;
           let maps = maps\<lparr>flow_map := bpf_map_update_elem h (flow_map maps) key new_diff\<rparr>;
           egress_out maps csum p
         })
   }"

definition egress_tc_prog :: "'m bpf_helpers \<Rightarrow> 'm bpf_maps \<Rightarrow> bytes \<Rightarrow> 'm tc_result" where
  "egress_tc_prog h maps p =
     (if 14 > length p then Some (TC_ACT_SHOT, p, maps)
      else do {
        h_proto \<leftarrow> ld16 p off_h_proto;
        if h_proto \<noteq> bswap16 0x0800 then Some (TC_ACT_OK, p, maps)
        else if 34 > length p then Some (TC_ACT_SHOT, p, maps)
        else do {
          protocol \<leftarrow> ld8 p off_protocol;
          if protocol \<noteq> 6 then Some (TC_ACT_OK, p, maps)
          else if 54 > length p then Some (TC_ACT_SHOT, p, maps)
          else do {
            daddr \<leftarrow> ld32 p off_daddr;
            dest \<leftarrow> ld16 p off_dest;
            let key = \<lparr>k_ip = daddr, k_port = dest, k_padding = 0\<rparr>;
            check \<leftarrow> ld16 p off_check;
            let csum = NOT (ucast check);
            (case bpf_map_lookup_elem h (flow_map maps) key of
               Some diff \<Rightarrow> egress_flow h maps key diff csum p
             | None \<Rightarrow> egress_new_flow h maps key csum p)
          }
        }
      })"

section \<open>Parsing\<close>

definition egress_key :: "bytes \<Rightarrow> key_t" where
  "egress_key p = \<lparr>k_ip = le32 (p ! off_daddr) (p ! (off_daddr + 1)) (p ! (off_daddr + 2)) (p ! (off_daddr + 3)),
     k_port = le16 (p ! off_dest) (p ! (off_dest + 1)), k_padding = 0\<rparr>"

lemma egress_tcp:
  assumes "tcp_frame p"
  shows "egress_tc_prog h maps p =
     (case flow_of h maps (egress_key p) of
        Some diff \<Rightarrow> egress_flow h maps (egress_key p) diff (csum_seed p) p
      | None \<Rightarrow> egress_new_flow h maps (egress_key p) (csum_seed p) p)"
  using assms by (simp add: tcp_frame_def egress_tc_prog_def mem_simps egress_key_def csum_seed_def Let_def
      split: option.split)

lemma egress_not_tcp:
  assumes "\<not> tcp_frame p"
  shows "\<exists>a. egress_tc_prog h maps p = Some (a, p, maps)"
  using assms by (auto simp: tcp_frame_def egress_tc_prog_def mem_simps)

section \<open>Both branches in closed form\<close>

lemma egress_out_eq:
  "52 \<le> length p \<Longrightarrow>
   egress_out maps csum p = Some (TC_ACT_OK, patch p off_check (bytes16 (csum_folder_helper csum)), maps)"
  by (simp add: egress_out_def st16_in)

definition egress_end :: "'m bpf_helpers \<Rightarrow> key_t \<Rightarrow> bytes \<Rightarrow> 'm bpf_maps \<Rightarrow> 'm bpf_maps" where
  "egress_end h key p maps = (if tcp_rst (p ! off_flags)
     then maps\<lparr>flow_map := bpf_map_delete_elem h (flow_map maps) key,
               seq_map := bpf_map_delete_elem h (seq_map maps) key\<rparr>
     else maps)"

text \<open>The outgoing direction is the incoming one with the offset negated, at the sequence number.\<close>

lemma egress_flow_eq:
  assumes "54 \<le> length p"
  shows "egress_flow h maps key diff csum p =
    Some (TC_ACT_OK, patch (shift_word (- diff) off_seq p) off_check (bytes16 (csum_folder_helper
        (bpf_csum_diff h (take 4 (drop off_seq p)) (bytes32 (bswap32 (be32 p off_seq + - diff))) csum))),
      egress_end h key p maps)"
proof -
  have "shift_word (- diff) off_seq p ! off_flags = p ! off_flags"
    using assms by (simp add: shift_word_def nth_patch)
  then show ?thesis
    using assms by (simp add: egress_flow_def ld32_be32 ldn_in st32_in ld8_in egress_out_eq shift_word_def
        egress_end_def Let_def)
qed

lemma egress_new_flow_eq:
  assumes "54 \<le> length p"
  shows "egress_new_flow h maps key csum p =
    (case seq_of h maps key of
       Some f_seq \<Rightarrow> if tcp_syn (p ! off_flags) \<and> tcp_ack (p ! off_flags)
         then Some (TC_ACT_OK, patch p off_check (bytes16 (csum_folder_helper csum)),
           maps\<lparr>flow_map := bpf_map_update_elem h (flow_map maps) key (be32 p off_seq - bswap32 f_seq)\<rparr>)
         else Some (TC_ACT_OK, p, maps)
     | None \<Rightarrow> Some (TC_ACT_OK, p, maps))"
  using assms by (simp add: egress_new_flow_def ld32_be32 ld8_in egress_out_eq Let_def split: option.split)

lemma egress_total:
  "\<exists>a q m. egress_tc_prog h maps p = Some (a, q, m) \<and> length q = length p"
proof (cases "tcp_frame p")
  case True
  then have "54 \<le> length p" by (simp add: tcp_frame_def)
  with True show ?thesis
    by (simp add: egress_tcp egress_flow_eq egress_new_flow_eq split: option.split)
next
  case False
  then show ?thesis using egress_not_tcp [of p h maps] by auto
qed

section \<open>Properties\<close>

text \<open>
  (C20) The program never reads or writes outside the frame, whatever the frame, the maps and the
  helpers are; it keeps the frame's length, and of the TCP frames it drops none.
\<close>

theorem egress_memory_safe:
  "\<exists>a q m. egress_tc_prog h maps p = Some (a, q, m) \<and> length q = length p \<and>
     (a = TC_ACT_SHOT \<longleftrightarrow> length p < 14 \<or> le16 (p ! off_h_proto) (p ! (off_h_proto + 1)) = bswap16 0x0800 \<and>
        (length p < 34 \<or> p ! off_protocol = 6 \<and> length p < 54))"
proof (cases "tcp_frame p")
  case True
  then have "54 \<le> length p" by (simp add: tcp_frame_def)
  with True show ?thesis
    by (simp add: egress_tcp egress_flow_eq egress_new_flow_eq split: option.split)
next
  case False
  then show ?thesis by (auto simp: tcp_frame_def egress_tc_prog_def mem_simps)
qed

lemma egress_flow_run:
  assumes frame: "tcp_frame p" and flow: "flow_of h maps (egress_key p) = Some d"
  shows "\<exists>q. egress_tc_prog h maps p = Some (TC_ACT_OK, q, egress_end h (egress_key p) p maps) \<and>
    be32 q off_seq = be32 p off_seq - d \<and>
    (\<forall>j < length p. j \<notin> {off_seq..<off_seq + 4} \<and> j \<notin> {off_check..<off_check + 2} \<longrightarrow> q ! j = p ! j)"
proof -
  have len: "54 \<le> length p" using frame by (simp add: tcp_frame_def)
  let ?p = "shift_word (- d) off_seq p"
  have l: "length ?p = length p" using len by simp
  define c where "c = csum_folder_helper
    (bpf_csum_diff h (take 4 (drop off_seq p)) (bytes32 (bswap32 (be32 p off_seq + - d))) (csum_seed p))"
  have "be32 (patch ?p off_check (bytes16 c)) off_seq = be32 ?p off_seq"
    using len l by (intro be32_patch_other) simp_all
  also have "\<dots> = be32 p off_seq + - d" using len by (intro be32_shift_word_same) simp
  finally have seq: "be32 (patch ?p off_check (bytes16 c)) off_seq = be32 p off_seq - d" by simp
  have rest: "patch ?p off_check (bytes16 c) ! j = p ! j"
    if "j < length p" "j \<notin> {off_seq..<off_seq + 4}" "j \<notin> {off_check..<off_check + 2}" for j
    using that len l by (auto simp: nth_patch shift_word_def)
  show ?thesis
    using frame flow len seq rest by (simp add: egress_tcp egress_flow_eq c_def)
qed

text \<open>
  (C10) On a spliced flow with offset \<open>d\<close> every frame leaves with its sequence number decreased by
  \<open>d\<close> (modulo \<open>2 ^ 32\<close>) and every byte outside it and the checksum unchanged; a reset removes the
  flow from both maps, and any other frame leaves them alone.
\<close>

theorem egress_translates:
  assumes frame: "tcp_frame p" and flow: "flow_of h maps (egress_key p) = Some d"
  shows "\<exists>q. egress_tc_prog h maps p = Some (TC_ACT_OK, q, egress_end h (egress_key p) p maps) \<and>
    be32 q off_seq = be32 p off_seq - d \<and>
    (\<forall>j < length p. j \<notin> {off_seq..<off_seq + 4} \<and> j \<notin> {off_check..<off_check + 2} \<longrightarrow> q ! j = p ! j)"
  using assms by (rule egress_flow_run)

lemma egress_flow_csum:
  assumes "csum_diff_ok h" "54 \<le> length p"
  shows "(65535 :: int) dvd int (tcp_sum (patch (shift_word (- d) off_seq p) off_check (bytes16 (csum_folder_helper
      (bpf_csum_diff h (take 4 (drop off_seq p)) (bytes32 (bswap32 (be32 p off_seq - d))) (csum_seed p))))))
    - int (tcp_sum p)"
proof -
  have "csum_acc (int (tcp_sum p)) p (csum_seed p)"
    unfolding csum_seed_def using assms by (intro csum_acc_start) simp
  then have "csum_acc (int (tcp_sum p)) (shift_word (- d) off_seq p)
      (bpf_csum_diff h (take 4 (drop off_seq p)) (bytes32 (bswap32 (be32 p off_seq - d))) (csum_seed p))"
    unfolding shift_word_def using assms by (simp del: add_uminus_conv_diff add: diff_conv_add_uminus) (intro csum_acc_step, simp_all)
  then show ?thesis using assms by (intro csum_acc_finish) simp_all
qed

lemma fold_seed_csum:
  assumes "54 \<le> length p"
  shows "(65535 :: int) dvd int (tcp_sum (patch p off_check (bytes16 (csum_folder_helper (csum_seed p))))) - int (tcp_sum p)"
  unfolding csum_seed_def using assms by (intro csum_acc_finish csum_acc_start) simp_all

text \<open>
  (C11) Every frame, of a spliced flow or not, leaves with a valid TCP checksum exactly when it came
  with one.
\<close>

theorem egress_keeps_checksum:
  assumes ok: "csum_diff_ok h" and run: "egress_tc_prog h maps p = Some (a, q, m)"
  shows "tcp_csum_valid q \<longleftrightarrow> tcp_csum_valid p"
proof (cases "tcp_frame p")
  case True
  then have len: "54 \<le> length p" by (simp add: tcp_frame_def)
  have lq: "length q = length p" using egress_total [of h maps p] run by auto
  have "q = p \<or> (65535 :: int) dvd int (tcp_sum q) - int (tcp_sum p)"
    using run True len egress_flow_csum [OF ok len] fold_seed_csum [OF len]
    by (auto simp: egress_tcp egress_flow_eq egress_new_flow_eq split: option.splits if_splits)
  then show ?thesis using tcp_csum_valid_cong [OF _ lq] by blast
next
  case False
  then show ?thesis using egress_not_tcp [of p h maps] run by auto
qed

text \<open>
  The SYN-ACK that answers an announced flow is not rewritten (the checksum is written back,
  with \<open>0xffff\<close> normalised to 0), and the flow's offset becomes the server's sequence number minus
  the announced one.
\<close>

theorem egress_syn_ack_records:
  assumes frame: "tcp_frame p" and new: "flow_of h maps (egress_key p) = None"
    and ann: "seq_of h maps (egress_key p) = Some f" and syn: "tcp_syn (p ! off_flags)" "tcp_ack (p ! off_flags)"
  shows "egress_tc_prog h maps p =
    Some (TC_ACT_OK,
      (if le16 (p ! off_check) (p ! (off_check + 1)) = 0xffff then patch p off_check [0, 0] else p),
      maps\<lparr>flow_map := bpf_map_update_elem h (flow_map maps) (egress_key p) (be32 p off_seq - bswap32 f)\<rparr>)"
proof -
  let ?w = "le16 (p ! off_check) (p ! (off_check + 1))"
  have len: "54 \<le> length p" using frame by (simp add: tcp_frame_def)
  have "patch p off_check (bytes16 (csum_folder_helper (csum_seed p))) =
      (if ?w = 0xffff then patch p off_check [0, 0] else p)"
    using len by (simp add: csum_seed_def csum_folder_helper_not bytes16_def patch_id [of off_check p, simplified] byte_at_def [of _ 0])
  then show ?thesis
    using frame new ann syn len by (simp add: egress_tcp egress_new_flow_eq)
qed

end
