(* ===== verification/Backend_Flow.thy ===== *)
theory Backend_Flow
  imports Backend_Ingress Backend_Egress
begin

text \<open>
  The back-end agent as a whole: the ingress and the egress program run, frame by frame and in any
  order, on the two maps that the loader pins for both.  A run of either program is one step.  The
  invariant of every reachable pair of maps and the end-to-end behaviour of a spliced connection
  are proved here, for any kernel that keeps the contract \<open>bpf_env\<close>.
\<close>

section \<open>The agent as a state machine\<close>

datatype agent_event = Ingress bytes | Egress bytes

inductive agent_step :: "'m bpf_helpers \<Rightarrow> 'm bpf_maps \<Rightarrow> agent_event \<Rightarrow> 'm bpf_maps \<Rightarrow> bool" for h where
  step_ingress: "ingress_xdp_prog h m p = Some (a, q, m') \<Longrightarrow> agent_step h m (Ingress p) m'"
| step_egress: "egress_tc_prog h m p = Some (a, q, m') \<Longrightarrow> agent_step h m (Egress p) m'"

inductive agent_run :: "'m bpf_helpers \<Rightarrow> 'm bpf_maps \<Rightarrow> agent_event list \<Rightarrow> 'm bpf_maps \<Rightarrow> bool" for h where
  run_nil: "agent_run h m [] m"
| run_cons: "agent_step h m e m' \<Longrightarrow> agent_run h m' es m'' \<Longrightarrow> agent_run h m (e # es) m''"

inductive_cases step_ingressE: "agent_step h m (Ingress p) m'"
inductive_cases step_egressE: "agent_step h m (Egress p) m'"
inductive_simps agent_run_simps: "agent_run h m [] m'" "agent_run h m (e # es) m'"

text \<open>The flow that a frame belongs to, and the frames that end it.\<close>

fun event_key :: "agent_event \<Rightarrow> key_t option" where
  "event_key (Ingress p) = (if tcp_frame p then Some (ingress_key p) else None)"
| "event_key (Egress p) = (if tcp_frame p then Some (egress_key p) else None)"

fun server_reset :: "key_t \<Rightarrow> agent_event \<Rightarrow> bool" where
  "server_reset k (Ingress p) = False"
| "server_reset k (Egress p) = (tcp_frame p \<and> egress_key p = k \<and> tcp_rst (p ! off_flags))"

text \<open>What a step can do to the maps, whatever the kernel does.\<close>

lemma ingress_maps:
  assumes "agent_step h m (Ingress p) m'"
  obtains "m' = m"
  | "tcp_frame p" "tcp_syn (p ! off_flags)" "flow_of h m (ingress_key p) = None"
    "m' = m\<lparr>seq_map := bpf_map_update_elem h (seq_map m) (ingress_key p) (bswap32 (be32 p off_ack_seq))\<rparr>"
proof (cases "tcp_frame p")
  case True
  then have len: "54 \<le> length p" by (simp add: tcp_frame_def)
  from assms obtain a q where run: "ingress_xdp_prog h m p = Some (a, q, m')" by (rule step_ingressE)
  show thesis
  proof (cases "flow_of h m (ingress_key p)")
    case None
    then show thesis using run True len that
      by (auto simp: ingress_tcp ingress_new_flow_eq ingress_out_eq split: if_splits)
  next
    case (Some d)
    then show thesis
      using run True that(1) ingress_flow_safe [OF len, of h m "ingress_key p" d "csum_seed p"]
      by (auto simp: ingress_tcp)
  qed
next
  case False
  then show thesis using assms that(1) ingress_not_tcp [of p h m] by (auto elim: step_ingressE)
qed

lemma egress_maps:
  assumes "agent_step h m (Egress p) m'"
  obtains "m' = m"
  | d where "server_reset (egress_key p) (Egress p)" "flow_of h m (egress_key p) = Some d"
    "m' = m\<lparr>flow_map := bpf_map_delete_elem h (flow_map m) (egress_key p),
            seq_map := bpf_map_delete_elem h (seq_map m) (egress_key p)\<rparr>"
  | f where "tcp_frame p" "tcp_syn (p ! off_flags)" "flow_of h m (egress_key p) = None"
    "seq_of h m (egress_key p) = Some f"
    "m' = m\<lparr>flow_map := bpf_map_update_elem h (flow_map m) (egress_key p) (be32 p off_seq - bswap32 f)\<rparr>"
proof (cases "tcp_frame p")
  case True
  then have len: "54 \<le> length p" by (simp add: tcp_frame_def)
  from assms obtain a q where run: "egress_tc_prog h m p = Some (a, q, m')" by (rule step_egressE)
  then show thesis using True len that
    by (auto simp: egress_tcp egress_flow_eq egress_new_flow_eq egress_end_def
        split: option.splits if_splits)
next
  case False
  then show thesis using assms that(1) egress_not_tcp [of p h m] by (auto elim: step_egressE)
qed

section \<open>The invariant of the maps\<close>

text \<open>Every flow with an offset has been announced, and neither map is over its capacity.\<close>

definition maps_ok :: "'m bpf_helpers \<Rightarrow> 'm bpf_maps \<Rightarrow> bool" where
  "maps_ok h m \<longleftrightarrow> dom (flow_of h m) \<subseteq> dom (seq_of h m) \<and>
     card (dom (flow_of h m)) \<le> max_entries \<and> card (dom (seq_of h m)) \<le> max_entries"

context bpf_env begin

lemma maps_ok_ingress:
  assumes "maps_ok h m" "agent_step h m (Ingress p) m'"
  shows "maps_ok h m'"
  using assms(2)
proof (cases rule: ingress_maps)
  case 2
  then show ?thesis
    using assms(1) dom_update_mono card_update by (fastforce simp: maps_ok_def)
qed (use assms(1) in simp)

lemma maps_ok_egress:
  assumes "maps_ok h m" "agent_step h m (Egress p) m'"
  shows "maps_ok h m'"
  using assms(2)
proof (cases rule: egress_maps)
  case (2 d)
  have "dom (flow_of h m') \<subseteq> dom (seq_of h m')"
    using assms(1) 2(3) by (auto simp: maps_ok_def lookup_delete split: if_splits)
  then show ?thesis using assms(1) 2(3) card_delete by (simp add: maps_ok_def)
next
  case (3 f)
  have "egress_key p \<in> dom (seq_of h m)" using 3(4) by blast
  then have "dom (flow_of h m') \<subseteq> dom (seq_of h m')"
    using assms(1) 3(5) dom_update [of "flow_map m" "egress_key p"] by (fastforce simp: maps_ok_def)
  then show ?thesis using assms(1) 3(5) card_update by (simp add: maps_ok_def)
qed (use assms(1) in simp)

lemma maps_ok_run:
  assumes "agent_run h m es m'" "maps_ok h m"
  shows "maps_ok h m'"
  using assms
proof (induction rule: agent_run.induct)
  case (run_cons m e m' es m'')
  then show ?case by (cases e) (auto intro: maps_ok_ingress maps_ok_egress)
qed simp

text \<open>A step for another flow leaves a flow's entries alone.\<close>

lemma other_flow_step:
  assumes "agent_step h m e m'" "event_key e \<noteq> Some k"
  shows "flow_of h m' k = flow_of h m k \<and> seq_of h m' k = seq_of h m k"
proof (cases e)
  case (Ingress p)
  with assms(1) have "agent_step h m (Ingress p) m'" by simp
  then show ?thesis
  proof (cases rule: ingress_maps)
    case 2
    then have "ingress_key p \<noteq> k" using assms(2) Ingress by simp
    then show ?thesis
      using 2(4) lookup_update_cases [of "seq_map m" "ingress_key p" "bswap32 (be32 p off_ack_seq)"] by auto
  qed simp
next
  case (Egress p)
  with assms(1) have "agent_step h m (Egress p) m'" by simp
  then show ?thesis
  proof (cases rule: egress_maps)
    case (2 d)
    then have "egress_key p \<noteq> k" using assms(2) Egress by simp
    then show ?thesis using 2(3) by (simp add: lookup_delete)
  next
    case (3 f)
    then have "egress_key p \<noteq> k" using assms(2) Egress by simp
    then show ?thesis
      using 3(5) lookup_update_cases [of "flow_map m" "egress_key p" "be32 p off_seq - bswap32 f"] by auto
  qed simp
qed

lemma other_flow_run:
  assumes "agent_run h m es m'" "\<forall>e \<in> set es. event_key e \<noteq> Some k"
  shows "flow_of h m' k = flow_of h m k \<and> seq_of h m' k = seq_of h m k"
  using assms by (induction rule: agent_run.induct) (auto dest!: other_flow_step)

text \<open>Once a flow has its offset, only a reset that the server sends takes it away.\<close>

lemma flow_step:
  assumes "agent_step h m e m'" "flow_of h m k = Some d" "\<not> server_reset k e"
  shows "flow_of h m' k = Some d \<and> seq_of h m' k = seq_of h m k"
proof (cases "event_key e = Some k")
  case False
  then show ?thesis using other_flow_step [OF assms(1)] assms(2) by simp
next
  case True
  show ?thesis
  proof (cases e)
    case (Ingress p)
    with assms(1) have "agent_step h m (Ingress p) m'" by simp
    then show ?thesis
      by (cases rule: ingress_maps) (use assms(2) True Ingress in \<open>auto split: if_splits\<close>)
  next
    case (Egress p)
    with assms(1) have "agent_step h m (Egress p) m'" by simp
    then show ?thesis
      by (cases rule: egress_maps) (use assms(2,3) True Egress in \<open>auto split: if_splits\<close>)
  qed
qed

lemma flow_run:
  assumes "agent_run h m es m'" "flow_of h m k = Some d" "\<forall>e \<in> set es. \<not> server_reset k e"
  shows "flow_of h m' k = Some d \<and> seq_of h m' k = seq_of h m k"
  using assms
proof (induction rule: agent_run.induct)
  case (run_cons m e m' es m'')
  then show ?case using flow_step [OF run_cons.hyps(1), of k d] by auto
qed simp

end

section \<open>A spliced connection\<close>

context bpf_env begin

text \<open>
  The handshake of a spliced flow: the announced sequence number is the one that the front end has
  put into the acknowledgement field of the SYN, and the server's SYN-ACK fixes the offset.
\<close>

lemma syn_announces:
  assumes "agent_step h m (Ingress p) m'" "tcp_frame p" "tcp_syn (p ! off_flags)"
    and "flow_of h m (ingress_key p) = None" "card (dom (seq_of h m)) < max_entries"
  shows "flow_of h m' (ingress_key p) = None \<and> seq_of h m' (ingress_key p) = Some (bswap32 (be32 p off_ack_seq))"
proof -
  have "54 \<le> length p" using assms(2) by (simp add: tcp_frame_def)
  then have "m' = m\<lparr>seq_map := bpf_map_update_elem h (seq_map m) (ingress_key p) (bswap32 (be32 p off_ack_seq))\<rparr>"
    using assms(1-4) by (auto elim!: step_ingressE simp: ingress_tcp ingress_new_flow_eq ingress_out_eq)
  then show ?thesis using assms(4,5) by (simp add: lookup_update)
qed

lemma syn_ack_fixes:
  assumes "agent_step h m (Egress p) m'" "tcp_frame p" "tcp_syn (p ! off_flags)" "tcp_ack (p ! off_flags)"
    and "flow_of h m (egress_key p) = None" "seq_of h m (egress_key p) = Some (bswap32 f)"
    and "card (dom (flow_of h m)) < max_entries"
  shows "flow_of h m' (egress_key p) = Some (be32 p off_seq - f)"
proof -
  have "54 \<le> length p" using assms(2) by (simp add: tcp_frame_def)
  then have "m' = m\<lparr>flow_map := bpf_map_update_elem h (flow_map m) (egress_key p) (be32 p off_seq - f)\<rparr>"
    using assms(1-6) by (auto elim!: step_egressE simp: egress_tcp egress_new_flow_eq)
  then show ?thesis using assms(7) by (simp add: lookup_update)
qed

lemma splice_offset:
  assumes run1: "agent_run h m (Ingress syn # es1) m1" and run2: "agent_run h m1 (Egress sa # es2) m2"
    and syn: "tcp_frame syn" "ingress_key syn = k" "tcp_syn (syn ! off_flags)"
    and sa: "tcp_frame sa" "egress_key sa = k" "tcp_syn (sa ! off_flags)" "tcp_ack (sa ! off_flags)"
    and fresh: "flow_of h m k = None"
    and room: "card (dom (seq_of h m)) < max_entries" "card (dom (flow_of h m1)) < max_entries"
    and es1: "\<forall>e \<in> set es1. event_key e \<noteq> Some k" and es2: "\<forall>e \<in> set es2. \<not> server_reset k e"
  shows "flow_of h m2 k = Some (be32 sa off_seq - be32 syn off_ack_seq)"
proof -
  from run1 obtain m0 where m0: "agent_step h m (Ingress syn) m0" "agent_run h m0 es1 m1"
    by (auto simp: agent_run_simps)
  from run2 obtain m3 where m3: "agent_step h m1 (Egress sa) m3" "agent_run h m3 es2 m2"
    by (auto simp: agent_run_simps)
  have "flow_of h m0 k = None" "seq_of h m0 k = Some (bswap32 (be32 syn off_ack_seq))"
    using syn_announces [OF m0(1)] syn fresh room(1) by auto
  then have "flow_of h m1 k = None" "seq_of h m1 k = Some (bswap32 (be32 syn off_ack_seq))"
    using other_flow_run [OF m0(2) es1] by simp_all
  then have "flow_of h m3 k = Some (be32 sa off_seq - be32 syn off_ack_seq)"
    using syn_ack_fixes [OF m3(1)] sa room(2) by blast
  then show ?thesis using flow_run [OF m3(2) _ es2] by blast
qed

end

text \<open>
  (C22) Whatever frames the agent handles, in whatever order, every flow in \<open>flow_map\<close> stays
  announced in \<open>seq_map\<close> and neither map exceeds its 102400 entries.
\<close>

theorem agent_run_maps_ok:
  assumes "bpf_env h" "agent_run h m es m'" "maps_ok h m"
  shows "maps_ok h m'"
  using assms(2,3) by (rule bpf_env.maps_ok_run [OF assms(1)])

text \<open>
  (C23) Once a flow has an offset, the offset survives every sequence of frames in which the server
  sends the client no reset.  So neither a FIN, nor a reset from the client, nor the SYN of a new
  connection from the same client port ends or renews the flow.
\<close>

theorem flow_ends_only_by_server_reset:
  assumes "bpf_env h" "agent_run h m es m'" "flow_of h m k = Some d"
    and "\<forall>e \<in> set es. \<not> server_reset k e"
  shows "flow_of h m' k = Some d"
  using bpf_env.flow_run [OF assms] by blast

lemma splice_run:
  assumes env: "bpf_env h"
    and run1: "agent_run h m (Ingress syn # es1) m1" and run2: "agent_run h m1 (Egress sa # es2) m2"
    and syn: "tcp_frame syn" "ingress_key syn = k" "tcp_syn (syn ! off_flags)"
    and sa: "tcp_frame sa" "egress_key sa = k" "tcp_syn (sa ! off_flags)" "tcp_ack (sa ! off_flags)"
    and fresh: "flow_of h m k = None"
    and room: "card (dom (seq_of h m)) < max_entries" "card (dom (flow_of h m1)) < max_entries"
    and es1: "\<forall>e \<in> set es1. event_key e \<noteq> Some k" and es2: "\<forall>e \<in> set es2. \<not> server_reset k e"
    and p: "tcp_frame p" "egress_key p = k" and r: "tcp_frame r" "ingress_key r = k" "sack_ok r"
  shows "\<exists>q m3 s. egress_tc_prog h m2 p = Some (TC_ACT_OK, q, m3) \<and>
      be32 q off_seq - be32 syn off_ack_seq = be32 p off_seq - be32 sa off_seq \<and>
      ingress_xdp_prog h m2 r = Some (XDP_PASS, s, m2) \<and>
      be32 s off_ack_seq - be32 sa off_seq = be32 r off_ack_seq - be32 syn off_ack_seq"
proof -
  let ?d = "be32 sa off_seq - be32 syn off_ack_seq"
  have flow: "flow_of h m2 k = Some ?d"
    using bpf_env.splice_offset [OF assms(1-15)] .
  obtain q m3 where q: "egress_tc_prog h m2 p = Some (TC_ACT_OK, q, m3)" "be32 q off_seq = be32 p off_seq - ?d"
    using egress_flow_run [OF p(1)] p(2) flow by blast
  have "54 \<le> length r" using r(1) by (simp add: tcp_frame_def)
  then obtain s where s: "ingress_xdp_prog h m2 r = Some (XDP_PASS, s, m2)"
    using ingress_flow_passes [of r h m2 k ?d "csum_seed r"] r flow by (auto simp: ingress_tcp)
  then have "be32 s off_ack_seq = be32 r off_ack_seq + ?d"
    using ingress_flow_run [OF r(1) _ s] r(2) flow by blast
  then show ?thesis using q s by (auto simp: algebra_simps)
qed

text \<open>
  (C2) The splice is coherent end to end.  Let the front end announce the sequence number \<open>F\<close> it
  used towards the client in the acknowledgement field of the SYN, and let the server answer with its
  own initial sequence number \<open>S\<close>, other flows interleaving at will.  From then on, until the server
  resets the flow, a byte that the server sends at distance \<open>x\<close> from \<open>S\<close> reaches the client at
  distance \<open>x\<close> from \<open>F\<close>, and an acknowledgement of the client at distance \<open>x\<close> from \<open>F\<close> reaches the
  server at distance \<open>x\<close> from \<open>S\<close>.
\<close>

theorem splice_coherent:
  assumes env: "bpf_env h"
    and run1: "agent_run h m (Ingress syn # es1) m1" and run2: "agent_run h m1 (Egress sa # es2) m2"
    and syn: "tcp_frame syn" "ingress_key syn = k" "tcp_syn (syn ! off_flags)"
    and sa: "tcp_frame sa" "egress_key sa = k" "tcp_syn (sa ! off_flags)" "tcp_ack (sa ! off_flags)"
    and fresh: "flow_of h m k = None"
    and room: "card (dom (seq_of h m)) < max_entries" "card (dom (flow_of h m1)) < max_entries"
    and es1: "\<forall>e \<in> set es1. event_key e \<noteq> Some k" and es2: "\<forall>e \<in> set es2. \<not> server_reset k e"
    and p: "tcp_frame p" "egress_key p = k" and r: "tcp_frame r" "ingress_key r = k" "sack_ok r"
  shows "\<exists>q m3 s. egress_tc_prog h m2 p = Some (TC_ACT_OK, q, m3) \<and>
      be32 q off_seq - be32 syn off_ack_seq = be32 p off_seq - be32 sa off_seq \<and>
      ingress_xdp_prog h m2 r = Some (XDP_PASS, s, m2) \<and>
      be32 s off_ack_seq - be32 sa off_seq = be32 r off_ack_seq - be32 syn off_ack_seq"
  by (rule splice_run [OF assms])

section \<open>A concrete connection\<close>

text \<open>
  The client of \<open>ex_key\<close> was greeted by the front end with sequence number 5000; the server answers
  the SYN with 75000 and then sends two bytes at 75001.
\<close>

definition ex_syn :: bytes where
  "ex_syn = [12, 66, 161, 74, 255, 2, 12, 66, 161, 209, 208, 200, 8, 0, 69, 0, 0, 40, 0, 1, 64, 0, 64, 6,
     35, 103, 10, 0, 1, 100, 10, 0, 2, 5, 4, 210, 0, 80, 0, 0, 3, 231, 0, 0, 19, 136, 80, 2, 2, 0,
     121, 233, 0, 0]"

definition ex_syn_ack :: bytes where
  "ex_syn_ack = [12, 66, 161, 74, 255, 2, 12, 66, 161, 209, 208, 200, 8, 0, 69, 0, 0, 40, 0, 1, 64, 0, 64, 6,
     35, 103, 10, 0, 2, 5, 10, 0, 1, 100, 0, 80, 4, 210, 0, 1, 36, 248, 0, 0, 3, 232, 80, 18, 2, 0,
     104, 103, 0, 0]"

definition ex_data :: bytes where
  "ex_data = [12, 66, 161, 74, 255, 2, 12, 66, 161, 209, 208, 200, 8, 0, 69, 0, 0, 42, 0, 1, 64, 0, 64, 6,
     35, 101, 10, 0, 2, 5, 10, 0, 1, 100, 0, 80, 4, 210, 0, 1, 36, 249, 0, 0, 3, 232, 80, 24, 2, 0,
     32, 21, 0, 0, 72, 73]"

definition ex_maps0 :: "(key_t \<times> u32) list bpf_maps" where
  "ex_maps0 = \<lparr>seq_map = [], flow_map = []\<rparr>"

definition ex_maps1 :: "(key_t \<times> u32) list bpf_maps" where
  "ex_maps1 = \<lparr>seq_map = [(ex_key, bswap32 5000)], flow_map = []\<rparr>"

lemma ex_syn_frame: "tcp_frame ex_syn" "ingress_key ex_syn = ex_key" "length ex_syn = 54"
    "tcp_syn (ex_syn ! 47)" "be32 ex_syn 42 = 5000"
  by (simp_all add: tcp_frame_def ingress_key_def ex_key_def ex_syn_def le16_def bswap16_def byte_at_def tcp_syn_def
      be32_def le32_def bswap32_def)

lemma ex_syn_ack_frame: "tcp_frame ex_syn_ack" "egress_key ex_syn_ack = ex_key" "length ex_syn_ack = 54"
    "tcp_syn (ex_syn_ack ! 47)" "tcp_ack (ex_syn_ack ! 47)" "be32 ex_syn_ack 38 = 75000"
  by (simp_all add: tcp_frame_def egress_key_def ex_key_def ex_syn_ack_def le16_def bswap16_def byte_at_def
      tcp_syn_def tcp_ack_def be32_def le32_def bswap32_def)

lemma ex_data_frame: "tcp_frame ex_data" "egress_key ex_data = ex_key" "length ex_data = 56"
    "\<not> tcp_rst (ex_data ! 47)" "be32 ex_data 38 = 75001"
  by (simp_all add: tcp_frame_def egress_key_def ex_key_def ex_data_def le16_def bswap16_def byte_at_def
      tcp_rst_def be32_def le32_def bswap32_def)

lemma ex_step_syn: "agent_step alist_helpers ex_maps0 (Ingress ex_syn) ex_maps1"
proof -
  have "\<exists>a q. ingress_new_flow alist_helpers ex_maps0 ex_key (csum_seed ex_syn) ex_syn = Some (a, q, ex_maps1)"
    by (simp add: ingress_new_flow_eq ex_syn_frame ingress_out_eq ex_maps0_def ex_maps1_def
        alist_helpers_sel alist_update_def max_entries_def)
  moreover have "flow_of alist_helpers ex_maps0 ex_key = None"
    by (simp add: alist_helpers_sel ex_maps0_def)
  ultimately have "\<exists>a q. ingress_xdp_prog alist_helpers ex_maps0 ex_syn = Some (a, q, ex_maps1)"
    by (simp add: ingress_tcp ex_syn_frame)
  then show ?thesis by (blast intro: agent_step.step_ingress)
qed

lemma ex_step_syn_ack: "agent_step alist_helpers ex_maps1 (Egress ex_syn_ack) ex_maps"
proof -
  have "flow_of alist_helpers ex_maps1 ex_key = None" "seq_of alist_helpers ex_maps1 ex_key = Some (bswap32 5000)"
    by (simp_all add: alist_helpers_sel ex_maps1_def)
  moreover have "ex_maps1\<lparr>flow_map := bpf_map_update_elem alist_helpers (flow_map ex_maps1) ex_key 70000\<rparr> = ex_maps"
    by (simp add: alist_helpers_sel ex_maps1_def ex_maps_def alist_update_def max_entries_def)
  ultimately show ?thesis
    by (intro agent_step.step_egress) (simp add: egress_tcp ex_syn_ack_frame egress_new_flow_eq)
qed

lemma ex_maps0_lookup: "flow_of alist_helpers ex_maps0 = Map.empty" "seq_of alist_helpers ex_maps0 = Map.empty"
    "flow_of alist_helpers ex_maps1 = Map.empty"
  by (simp_all add: alist_helpers_sel ex_maps0_def ex_maps1_def)

lemma ex_run: "agent_run alist_helpers ex_maps0 [Ingress ex_syn, Egress ex_syn_ack] ex_maps"
  using ex_step_syn ex_step_syn_ack by (auto simp: agent_run_simps)

theorem egress_translates_witness:
  "\<exists>q. egress_tc_prog alist_helpers ex_maps ex_data = Some (TC_ACT_OK, q, ex_maps) \<and> be32 q 38 = 5001"
  using egress_translates [of ex_data alist_helpers ex_maps 70000]
  by (auto simp: ex_data_frame ex_maps_flow egress_end_def)

theorem egress_keeps_checksum_witness:
  "\<exists>a q m. egress_tc_prog alist_helpers ex_maps ex_data = Some (a, q, m) \<and> tcp_csum_valid q"
proof -
  obtain a q m where run: "egress_tc_prog alist_helpers ex_maps ex_data = Some (a, q, m)"
    using egress_total by blast
  then have "tcp_csum_valid q \<longleftrightarrow> tcp_csum_valid ex_data"
    by (rule egress_keeps_checksum [OF alist_csum_diff_ok])
  moreover have "tcp_csum_valid ex_data"
    by (simp add: tcp_csum_valid_def tcp_sum_def ex_data_def le16_def bswap16_def byte_at_def)
  ultimately show ?thesis using run by blast
qed

theorem egress_syn_ack_records_witness:
  "egress_tc_prog alist_helpers ex_maps1 ex_syn_ack = Some (TC_ACT_OK, ex_syn_ack, ex_maps)"
proof -
  have "le16 (ex_syn_ack ! 50) (ex_syn_ack ! 51) \<noteq> 0xffff" by (simp add: ex_syn_ack_def le16_def)
  moreover have "seq_of alist_helpers ex_maps1 ex_key = Some (bswap32 5000)"
    by (simp add: alist_helpers_sel ex_maps1_def)
  moreover have "ex_maps1\<lparr>flow_map := bpf_map_update_elem alist_helpers (flow_map ex_maps1) ex_key 70000\<rparr> = ex_maps"
    by (simp add: alist_helpers_sel ex_maps1_def ex_maps_def alist_update_def max_entries_def)
  ultimately show ?thesis
    using egress_syn_ack_records [of ex_syn_ack alist_helpers ex_maps1 "bswap32 5000"]
    by (simp add: ex_syn_ack_frame ex_maps0_lookup)
qed

theorem agent_run_maps_ok_witness: "maps_ok alist_helpers ex_maps0 \<and> maps_ok alist_helpers ex_maps"
proof -
  have "maps_ok alist_helpers ex_maps0" by (simp add: maps_ok_def ex_maps0_lookup)
  then show ?thesis using agent_run_maps_ok [OF alist.bpf_env_axioms ex_run] by simp
qed

theorem flow_ends_only_by_server_reset_witness:
  "\<exists>m. agent_run alist_helpers ex_maps [Egress ex_data, Ingress ex_syn] m \<and> flow_of alist_helpers m ex_key = Some 70000"
proof -
  obtain m1 where m1: "agent_step alist_helpers ex_maps (Egress ex_data) m1"
    using egress_total [of alist_helpers ex_maps ex_data] agent_step.step_egress by blast
  obtain m2 where m2: "agent_step alist_helpers m1 (Ingress ex_syn) m2"
    using ingress_total [of alist_helpers m1 ex_syn] agent_step.step_ingress by blast
  have run: "agent_run alist_helpers ex_maps [Egress ex_data, Ingress ex_syn] m2"
    using m1 m2 by (auto simp: agent_run_simps)
  then show ?thesis
    using flow_ends_only_by_server_reset [OF alist.bpf_env_axioms run ex_maps_flow] by (auto simp: ex_data_frame)
qed

theorem splice_coherent_witness:
  "\<exists>q s. egress_tc_prog alist_helpers ex_maps ex_data = Some (TC_ACT_OK, q, ex_maps) \<and>
     be32 q 38 - 5000 = 1 \<and>
     ingress_xdp_prog alist_helpers ex_maps ex_sack = Some (XDP_PASS, s, ex_maps) \<and>
     be32 s 42 - 75000 = 1"
proof -
  have run1: "agent_run alist_helpers ex_maps0 [Ingress ex_syn] ex_maps1"
    and run2: "agent_run alist_helpers ex_maps1 [Egress ex_syn_ack] ex_maps"
    using ex_step_syn ex_step_syn_ack by (auto simp: agent_run_simps)
  obtain q m3 s where "egress_tc_prog alist_helpers ex_maps ex_data = Some (TC_ACT_OK, q, m3)"
      "be32 q 38 - 5000 = 1" "ingress_xdp_prog alist_helpers ex_maps ex_sack = Some (XDP_PASS, s, ex_maps)"
      "be32 s 42 - 75000 = 1"
    using splice_coherent [OF alist.bpf_env_axioms run1 run2, of ex_key ex_data ex_sack]
    by (auto simp: ex_syn_frame ex_syn_ack_frame ex_data_frame ex_maps0_lookup ex_sack_frame ex_sack_ok
        ex_sack_fields max_entries_def)
  moreover have "m3 = ex_maps"
    using calculation(1) by (simp add: egress_tcp ex_data_frame ex_maps_flow egress_flow_eq egress_end_def)
  ultimately show ?thesis by blast
qed

end
