(* ===== verification/Xdp_Loader.thy ===== *)
theory Xdp_Loader
  imports Miresga_Prelude
begin

text \<open>
  The loader of the back-end agent, \<open>main\<close> of \<open>src/Backend/xdp_loader.c\<close>: it loads and attaches the
  ingress program, pins its two maps, hands the pinned maps to the egress object, and loads and
  attaches the egress program.  \<open>libbpf\<close> and the kernel are a parameter: a record of the calls that
  the loader makes, on an abstract kernel state.  Messages on the terminal are not modelled.
\<close>

section \<open>The calls\<close>

text \<open>
  An object handle is an integer (\<open>None\<close> where \<open>libbpf_get_error\<close> reports an error); the handle of
  a map is its object and its name, the handle of a program its object and its section.
\<close>

type_synonym bpf_object = nat
type_synonym bpf_handle = "bpf_object \<times> string"

record bpf_tc_hook =
  hook_ifindex :: int
  hook_egress :: bool

record bpf_tc_opts =
  opts_prog_fd :: int
  opts_replace :: bool
  opts_prog_id :: nat
  opts_priority :: nat

record 'w libbpf =
  if_nametoindex :: "string \<Rightarrow> 'w \<Rightarrow> int"
  bpf_object_open_file :: "string \<Rightarrow> 'w \<Rightarrow> bpf_object option \<times> 'w"
  bpf_object_load :: "bpf_object \<Rightarrow> 'w \<Rightarrow> int \<times> 'w"
  bpf_object_close :: "bpf_object \<Rightarrow> 'w \<Rightarrow> 'w"
  bpf_object_find_program_by_title :: "bpf_object \<Rightarrow> string \<Rightarrow> 'w \<Rightarrow> bpf_handle option"
  bpf_program_fd :: "bpf_handle \<Rightarrow> 'w \<Rightarrow> int"
  bpf_set_link_xdp_fd :: "int \<Rightarrow> int \<Rightarrow> nat \<Rightarrow> 'w \<Rightarrow> int \<times> 'w"
  bpf_object_find_map_by_name :: "bpf_object \<Rightarrow> string \<Rightarrow> 'w \<Rightarrow> bpf_handle option"
  bpf_map_pin :: "bpf_handle \<Rightarrow> string \<Rightarrow> 'w \<Rightarrow> int \<times> 'w"
  bpf_obj_get :: "string \<Rightarrow> 'w \<Rightarrow> int \<times> 'w"
  bpf_map_reuse_fd :: "bpf_handle \<Rightarrow> int \<Rightarrow> 'w \<Rightarrow> int \<times> 'w"
  bpf_tc_hook_create :: "bpf_tc_hook \<Rightarrow> 'w \<Rightarrow> int \<times> 'w"
  bpf_tc_attach :: "bpf_tc_hook \<Rightarrow> bpf_tc_opts \<Rightarrow> 'w \<Rightarrow> int \<times> 'w"

text \<open>\<open>XDP_FLAGS_UPDATE_IF_NOEXIST | XDP_FLAGS_DRV_MODE\<close>\<close>

definition XDP_FLAGS :: nat where
  "XDP_FLAGS = 5"

section \<open>The loader, stage by stage\<close>

text \<open>A stage returns early with \<open>Inl w\<close> (exit code 1) or goes on with \<open>Inr\<close>.\<close>

type_synonym ('a, 'w) stage = "'w + 'a \<times> 'w"

definition load_ingress :: "'w libbpf \<Rightarrow> int \<Rightarrow> 'w \<Rightarrow> (bpf_object, 'w) stage" where
  "load_ingress L ifindex w =
     (case bpf_object_open_file L ''ingress_xdp.o'' w of
        (None, w) \<Rightarrow> Inl w
      | (Some ingress_obj, w) \<Rightarrow>
        (let (r, w) = bpf_object_load L ingress_obj w in
         if r \<noteq> 0 then Inl (bpf_object_close L ingress_obj w)
         else (case bpf_object_find_program_by_title L ingress_obj ''xdp'' w of
             None \<Rightarrow> Inl (bpf_object_close L ingress_obj w)
           | Some ingress_prog \<Rightarrow>
             (let ingress_prog_fd = bpf_program_fd L ingress_prog w in
              if ingress_prog_fd < 0 then Inl (bpf_object_close L ingress_obj w)
              else
                (let (r, w) = bpf_set_link_xdp_fd L ifindex ingress_prog_fd XDP_FLAGS w in
                 if r < 0 then Inl (bpf_object_close L ingress_obj w)
                 else Inr (ingress_obj, w))))))"

definition pin_map :: "'w libbpf \<Rightarrow> bpf_object \<Rightarrow> string \<Rightarrow> string \<Rightarrow> 'w \<Rightarrow> (unit, 'w) stage" where
  "pin_map L ingress_obj name path w =
     (case bpf_object_find_map_by_name L ingress_obj name w of
        None \<Rightarrow> Inl (bpf_object_close L ingress_obj w)
      | Some m \<Rightarrow>
        (let (r, w) = bpf_map_pin L m path w in
         if r < 0 then Inl (bpf_object_close L ingress_obj w) else Inr ((), w)))"

definition link_map ::
  "'w libbpf \<Rightarrow> bpf_object \<Rightarrow> bpf_object \<Rightarrow> string \<Rightarrow> string \<Rightarrow> 'w \<Rightarrow> (unit, 'w) stage" where
  "link_map L ingress_obj egress_obj name path w =
     (let close = (\<lambda>w. Inl (bpf_object_close L egress_obj (bpf_object_close L ingress_obj w))) in
      case bpf_object_find_map_by_name L egress_obj name w of
        None \<Rightarrow> close w
      | Some m \<Rightarrow>
        (let (fd, w) = bpf_obj_get L path w in
         if fd < 0 then close w
         else
           (let (r, w) = bpf_map_reuse_fd L m fd w in
            if r \<noteq> 0 then close w else Inr ((), w))))"

definition load_egress :: "'w libbpf \<Rightarrow> int \<Rightarrow> bpf_object \<Rightarrow> 'w \<Rightarrow> (unit, 'w) stage" where
  "load_egress L ifindex egress_obj w =
     (let (r, w) = bpf_object_load L egress_obj w in
      if r \<noteq> 0 then Inl (bpf_object_close L egress_obj w)
      else (case bpf_object_find_program_by_title L egress_obj ''classifier'' w of
          None \<Rightarrow> Inl (bpf_object_close L egress_obj w)
        | Some egress_prog \<Rightarrow>
          (let egress_prog_fd = bpf_program_fd L egress_prog w in
           if egress_prog_fd < 0 then Inl (bpf_object_close L egress_obj w)
           else
             (let hook = \<lparr>hook_ifindex = ifindex, hook_egress = True\<rparr>;
                  (r, w) = bpf_tc_hook_create L hook w in
              if r < 0 then Inl w
              else
                (let opts = \<lparr>opts_prog_fd = egress_prog_fd, opts_replace = True, opts_prog_id = 0, opts_priority = 1\<rparr>;
                     (r, w) = bpf_tc_attach L hook opts w in
                 if r < 0 then Inl w else Inr ((), w))))))"

definition and_then :: "('a, 'w) stage \<Rightarrow> ('a \<Rightarrow> 'w \<Rightarrow> ('b, 'w) stage) \<Rightarrow> ('b, 'w) stage" where
  "and_then s k = (case s of Inl w \<Rightarrow> Inl w | Inr (x, w) \<Rightarrow> k x w)"

definition loader :: "'w libbpf \<Rightarrow> string list \<Rightarrow> 'w \<Rightarrow> (bpf_object \<times> bpf_object, 'w) stage" where
  "loader L argv w =
     (if length argv \<noteq> 2 then Inl w
      else
        (let ifindex = if_nametoindex L (argv ! 1) w in
         if ifindex = 0 then Inl w
         else
           and_then (load_ingress L ifindex w) (\<lambda>ingress_obj w.
           and_then (pin_map L ingress_obj ''flow_map'' ''/sys/fs/bpf/flow_map'' w) (\<lambda>_ w.
           and_then (pin_map L ingress_obj ''seq_map'' ''/sys/fs/bpf/seq_map'' w) (\<lambda>_ w.
           (case bpf_object_open_file L ''egress_tc.o'' w of
              (None, w) \<Rightarrow> Inl w
            | (Some egress_obj, w) \<Rightarrow>
              and_then (link_map L ingress_obj egress_obj ''flow_map'' ''/sys/fs/bpf/flow_map'' w) (\<lambda>_ w.
              and_then (link_map L ingress_obj egress_obj ''seq_map'' ''/sys/fs/bpf/seq_map'' w) (\<lambda>_ w.
              and_then (load_egress L ifindex egress_obj w) (\<lambda>_ w.
              Inr ((ingress_obj, egress_obj), w))))))))))"

definition xdp_loader_main :: "'w libbpf \<Rightarrow> string list \<Rightarrow> 'w \<Rightarrow> int \<times> 'w" where
  "xdp_loader_main L argv w = (case loader L argv w of Inl w \<Rightarrow> (1, w) | Inr (_, w) \<Rightarrow> (0, w))"

section \<open>What the kernel promises\<close>

text \<open>
  The part of the kernel state that matters here: the open objects, the kernel map behind each
  map handle, the pinned maps, the maps and programs behind file descriptors, and the programs
  attached to each interface.
\<close>

record kernel_view =
  v_open :: "bpf_object set"
  v_map :: "bpf_handle \<rightharpoonup> nat"
  v_pin :: "string \<rightharpoonup> nat"
  v_fd :: "int \<rightharpoonup> nat"
  v_prog :: "int \<rightharpoonup> bpf_handle"
  v_xdp :: "int \<rightharpoonup> bpf_handle"
  v_tc :: "int \<rightharpoonup> bpf_handle"

text \<open>Nothing that exists goes away, except for what stands behind the handles in \<open>X\<close>.\<close>

definition grows :: "bpf_handle set \<Rightarrow> kernel_view \<Rightarrow> kernel_view \<Rightarrow> bool" where
  "grows X v v' \<longleftrightarrow> v_open v \<subseteq> v_open v' \<and>
     (\<forall>m i. m \<notin> X \<longrightarrow> v_map v m = Some i \<longrightarrow> v_map v' m = Some i) \<and>
     (\<forall>s i. v_pin v s = Some i \<longrightarrow> v_pin v' s = Some i) \<and>
     (\<forall>fd p. v_prog v fd = Some p \<longrightarrow> v_prog v' fd = Some p) \<and>
     (\<forall>n p. v_xdp v n = Some p \<longrightarrow> v_xdp v' n = Some p)"

abbreviation grows_only :: "kernel_view \<Rightarrow> kernel_view \<Rightarrow> bool" where
  "grows_only v v' \<equiv> grows {} v v' \<and> v_map v' = v_map v"

lemma grows_trans [trans]: "grows X v v' \<Longrightarrow> grows Y v' v'' \<Longrightarrow> grows (X \<union> Y) v v''"
  unfolding grows_def by blast

lemma grows_keeps:
  assumes "grows X v v'"
  shows "ob \<in> v_open v \<Longrightarrow> ob \<in> v_open v'" "m \<notin> X \<Longrightarrow> v_map v m = Some i \<Longrightarrow> v_map v' m = Some i"
    "v_pin v s = Some i \<Longrightarrow> v_pin v' s = Some i" "v_prog v fd = Some p \<Longrightarrow> v_prog v' fd = Some p"
    "v_xdp v n = Some p \<Longrightarrow> v_xdp v' n = Some p"
  using assms unfolding grows_def by blast+

text \<open>
  The documented behaviour of the calls where they succeed: a new object has no kernel maps; loading
  creates one kernel map for each map of the object that has none yet; pinning, \<open>bpf_obj_get\<close> and
  \<open>bpf_map__reuse_fd\<close> name one and the same kernel map; attaching puts the program behind the
  descriptor at the interface.
\<close>

locale bpf_kernel =
  fixes L :: "'w libbpf" and view :: "'w \<Rightarrow> kernel_view"
  assumes open_new: "bpf_object_open_file L file w = (Some ob, w') \<Longrightarrow>
      ob \<notin> v_open (view w) \<and> ob \<in> v_open (view w') \<and> v_map (view w') (ob, n) = None \<and> grows {} (view w) (view w')"
    and load_ok: "bpf_object_load L ob w = (0, w') \<Longrightarrow> grows {} (view w) (view w')"
    and load_distinct: "bpf_object_load L ob w = (0, w') \<Longrightarrow> n \<noteq> n' \<Longrightarrow>
      v_map (view w) (ob, n) = None \<Longrightarrow> v_map (view w) (ob, n') = None \<Longrightarrow>
      v_map (view w') (ob, n) = Some i \<Longrightarrow> v_map (view w') (ob, n') \<noteq> Some i"
    and find_prog: "bpf_object_find_program_by_title L ob t w = Some p \<Longrightarrow> p = (ob, t)"
    and prog_fd: "0 \<le> bpf_program_fd L p w \<Longrightarrow> v_prog (view w) (bpf_program_fd L p w) = Some p"
    and link_xdp: "bpf_set_link_xdp_fd L ifindex fd fl w = (r, w') \<Longrightarrow> 0 \<le> r \<Longrightarrow>
      grows_only (view w) (view w') \<and> v_xdp (view w') ifindex = v_prog (view w) fd"
    and find_map: "bpf_object_find_map_by_name L ob n w = Some m \<Longrightarrow> m = (ob, n)"
    and pin_ok: "bpf_map_pin L m path w = (r, w') \<Longrightarrow> 0 \<le> r \<Longrightarrow>
      v_map (view w) m \<noteq> None \<and> v_pin (view w') path = v_map (view w) m \<and> grows_only (view w) (view w')"
    and get_ok: "bpf_obj_get L path w = (fd, w') \<Longrightarrow> 0 \<le> fd \<Longrightarrow>
      v_pin (view w) path \<noteq> None \<and> v_fd (view w') fd = v_pin (view w) path \<and> grows_only (view w) (view w')"
    and reuse_ok: "bpf_map_reuse_fd L m fd w = (0, w') \<Longrightarrow>
      v_map (view w') m = v_fd (view w) fd \<and> grows {m} (view w) (view w')"
    and hook_ok: "bpf_tc_hook_create L hook w = (r, w') \<Longrightarrow> 0 \<le> r \<Longrightarrow> grows_only (view w) (view w')"
    and attach_ok: "bpf_tc_attach L hook opts w = (r, w') \<Longrightarrow> 0 \<le> r \<Longrightarrow>
      grows_only (view w) (view w') \<and> v_tc (view w') (hook_ifindex hook) = v_prog (view w) (opts_prog_fd opts)"
begin

lemma load_ingress_ok:
  assumes "load_ingress L ifindex w = Inr (ob, w')"
  shows "ob \<in> v_open (view w')" "v_xdp (view w') ifindex = Some (ob, ''xdp'')"
    "n \<noteq> n' \<Longrightarrow> v_map (view w') (ob, n) = Some i \<Longrightarrow> v_map (view w') (ob, n') \<noteq> Some i"
proof -
  obtain w1 w2 r where "open": "bpf_object_open_file L ''ingress_xdp.o'' w = (Some ob, w1)"
    and load: "bpf_object_load L ob w1 = (0, w2)" and fd: "0 \<le> bpf_program_fd L (ob, ''xdp'') w2"
    and link: "bpf_set_link_xdp_fd L ifindex (bpf_program_fd L (ob, ''xdp'') w2) XDP_FLAGS w2 = (r, w')" "0 \<le> r"
    using assms unfolding load_ingress_def
    by (auto simp: Let_def dest: find_prog split: option.splits prod.splits if_splits)
  show "ob \<in> v_open (view w')"
    using open_new [OF "open"] load_ok [OF load] link_xdp [OF link] by (blast dest: grows_keeps(1))
  show "v_xdp (view w') ifindex = Some (ob, ''xdp'')"
    using link_xdp [OF link] prog_fd [OF fd] by simp
  show "n \<noteq> n' \<Longrightarrow> v_map (view w') (ob, n) = Some i \<Longrightarrow> v_map (view w') (ob, n') \<noteq> Some i"
    using load_distinct [OF load] open_new [OF "open"] link_xdp [OF link] by simp
qed

lemma pin_map_ok:
  assumes "pin_map L ob n path w = Inr (x, w')"
  shows "grows_only (view w) (view w')" "\<exists>i. v_map (view w') (ob, n) = Some i \<and> v_pin (view w') path = Some i"
proof -
  obtain r where pin: "bpf_map_pin L (ob, n) path w = (r, w')" "0 \<le> r"
    using assms unfolding pin_map_def
    by (auto simp: Let_def dest: find_map split: option.splits prod.splits if_splits)
  show "grows_only (view w) (view w')" "\<exists>i. v_map (view w') (ob, n) = Some i \<and> v_pin (view w') path = Some i"
    using pin_ok [OF pin] by auto
qed

lemma link_map_ok:
  assumes "link_map L iob ob n path w = Inr (x, w')" "v_pin (view w) path = Some i"
  shows "grows {(ob, n)} (view w) (view w')" "v_map (view w') (ob, n) = Some i"
proof -
  obtain fd w1 where get: "bpf_obj_get L path w = (fd, w1)" "0 \<le> fd"
    and reuse: "bpf_map_reuse_fd L (ob, n) fd w1 = (0, w')"
    using assms(1) unfolding link_map_def
    by (auto simp: Let_def dest: find_map split: option.splits prod.splits if_splits)
  show "grows {(ob, n)} (view w) (view w')"
    using get_ok [OF get] reuse_ok [OF reuse] grows_trans [of "{}"] by auto
  show "v_map (view w') (ob, n) = Some i"
    using get_ok [OF get] reuse_ok [OF reuse] assms(2) by simp
qed

lemma load_egress_ok:
  assumes "load_egress L ifindex ob w = Inr (x, w')"
  shows "grows {} (view w) (view w')" "v_tc (view w') ifindex = Some (ob, ''classifier'')"
proof -
  define hook where "hook = \<lparr>hook_ifindex = ifindex, hook_egress = True\<rparr>"
  define opts where "opts fd = \<lparr>opts_prog_fd = fd, opts_replace = True, opts_prog_id = 0, opts_priority = 1\<rparr>" for fd
  obtain w1 w2 r s where load: "bpf_object_load L ob w = (0, w1)"
    and fd: "0 \<le> bpf_program_fd L (ob, ''classifier'') w1"
    and create: "bpf_tc_hook_create L hook w1 = (r, w2)" "0 \<le> r"
    and attach: "bpf_tc_attach L hook (opts (bpf_program_fd L (ob, ''classifier'') w1)) w2 = (s, w')" "0 \<le> s"
    using assms unfolding load_egress_def hook_def opts_def
    by (auto simp: Let_def dest: find_prog split: option.splits prod.splits if_splits)
  show "grows {} (view w) (view w')"
    using load_ok [OF load] hook_ok [OF create] attach_ok [OF attach] grows_trans [of "{}" _ _ "{}"] by auto
  have "v_prog (view w2) (bpf_program_fd L (ob, ''classifier'') w1) = Some (ob, ''classifier'')"
    using prog_fd [OF fd] hook_ok [OF create] by (blast dest: grows_keeps(4))
  then show "v_tc (view w') ifindex = Some (ob, ''classifier'')"
    using attach_ok [OF attach] by (simp add: hook_def opts_def)
qed

end

context bpf_kernel begin

lemma loader_ok:
  assumes "loader L argv w = Inr ((ingr, egr), w')"
  shows "\<exists>flow seq. flow \<noteq> seq \<and> egr \<noteq> ingr \<and>
    v_map (view w') (ingr, ''flow_map'') = Some flow \<and> v_map (view w') (egr, ''flow_map'') = Some flow \<and>
    v_map (view w') (ingr, ''seq_map'') = Some seq \<and> v_map (view w') (egr, ''seq_map'') = Some seq \<and>
    v_xdp (view w') (if_nametoindex L (argv ! 1) w) = Some (ingr, ''xdp'') \<and>
    v_tc (view w') (if_nametoindex L (argv ! 1) w) = Some (egr, ''classifier'')"
proof -
  define ifindex where "ifindex = if_nametoindex L (argv ! 1) w"
  obtain w1 w2 w3 w4 w5 w6 where
    w1: "load_ingress L ifindex w = Inr (ingr, w1)"
    and w2: "pin_map L ingr ''flow_map'' ''/sys/fs/bpf/flow_map'' w1 = Inr ((), w2)"
    and w3: "pin_map L ingr ''seq_map'' ''/sys/fs/bpf/seq_map'' w2 = Inr ((), w3)"
    and w4: "bpf_object_open_file L ''egress_tc.o'' w3 = (Some egr, w4)"
    and w5: "link_map L ingr egr ''flow_map'' ''/sys/fs/bpf/flow_map'' w4 = Inr ((), w5)"
    and w6: "link_map L ingr egr ''seq_map'' ''/sys/fs/bpf/seq_map'' w5 = Inr ((), w6)"
    and w7: "load_egress L ifindex egr w6 = Inr ((), w')"
    using assms unfolding loader_def Let_def ifindex_def
    by (auto simp: and_then_def split: sum.splits prod.splits option.splits if_splits)
  note g2 = pin_map_ok(1) [OF w2] and g3 = pin_map_ok(1) [OF w3]
  have g4: "egr \<notin> v_open (view w3)" "grows {} (view w3) (view w4)" using open_new [OF w4] by auto
  obtain flow where flow: "v_map (view w2) (ingr, ''flow_map'') = Some flow"
      "v_pin (view w2) ''/sys/fs/bpf/flow_map'' = Some flow"
    using pin_map_ok(2) [OF w2] by blast
  obtain seq where seq: "v_map (view w3) (ingr, ''seq_map'') = Some seq"
      "v_pin (view w3) ''/sys/fs/bpf/seq_map'' = Some seq"
    using pin_map_ok(2) [OF w3] by blast
  have ne: "flow \<noteq> seq"
    using load_ingress_ok(3) [OF w1, of "''flow_map''" "''seq_map''" flow] flow seq g2 g3 by auto
  have "ingr \<in> v_open (view w3)"
    using load_ingress_ok(1) [OF w1] g2 g3 by (blast dest: grows_keeps(1))
  then have egr: "egr \<noteq> ingr" using g4 by blast
  have pin4: "v_pin (view w4) ''/sys/fs/bpf/flow_map'' = Some flow" "v_pin (view w4) ''/sys/fs/bpf/seq_map'' = Some seq"
    using flow(2) seq(2) g3 g4(2) by (blast dest: grows_keeps(3))+
  note g5 = link_map_ok [OF w5 pin4(1)]
  have "v_pin (view w5) ''/sys/fs/bpf/seq_map'' = Some seq" using pin4(2) g5(1) by (blast dest: grows_keeps(3))
  note g6 = link_map_ok [OF w6 this] and g7 = load_egress_ok [OF w7]
  have g: "grows {(egr, ''flow_map''), (egr, ''seq_map'')} (view w3) (view w')"
    using grows_trans [OF g4(2) grows_trans [OF g5(1) grows_trans [OF g6(1) g7(1)]]] by (simp add: insert_commute)
  have "v_map (view w') (ingr, ''flow_map'') = Some flow" "v_map (view w') (ingr, ''seq_map'') = Some seq"
    using flow(1) seq(1) g3 egr grows_keeps(2) [OF g] by auto
  moreover have "v_map (view w') (egr, ''flow_map'') = Some flow"
    using g5(2) grows_keeps(2) [OF g6(1)] grows_keeps(2) [OF g7(1)] by simp
  moreover have "v_map (view w') (egr, ''seq_map'') = Some seq"
    using g6(2) grows_keeps(2) [OF g7(1)] by simp
  moreover have "v_xdp (view w3) ifindex = Some (ingr, ''xdp'')"
    using load_ingress_ok(2) [OF w1] g2 g3 by (blast dest: grows_keeps(5))
  then have "v_xdp (view w') ifindex = Some (ingr, ''xdp'')" using g by (blast dest: grows_keeps(5))
  ultimately show ?thesis using ne egr g7(2) by (auto simp: ifindex_def)
qed

end

text \<open>
  (C28) When the loader exits with code 0, both programs are attached to the interface named on the
  command line, and the two programs work on the same two kernel maps: \<open>flow_map\<close> and \<open>seq_map\<close> of
  the egress object are those of the ingress object, and they are different maps.
\<close>

theorem xdp_loader_shares_maps:
  assumes "bpf_kernel L view" "xdp_loader_main L argv w = (0, w')"
  shows "\<exists>ingr egr flow seq. flow \<noteq> seq \<and> egr \<noteq> ingr \<and>
    v_map (view w') (ingr, ''flow_map'') = Some flow \<and> v_map (view w') (egr, ''flow_map'') = Some flow \<and>
    v_map (view w') (ingr, ''seq_map'') = Some seq \<and> v_map (view w') (egr, ''seq_map'') = Some seq \<and>
    v_xdp (view w') (if_nametoindex L (argv ! 1) w) = Some (ingr, ''xdp'') \<and>
    v_tc (view w') (if_nametoindex L (argv ! 1) w) = Some (egr, ''classifier'')"
proof -
  obtain ingr egr where "loader L argv w = Inr ((ingr, egr), w')"
    using assms(2) by (auto simp: xdp_loader_main_def split: sum.splits prod.splits)
  from bpf_kernel.loader_ok [OF assms(1) this] show ?thesis by (rule exI [of _ ingr, OF exI [of _ egr]])
qed

section \<open>A reference kernel\<close>

text \<open>
  A small kernel that keeps these promises: objects are numbered in the order they are opened, kernel
  maps in the order they are created.  It offers the two object files of the agent and one interface.
\<close>

record ref_kernel =
  rk_objs :: nat
  rk_maps :: "bpf_handle \<rightharpoonup> nat"
  rk_next :: nat
  rk_pin :: "string \<rightharpoonup> nat"
  rk_fd :: "int \<rightharpoonup> nat"
  rk_prog :: "int \<rightharpoonup> bpf_handle"
  rk_xdp :: "int \<rightharpoonup> bpf_handle"
  rk_tc :: "int \<rightharpoonup> bpf_handle"

definition rk_view :: "ref_kernel \<Rightarrow> kernel_view" where
  "rk_view k = \<lparr>v_open = {..<rk_objs k}, v_map = (\<lambda>m. if fst m < rk_objs k then rk_maps k m else None),
     v_pin = rk_pin k, v_fd = rk_fd k, v_prog = rk_prog k, v_xdp = rk_xdp k, v_tc = rk_tc k\<rparr>"

definition rk_open :: "string \<Rightarrow> ref_kernel \<Rightarrow> bpf_object option \<times> ref_kernel" where
  "rk_open file k =
     (if file = ''ingress_xdp.o'' \<or> file = ''egress_tc.o''
      then (Some (rk_objs k), k\<lparr>rk_objs := rk_objs k + 1,
        rk_maps := (\<lambda>m. if fst m = rk_objs k then None else rk_maps k m)\<rparr>)
      else (None, k))"

definition rk_create :: "bpf_handle \<Rightarrow> nat \<Rightarrow> (bpf_handle \<rightharpoonup> nat) \<Rightarrow> bpf_handle \<rightharpoonup> nat" where
  "rk_create m i f = (if f m = None then f(m \<mapsto> i) else f)"

definition rk_load :: "bpf_object \<Rightarrow> ref_kernel \<Rightarrow> int \<times> ref_kernel" where
  "rk_load ob k =
     (if ob < rk_objs k \<and> rk_prog k (int ob) = None
      then (0, k\<lparr>rk_maps := rk_create (ob, ''seq_map'') (rk_next k + 1) (rk_create (ob, ''flow_map'') (rk_next k) (rk_maps k)),
                 rk_next := rk_next k + 2,
                 rk_prog := (rk_prog k)(int ob \<mapsto> (ob, if ob = 0 then ''xdp'' else ''classifier''))\<rparr>)
      else (-1, k))"

definition rk_prog_fd :: "bpf_handle \<Rightarrow> ref_kernel \<Rightarrow> int" where
  "rk_prog_fd p k = (if rk_prog k (int (fst p)) = Some p then int (fst p) else -1)"

definition rk_link :: "int \<Rightarrow> int \<Rightarrow> nat \<Rightarrow> ref_kernel \<Rightarrow> int \<times> ref_kernel" where
  "rk_link ifindex fd fl k =
     (if rk_xdp k ifindex = None then (0, k\<lparr>rk_xdp := (rk_xdp k)(ifindex := rk_prog k fd)\<rparr>) else (-1, k))"

definition rk_find_map :: "bpf_object \<Rightarrow> string \<Rightarrow> ref_kernel \<Rightarrow> bpf_handle option" where
  "rk_find_map ob n k = (if n = ''flow_map'' \<or> n = ''seq_map'' then Some (ob, n) else None)"

definition rk_do_pin :: "bpf_handle \<Rightarrow> string \<Rightarrow> ref_kernel \<Rightarrow> int \<times> ref_kernel" where
  "rk_do_pin m path k =
     (if fst m < rk_objs k \<and> rk_maps k m \<noteq> None \<and> rk_pin k path = None
      then (0, k\<lparr>rk_pin := (rk_pin k)(path := rk_maps k m)\<rparr>) else (-1, k))"

definition rk_get :: "string \<Rightarrow> ref_kernel \<Rightarrow> int \<times> ref_kernel" where
  "rk_get path k =
     (case rk_pin k path of None \<Rightarrow> (-1, k) | Some i \<Rightarrow> (int i, k\<lparr>rk_fd := (rk_fd k)(int i \<mapsto> i)\<rparr>))"

definition rk_reuse :: "bpf_handle \<Rightarrow> int \<Rightarrow> ref_kernel \<Rightarrow> int \<times> ref_kernel" where
  "rk_reuse m fd k =
     (if fst m < rk_objs k then (0, k\<lparr>rk_maps := (rk_maps k)(m := rk_fd k fd)\<rparr>) else (-1, k))"

definition rk_attach :: "bpf_tc_hook \<Rightarrow> bpf_tc_opts \<Rightarrow> ref_kernel \<Rightarrow> int \<times> ref_kernel" where
  "rk_attach hook opts k = (0, k\<lparr>rk_tc := (rk_tc k)(hook_ifindex hook := rk_prog k (opts_prog_fd opts))\<rparr>)"

definition ref_libbpf :: "ref_kernel libbpf" where
  "ref_libbpf = \<lparr>if_nametoindex = (\<lambda>s k. if s = ''eth0'' then 1 else 0), bpf_object_open_file = rk_open,
     bpf_object_load = rk_load, bpf_object_close = (\<lambda>ob k. k),
     bpf_object_find_program_by_title = (\<lambda>ob t k. Some (ob, t)), bpf_program_fd = rk_prog_fd,
     bpf_set_link_xdp_fd = rk_link, bpf_object_find_map_by_name = rk_find_map, bpf_map_pin = rk_do_pin,
     bpf_obj_get = rk_get, bpf_map_reuse_fd = rk_reuse, bpf_tc_hook_create = (\<lambda>hook k. (0, k)),
     bpf_tc_attach = rk_attach\<rparr>"

lemmas rk_defs = rk_open_def rk_create_def rk_load_def rk_prog_fd_def rk_link_def rk_find_map_def rk_do_pin_def
  rk_get_def rk_reuse_def rk_attach_def

interpretation ref: bpf_kernel ref_libbpf rk_view
  by unfold_locales (auto simp: ref_libbpf_def rk_defs rk_view_def grows_def split: if_splits option.splits)

definition rk_init :: ref_kernel where
  "rk_init = \<lparr>rk_objs = 0, rk_maps = Map.empty, rk_next = 0, rk_pin = Map.empty, rk_fd = Map.empty,
     rk_prog = Map.empty, rk_xdp = Map.empty, rk_tc = Map.empty\<rparr>"

lemma ref_loader_runs: "fst (xdp_loader_main ref_libbpf [''xdp_loader'', ''eth0''] rk_init) = 0"
  by (simp add: xdp_loader_main_def loader_def and_then_def load_ingress_def pin_map_def link_map_def load_egress_def
      ref_libbpf_def rk_defs rk_init_def)

theorem xdp_loader_shares_maps_witness:
  "\<exists>k' ingr egr flow seq. xdp_loader_main ref_libbpf [''xdp_loader'', ''eth0''] rk_init = (0, k') \<and> flow \<noteq> seq \<and>
    v_map (rk_view k') (ingr, ''flow_map'') = Some flow \<and> v_map (rk_view k') (egr, ''flow_map'') = Some flow \<and>
    v_map (rk_view k') (ingr, ''seq_map'') = Some seq \<and> v_map (rk_view k') (egr, ''seq_map'') = Some seq"
proof -
  obtain k' where k': "xdp_loader_main ref_libbpf [''xdp_loader'', ''eth0''] rk_init = (0, k')"
    using ref_loader_runs by (metis prod.collapse)
  then show ?thesis
    using xdp_loader_shares_maps [OF ref.bpf_kernel_axioms k'] by blast
qed

end
