(* ===== verification/Bf_Rt.thy ===== *)
theory Bf_Rt
  imports Miresga_Prelude
begin

text \<open>
  The interface between the switch's control plane and the driver of the switch chip (\<open>bf_rt\<close>,
  \<open>bf_pm\<close>, \<open>bf_switchd\<close>), which is not part of the repository: a record of the calls that
  \<open>src/Switch/control_plane\<close> makes, as a parameter of every definition that makes them, on an abstract
  driver state.  The locale \<open>bf_rt_driver\<close> states what the driver documents of them, and a small
  reference driver shows that it can be met.
\<close>

section \<open>Programs that may exit\<close>

text \<open>
  A control-plane function ends with a value, with \<open>exit(1)\<close> after a message, or with an access
  through a null pointer or outside an array.
\<close>

datatype 'a outcome = Ret 'a | Exit string | Crash

type_synonym ('a, 's) prog = "'s \<Rightarrow> 'a outcome \<times> 's"

text \<open>A driver call returns its status (\<open>None\<close> for anything but \<open>BF_SUCCESS\<close>) and its out-parameter.\<close>

type_synonym ('a, 's) call = "'s \<Rightarrow> 'a option \<times> 's"

definition ret :: "'a \<Rightarrow> ('a, 's) prog" where
  "ret x s = (Ret x, s)"

definition seq :: "('a, 's) prog \<Rightarrow> ('a \<Rightarrow> ('b, 's) prog) \<Rightarrow> ('b, 's) prog" where
  "seq m k s = (case m s of (Ret x, s') \<Rightarrow> k x s' | (Exit msg, s') \<Rightarrow> (Exit msg, s') | (Crash, s') \<Rightarrow> (Crash, s'))"

text \<open>The idiom \<open>status = call(..); if (status != BF_SUCCESS) { printf(msg); exit(1); }\<close>.\<close>

definition check :: "string \<Rightarrow> ('a, 's) call \<Rightarrow> ('a \<Rightarrow> ('b, 's) prog) \<Rightarrow> ('b, 's) prog" where
  "check msg c k s = (case c s of (None, s') \<Rightarrow> (Exit msg, s') | (Some x, s') \<Rightarrow> k x s')"

text \<open>A call whose status is not looked at: the out-parameter keeps its old value on failure.\<close>

definition ignore :: "'a \<Rightarrow> ('a, 's) call \<Rightarrow> ('a \<Rightarrow> ('b, 's) prog) \<Rightarrow> ('b, 's) prog" where
  "ignore old c k s = (case c s of (None, s') \<Rightarrow> k old s' | (Some x, s') \<Rightarrow> k x s')"

fun for_each :: "('a \<Rightarrow> 'b \<Rightarrow> ('b, 's) prog) \<Rightarrow> 'a list \<Rightarrow> 'b \<Rightarrow> ('b, 's) prog" where
  "for_each body [] b = ret b"
| "for_each body (x # xs) b = seq (body x b) (for_each body xs)"

lemma check_Ret:
  assumes "check msg c k s = (Ret y, s')"
  obtains x s1 where "c s = (Some x, s1)" "k x s1 = (Ret y, s')"
  using assms by (auto simp: check_def split: prod.splits option.splits)

lemma seq_Ret:
  assumes "seq m k s = (Ret y, s')"
  obtains x s1 where "m s = (Ret x, s1)" "k x s1 = (Ret y, s')"
  using assms by (auto simp: seq_def split: prod.splits outcome.splits)

lemma ret_Ret [simp]: "ret x s = (Ret y, s') \<longleftrightarrow> y = x \<and> s' = s"
  by (auto simp: ret_def)

section \<open>The driver\<close>

type_synonym hdl = nat
type_synonym bf_rt_id = nat

datatype bf_port_speed = BF_SPEED_10G | BF_SPEED_25G | BF_SPEED_40G | BF_SPEED_100G

record bf_rt_target =
  dev_id :: nat
  pipe_id :: nat

record switchd_context =
  install_dir :: string
  conf_file :: string
  running_in_background :: bool
  dev_sts_thread :: bool
  dev_sts_port :: nat
  kernel_pkt :: bool

record 's bf_rt =
  BF_DEV_PIPE_ALL :: nat
  bf_switchd_lib_init :: "switchd_context \<Rightarrow> (unit, 's) call"
  bf_rt_info_get :: "nat \<Rightarrow> string \<Rightarrow> (hdl, 's) call"
  bf_rt_session_create :: "(hdl, 's) call"
  bf_pm_port_str_to_hdl_get :: "nat \<Rightarrow> string option \<Rightarrow> (hdl, 's) call"
  BF_FEC_TYP_RS :: nat
  bf_pm_port_add :: "nat \<Rightarrow> hdl \<Rightarrow> bf_port_speed \<Rightarrow> nat \<Rightarrow> (unit, 's) call"
  bf_pm_port_enable :: "nat \<Rightarrow> hdl \<Rightarrow> (unit, 's) call"
  bf_rt_table_from_name_get :: "hdl \<Rightarrow> string \<Rightarrow> (hdl, 's) call"
  bf_rt_table_key_allocate :: "hdl \<Rightarrow> (hdl, 's) call"
  bf_rt_table_data_allocate :: "hdl \<Rightarrow> (hdl, 's) call"
  bf_rt_key_field_id_get :: "hdl \<Rightarrow> string \<Rightarrow> (bf_rt_id, 's) call"
  bf_rt_action_name_to_id :: "hdl \<Rightarrow> string \<Rightarrow> (bf_rt_id, 's) call"
  bf_rt_data_field_id_with_action_get :: "hdl \<Rightarrow> string \<Rightarrow> bf_rt_id \<Rightarrow> (bf_rt_id, 's) call"
  bf_rt_table_key_reset :: "hdl \<Rightarrow> hdl \<Rightarrow> (hdl, 's) call"
  bf_rt_table_action_data_reset :: "hdl \<Rightarrow> bf_rt_id \<Rightarrow> hdl \<Rightarrow> (hdl, 's) call"
  bf_rt_key_field_set_value :: "hdl \<Rightarrow> bf_rt_id \<Rightarrow> u64 \<Rightarrow> (unit, 's) call"
  bf_rt_key_field_set_value_lpm :: "hdl \<Rightarrow> bf_rt_id \<Rightarrow> u64 \<Rightarrow> u16 \<Rightarrow> (unit, 's) call"
  bf_rt_data_field_set_value :: "hdl \<Rightarrow> bf_rt_id \<Rightarrow> u64 \<Rightarrow> (unit, 's) call"
  bf_rt_table_entry_add :: "hdl \<Rightarrow> hdl \<Rightarrow> bf_rt_target \<Rightarrow> hdl \<Rightarrow> hdl \<Rightarrow> (unit, 's) call"
  bf_rt_table_entry_del :: "hdl \<Rightarrow> hdl \<Rightarrow> bf_rt_target \<Rightarrow> hdl \<Rightarrow> (unit, 's) call"
  bf_rt_session_complete_operations :: "hdl \<Rightarrow> (unit, 's) call"
  bf_rt_begin_batch :: "hdl \<Rightarrow> (unit, 's) call"
  bf_rt_end_batch :: "hdl \<Rightarrow> bool \<Rightarrow> (unit, 's) call"

section \<open>What the driver promises\<close>

text \<open>
  The state behind the handles: the fields of each key object, the action and fields of each data
  object, the entries of each table, and the key and data objects that have been allocated.
\<close>

datatype key_val = Exact u64 | Lpm u64 u16

type_synonym match = "bf_rt_id \<rightharpoonup> key_val"
type_synonym action = "bf_rt_id \<times> (bf_rt_id \<rightharpoonup> u64)"

record driver_view =
  d_key :: "hdl \<Rightarrow> match"
  d_data :: "hdl \<Rightarrow> action"
  d_table :: "hdl \<Rightarrow> match \<rightharpoonup> action"
  d_keys :: "hdl set"
  d_datas :: "hdl set"

definition new_key :: "hdl \<Rightarrow> driver_view \<Rightarrow> driver_view" where
  "new_key h v = v\<lparr>d_key := (d_key v)(h := Map.empty), d_keys := insert h (d_keys v)\<rparr>"

definition new_data :: "hdl \<Rightarrow> driver_view \<Rightarrow> driver_view" where
  "new_data h v = v\<lparr>d_datas := insert h (d_datas v)\<rparr>"

definition set_key :: "hdl \<Rightarrow> bf_rt_id \<Rightarrow> key_val \<Rightarrow> driver_view \<Rightarrow> driver_view" where
  "set_key h f x v = v\<lparr>d_key := (d_key v)(h := (d_key v h)(f \<mapsto> x))\<rparr>"

definition set_data :: "hdl \<Rightarrow> bf_rt_id \<Rightarrow> u64 \<Rightarrow> driver_view \<Rightarrow> driver_view" where
  "set_data h f x v = v\<lparr>d_data := (d_data v)(h := (fst (d_data v h), (snd (d_data v h))(f \<mapsto> x)))\<rparr>"

definition reset_key :: "hdl \<Rightarrow> driver_view \<Rightarrow> driver_view" where
  "reset_key h v = v\<lparr>d_key := (d_key v)(h := Map.empty)\<rparr>"

definition reset_data :: "hdl \<Rightarrow> bf_rt_id \<Rightarrow> driver_view \<Rightarrow> driver_view" where
  "reset_data h a v = v\<lparr>d_data := (d_data v)(h := (a, Map.empty))\<rparr>"

definition put_entry :: "hdl \<Rightarrow> match \<Rightarrow> action \<Rightarrow> driver_view \<Rightarrow> driver_view" where
  "put_entry t k d v = v\<lparr>d_table := (d_table v)(t := (d_table v t)(k \<mapsto> d))\<rparr>"

definition del_entry :: "hdl \<Rightarrow> match \<Rightarrow> driver_view \<Rightarrow> driver_view" where
  "del_entry t k v = v\<lparr>d_table := (d_table v)(t := (d_table v t)(k := None))\<rparr>"

text \<open>A call that fails changes nothing; one that succeeds has the given effect.\<close>

definition effect :: "('s \<Rightarrow> driver_view) \<Rightarrow> ('a, 's) call \<Rightarrow> ('a \<Rightarrow> driver_view \<Rightarrow> driver_view) \<Rightarrow> bool" where
  "effect view c eff \<longleftrightarrow> (\<forall>s. view (snd (c s)) = (case fst (c s) of None \<Rightarrow> view s | Some x \<Rightarrow> eff x (view s)))"

locale bf_rt_driver =
  fixes D :: "'s bf_rt" and view :: "'s \<Rightarrow> driver_view"
  assumes switchd_init: "effect view (bf_switchd_lib_init D ctx) (\<lambda>_ v. v)"
    and info_get: "effect view (bf_rt_info_get D dev name) (\<lambda>_ v. v)"
    and session_create: "effect view (bf_rt_session_create D) (\<lambda>_ v. v)"
    and port_get: "effect view (bf_pm_port_str_to_hdl_get D dev port) (\<lambda>_ v. v)"
    and port_add: "effect view (bf_pm_port_add D dev h speed fec) (\<lambda>_ v. v)"
    and port_enable: "effect view (bf_pm_port_enable D dev h) (\<lambda>_ v. v)"
    and table_get: "effect view (bf_rt_table_from_name_get D info name) (\<lambda>_ v. v)"
    and table_get_name: "bf_rt_table_from_name_get D info name s = (Some t, s') \<Longrightarrow>
      bf_rt_table_from_name_get D info name2 s2 = (Some t, s2') \<Longrightarrow> name2 = name"
    and kid_get: "effect view (bf_rt_key_field_id_get D t name) (\<lambda>_ v. v)"
    and aid_get: "effect view (bf_rt_action_name_to_id D t name) (\<lambda>_ v. v)"
    and did_get: "effect view (bf_rt_data_field_id_with_action_get D t name a) (\<lambda>_ v. v)"
    and key_alloc: "effect view (bf_rt_table_key_allocate D t) new_key"
    and key_alloc_new: "bf_rt_table_key_allocate D t s = (Some h, s') \<Longrightarrow> h \<notin> d_keys (view s)"
    and data_alloc: "effect view (bf_rt_table_data_allocate D t) new_data"
    and data_alloc_new: "bf_rt_table_data_allocate D t s = (Some h, s') \<Longrightarrow> h \<notin> d_datas (view s)"
    and key_set: "effect view (bf_rt_key_field_set_value D h f x) (\<lambda>_. set_key h f (Exact x))"
    and key_set_lpm: "effect view (bf_rt_key_field_set_value_lpm D h f x n) (\<lambda>_. set_key h f (Lpm x n))"
    and data_set: "effect view (bf_rt_data_field_set_value D h f x) (\<lambda>_. set_data h f x)"
    and key_reset: "effect view (bf_rt_table_key_reset D t h) reset_key"
    and data_reset: "effect view (bf_rt_table_action_data_reset D t a h) (\<lambda>h'. reset_data h' a)"
    and key_reset_same: "bf_rt_table_key_reset D t h s = (Some h', s') \<Longrightarrow> h' = h"
    and data_reset_same: "bf_rt_table_action_data_reset D t a h s = (Some h', s') \<Longrightarrow> h' = h"
    and entry_add: "effect view (bf_rt_table_entry_add D t ses tgt k d)
      (\<lambda>_ v. put_entry t (d_key v k) (d_data v d) v)"
    and entry_add_new: "bf_rt_table_entry_add D t ses tgt k d s = (Some u, s') \<Longrightarrow> d_key (view s) k \<notin> dom (d_table (view s) t)"
    and entry_del: "effect view (bf_rt_table_entry_del D t ses tgt k) (\<lambda>_ v. del_entry t (d_key v k) v)"
    and complete: "effect view (bf_rt_session_complete_operations D ses) (\<lambda>_ v. v)"
    and begin_batch: "effect view (bf_rt_begin_batch D ses) (\<lambda>_ v. v)"
    and end_batch: "effect view (bf_rt_end_batch D ses b) (\<lambda>_ v. v)"

lemma effect_Some: "effect view c eff \<Longrightarrow> c s = (Some x, s') \<Longrightarrow> view s' = eff x (view s)"
  by (metis effect_def fst_conv option.simps(5) snd_conv)

lemma effect_None: "effect view c eff \<Longrightarrow> c s = (None, s') \<Longrightarrow> view s' = view s"
  by (metis effect_def fst_conv option.simps(4) snd_conv)

text \<open>One checked call in a run that returns, and in a run that does not.\<close>

lemma check_effect_Ret:
  assumes "effect view c eff" "check msg c k s = (Ret y, s')"
  obtains x s1 where "c s = (Some x, s1)" "view s1 = eff x (view s)" "k x s1 = (Ret y, s')"
  using assms by (auto elim!: check_Ret dest: effect_Some)

lemma check_effect_cases:
  assumes "effect view c eff" "check msg c k s = (r, s')"
  obtains "r = Exit msg" "view s' = view s"
  | x s1 where "c s = (Some x, s1)" "view s1 = eff x (view s)" "k x s1 = (r, s')"
  using assms by (auto simp: check_def split: prod.splits option.splits dest: effect_Some effect_None)

lemma ignore_effect_cases:
  assumes "effect view c eff" "ignore old c k s = (r, s')"
  obtains s1 where "view s1 = view s" "k old s1 = (r, s')"
  | x s1 where "c s = (Some x, s1)" "view s1 = eff x (view s)" "k x s1 = (r, s')"
  using assms by (auto simp: ignore_def split: prod.splits option.splits dest: effect_Some effect_None)

section \<open>Loops that add one entry per element\<close>

text \<open>
  The contract that the loop bodies of the \<open>add_\<dots>_table_entry\<close> functions share: \<open>i\<close> is the
  table information with its handles, \<open>ready\<close> the condition on the objects behind them, \<open>tbl\<close>, \<open>key\<close> and
  \<open>act\<close> say which entry an element stands for.
\<close>

definition puts :: "hdl \<Rightarrow> ('e \<Rightarrow> match) \<Rightarrow> ('e \<Rightarrow> action) \<Rightarrow> 'e list \<Rightarrow> (hdl \<Rightarrow> match \<rightharpoonup> action) \<Rightarrow> hdl \<Rightarrow> match \<rightharpoonup> action" where
  "puts t key act es T = T(t := fold (\<lambda>e m. m(key e \<mapsto> act e)) es (T t))"

lemma puts_Nil [simp]: "puts t key act [] T = T"
  by (simp add: puts_def)

lemma puts_Cons: "puts t key act (e # es) T = puts t key act es (puts t key act [e] T)"
  by (simp add: puts_def)

text \<open>The same for one table, as lookups.\<close>

definition installed :: "hdl \<Rightarrow> ('e \<Rightarrow> match) \<Rightarrow> ('e \<Rightarrow> action) \<Rightarrow> 'e list \<Rightarrow> (hdl \<Rightarrow> match \<rightharpoonup> action) \<Rightarrow> (hdl \<Rightarrow> match \<rightharpoonup> action) \<Rightarrow> bool" where
  "installed t key act es T T' \<longleftrightarrow> (\<forall>e \<in> set es. T' t (key e) = Some (act e)) \<and>
     (\<forall>k. k \<notin> key ` set es \<longrightarrow> T' t k = T t k) \<and> (\<forall>t'. t' \<noteq> t \<longrightarrow> T' t' = T t')"

lemma fold_upd_other: "k \<notin> key ` set es \<Longrightarrow> fold (\<lambda>e m. m(key e \<mapsto> act e)) es m k = m k"
  by (induction es arbitrary: m) auto

lemma fold_upd_in:
  "distinct (map key es) \<Longrightarrow> e \<in> set es \<Longrightarrow> fold (\<lambda>e m. m(key e \<mapsto> act e)) es m (key e) = Some (act e)"
  by (induction es arbitrary: m) (auto simp: fold_upd_other)

lemma puts_installed: "distinct (map key es) \<Longrightarrow> installed t key act es T (puts t key act es T)"
  by (auto simp: installed_def puts_def fold_upd_in fold_upd_other)

text \<open>Only the key object \<open>k\<close> and the data object \<open>d\<close> may change; no object goes away.\<close>

definition touches :: "hdl set \<Rightarrow> hdl set \<Rightarrow> driver_view \<Rightarrow> driver_view \<Rightarrow> bool" where
  "touches K H v v' \<longleftrightarrow> (\<forall>h. h \<notin> K \<longrightarrow> d_key v' h = d_key v h) \<and> (\<forall>h. h \<notin> H \<longrightarrow> d_data v' h = d_data v h) \<and>
     d_keys v \<subseteq> d_keys v' \<and> d_datas v \<subseteq> d_datas v'"

lemma touches_refl [simp]: "touches K H v v"
  by (simp add: touches_def)

lemma touches_trans: "touches K H v v' \<Longrightarrow> touches K H v' v'' \<Longrightarrow> touches K H v v''"
  unfolding touches_def by auto

locale entry_adder =
  fixes view :: "'s \<Rightarrow> driver_view" and body :: "'e \<Rightarrow> 'i \<Rightarrow> ('i, 's) prog" and ready :: "'i \<Rightarrow> driver_view \<Rightarrow> bool"
    and kh :: "'i \<Rightarrow> hdl" and dh :: "'i \<Rightarrow> hdl" and tbl :: "'i \<Rightarrow> hdl" and key :: "'i \<Rightarrow> 'e \<Rightarrow> match" and act :: "'i \<Rightarrow> 'e \<Rightarrow> action"
  assumes body_Ret: "ready i (view s) \<Longrightarrow> body e i s = (Ret i', s') \<Longrightarrow>
      ready i' (view s') \<and> kh i' = kh i \<and> dh i' = dh i \<and> tbl i' = tbl i \<and> key i' = key i \<and> act i' = act i \<and>
      touches {kh i} {dh i} (view s) (view s') \<and> key i e \<notin> dom (d_table (view s) (tbl i)) \<and>
      d_table (view s') = puts (tbl i) (key i) (act i) [e] (d_table (view s))"
    and body_fail: "ready i (view s) \<Longrightarrow> body e i s = (r, s') \<Longrightarrow> \<forall>i'. r \<noteq> Ret i' \<Longrightarrow>
      r \<noteq> Crash \<and> (d_table (view s') = d_table (view s) \<or>
        d_table (view s') = puts (tbl i) (key i) (act i) [e] (d_table (view s)))"
begin

text \<open>
  The whole loop: however it ends, it has added the entries of a prefix, and of the whole list if it
  returns; it returns only when the keys are new and different from each other.
\<close>

lemma loop:
  assumes "ready i (view s)" "for_each body es i s = (r, s')"
  shows "r \<noteq> Crash \<and>
    (\<exists>n \<le> length es. d_table (view s') = puts (tbl i) (key i) (act i) (take n es) (d_table (view s))) \<and>
    (\<forall>i'. r = Ret i' \<longrightarrow> d_table (view s') = puts (tbl i) (key i) (act i) es (d_table (view s)) \<and>
      distinct (map (key i) es) \<and> key i ` set es \<inter> dom (d_table (view s) (tbl i)) = {} \<and>
      ready i' (view s') \<and> kh i' = kh i \<and> dh i' = dh i \<and> tbl i' = tbl i \<and> key i' = key i \<and> act i' = act i \<and>
      touches {kh i} {dh i} (view s) (view s'))"
  using assms
proof (induction es arbitrary: i s)
  case Nil
  then show ?case by (auto simp: ret_def)
next
  case (Cons e es)
  show ?case
  proof (cases "\<exists>i1. fst (body e i s) = Ret i1")
    case True
    then obtain i1 s1 where b: "body e i s = (Ret i1, s1)" by (metis prod.collapse)
    note b' = body_Ret [OF Cons.prems(1) b]
    have run: "for_each body es i1 s1 = (r, s')" using Cons.prems(2) b by (simp add: seq_def)
    note IH = Cons.IH [OF conjunct1 [OF b'] run]
    then obtain n where n: "n \<le> length es"
      "d_table (view s') = puts (tbl i) (key i) (act i) (take n es) (puts (tbl i) (key i) (act i) [e] (d_table (view s)))"
      using b' by auto
    then have "d_table (view s') = puts (tbl i) (key i) (act i) (take (Suc n) (e # es)) (d_table (view s))"
      by (metis puts_Cons take_Suc_Cons)
    then show ?thesis
      using IH b' n(1) by (fastforce simp: puts_Cons [of _ _ _ e es] puts_def image_iff intro!: exI [of _ "Suc n"]
          intro: touches_trans)
  next
    case False
    then obtain r1 where b: "body e i s = (r1, s')" "\<forall>i1. r1 \<noteq> Ret i1"
      and r: "(r1 = Crash \<longleftrightarrow> r = Crash) \<and> (\<forall>i1. r \<noteq> Ret i1)"
      using Cons.prems(2) by (auto simp: seq_def split: prod.splits outcome.splits)
    have "\<exists>n \<le> length (e # es). d_table (view s') = puts (tbl i) (key i) (act i) (take n (e # es)) (d_table (view s))"
      using body_fail [OF Cons.prems(1) b]
      by (auto intro: exI [of _ 0] exI [of _ "Suc 0"])
    then show ?thesis using body_fail [OF Cons.prems(1) b] r by auto
  qed
qed

lemma loop_installed:
  assumes "ready i (view s)" "for_each body es i s = (r, s')"
  shows "r \<noteq> Crash \<and>
    (\<exists>n \<le> length es. d_table (view s') = puts (tbl i) (key i) (act i) (take n es) (d_table (view s))) \<and>
    (\<forall>i'. r = Ret i' \<longrightarrow> distinct (map (key i) es) \<and>
      installed (tbl i) (key i) (act i) es (d_table (view s)) (d_table (view s')))"
  using loop [OF assms] by (auto simp: puts_installed)

end

section \<open>A reference driver\<close>

text \<open>
  A driver that keeps the contract: names are resolved by their position in a list, objects are
  numbered in the order of allocation, and every call on known names succeeds.
\<close>

record ref_driver =
  rd_key :: "hdl \<Rightarrow> match"
  rd_data :: "hdl \<Rightarrow> action"
  rd_table :: "hdl \<Rightarrow> match \<rightharpoonup> action"
  rd_nkeys :: nat
  rd_ndatas :: nat

definition rd_view :: "ref_driver \<Rightarrow> driver_view" where
  "rd_view r = \<lparr>d_key = rd_key r, d_data = rd_data r, d_table = rd_table r, d_keys = {..<rd_nkeys r}, d_datas = {..<rd_ndatas r}\<rparr>"

definition position :: "string list \<Rightarrow> string \<Rightarrow> nat option" where
  "position names x = (if x \<in> set names then Some (length (takeWhile (\<lambda>y. y \<noteq> x) names)) else None)"

lemma position_nth: "position names x = Some n \<Longrightarrow> names ! n = x"
  by (induction names arbitrary: n) (auto simp: position_def split: if_splits)

definition rd_tables :: "string list" where
  "rd_tables = [''SwitchIngress.arp_table'', ''SwitchIngress.dip_lookup_table'', ''SwitchIngress.offload_connection_table'',
     ''SwitchIngress.dest_to_egress_port_table'', ''SwitchIngress.d_index_to_egress_port_table'',
     ''SwitchIngress.lb_index_to_egress_port_table'', ''SwitchEgress.d_index_to_ip_port_table'']"

definition rd_fields :: "string list" where
  "rd_fields = [''hdr.arp.opcode'', ''hdr.arp.target_proto_addr'', ''hdr.ipv4.src_addr'', ''hdr.tcp.src_port'', ''ig_md.cip'',
     ''ig_md.cport'', ''hdr.ipv4.dst_addr'', ''hdr.bridged.index'', ''ig_md.hash_result'', ''eg_md.bridged.index'',
     ''arp_mac'', ''d_index'', ''src_mac'', ''dst_mac'', ''dst_port'', ''dst_ip'']"

definition rd_actions :: "string list" where
  "rd_actions = [''SwitchIngress.reply_arp'', ''SwitchIngress.dip_hit'', ''SwitchIngress.oft_hit'',
     ''SwitchIngress.set_egress_port'', ''SwitchEgress.set_dst_ip_port'']"

definition rd_entry_add :: "hdl \<Rightarrow> hdl \<Rightarrow> hdl \<Rightarrow> (unit, ref_driver) call" where
  "rd_entry_add t k d r = (if rd_table r t (rd_key r k) = None
     then (Some (), r\<lparr>rd_table := (rd_table r)(t := (rd_table r t)(rd_key r k \<mapsto> rd_data r d))\<rparr>) else (None, r))"

definition rd_entry_del :: "hdl \<Rightarrow> hdl \<Rightarrow> (unit, ref_driver) call" where
  "rd_entry_del t k r = (if rd_table r t (rd_key r k) \<noteq> None
     then (Some (), r\<lparr>rd_table := (rd_table r)(t := (rd_table r t)(rd_key r k := None))\<rparr>) else (None, r))"

definition ref_bf_rt :: "ref_driver bf_rt" where
  "ref_bf_rt = \<lparr>BF_DEV_PIPE_ALL = 65535, bf_switchd_lib_init = (\<lambda>c r. (Some (), r)), bf_rt_info_get = (\<lambda>d n r. (Some 0, r)),
     bf_rt_session_create = (\<lambda>r. (Some 0, r)), bf_pm_port_str_to_hdl_get = (\<lambda>d n r. (Some 0, r)),
     BF_FEC_TYP_RS = 2, bf_pm_port_add = (\<lambda>d h sp fec r. (Some (), r)), bf_pm_port_enable = (\<lambda>d h r. (Some (), r)),
     bf_rt_table_from_name_get = (\<lambda>info n r. (position rd_tables n, r)),
     bf_rt_table_key_allocate = (\<lambda>t r. (Some (rd_nkeys r),
       r\<lparr>rd_key := (rd_key r)(rd_nkeys r := Map.empty), rd_nkeys := rd_nkeys r + 1\<rparr>)),
     bf_rt_table_data_allocate = (\<lambda>t r. (Some (rd_ndatas r), r\<lparr>rd_ndatas := rd_ndatas r + 1\<rparr>)),
     bf_rt_key_field_id_get = (\<lambda>t n r. (position rd_fields n, r)),
     bf_rt_action_name_to_id = (\<lambda>t n r. (position rd_actions n, r)),
     bf_rt_data_field_id_with_action_get = (\<lambda>t n a r. (position rd_fields n, r)),
     bf_rt_table_key_reset = (\<lambda>t h r. (Some h, r\<lparr>rd_key := (rd_key r)(h := Map.empty)\<rparr>)),
     bf_rt_table_action_data_reset = (\<lambda>t a h r. (Some h, r\<lparr>rd_data := (rd_data r)(h := (a, Map.empty))\<rparr>)),
     bf_rt_key_field_set_value = (\<lambda>h f x r. (Some (), r\<lparr>rd_key := (rd_key r)(h := (rd_key r h)(f \<mapsto> Exact x))\<rparr>)),
     bf_rt_key_field_set_value_lpm = (\<lambda>h f x n r. (Some (), r\<lparr>rd_key := (rd_key r)(h := (rd_key r h)(f \<mapsto> Lpm x n))\<rparr>)),
     bf_rt_data_field_set_value = (\<lambda>h f x r. (Some (),
       r\<lparr>rd_data := (rd_data r)(h := (fst (rd_data r h), (snd (rd_data r h))(f \<mapsto> x)))\<rparr>)),
     bf_rt_table_entry_add = (\<lambda>t ses tgt k d. rd_entry_add t k d), bf_rt_table_entry_del = (\<lambda>t ses tgt k. rd_entry_del t k),
     bf_rt_session_complete_operations = (\<lambda>ses r. (Some (), r)), bf_rt_begin_batch = (\<lambda>ses r. (Some (), r)),
     bf_rt_end_batch = (\<lambda>ses b r. (Some (), r))\<rparr>"

definition rd_init :: ref_driver where
  "rd_init = \<lparr>rd_key = (\<lambda>h. Map.empty), rd_data = (\<lambda>h. (0, Map.empty)), rd_table = (\<lambda>t. Map.empty), rd_nkeys = 0, rd_ndatas = 0\<rparr>"

interpretation ref_drv: bf_rt_driver ref_bf_rt rd_view
  by unfold_locales
    (auto simp: ref_bf_rt_def rd_view_def effect_def new_key_def new_data_def set_key_def set_data_def reset_key_def
      reset_data_def put_entry_def del_entry_def rd_entry_add_def rd_entry_del_def lessThan_Suc
      split: option.split if_splits dest: position_nth)

end
