(* ===== verification/Client.thy ===== *)
theory Client
  imports Bf_Rt
begin

text \<open>
  \<open>src/Switch/control_plane/src/client.c\<close>: one record per table information and per table entry of
  \<open>client.h\<close>, the functions that resolve a table's names and allocate its key and data objects
  (\<open>setup_\<dots>\<close>), and the functions that add entries (\<open>add_\<dots>\<close>).  A function that assigns a static
  variable returns its new value.  Every status that the code checks ends the program with the
  code's message; the one status it does not look at is \<open>ignore\<close>d.
\<close>

section \<open>Data\<close>

definition INBOUND_SRC_MAC :: u64 where
  "INBOUND_SRC_MAC = 0x0c42a14aff02"

definition OUTBOUND_SRC_MAC :: u64 where
  "OUTBOUND_SRC_MAC = 0x0c42a14aff01"

record arp_table_info =
  arp_table_hdl :: hdl
  arp_kid_opcode :: bf_rt_id
  arp_kid_target_proto_addr :: bf_rt_id
  arp_aid_reply_arp :: bf_rt_id
  arp_did_arp_mac :: bf_rt_id
  arp_key_hdl :: hdl
  arp_data_hdl :: hdl

record arp_table_entry =
  ae_opcode :: u16
  ae_target_proto_addr :: u32
  ae_arp_mac :: u64

record dip_lookup_table_info =
  dip_table_hdl :: hdl
  dip_kid_src_ip :: bf_rt_id
  dip_kid_src_port :: bf_rt_id
  dip_aid_dip_hit :: bf_rt_id
  dip_key_hdl :: hdl
  dip_data_hdl :: hdl

record dip_lookup_table_entry =
  dpe_src_ip :: u32
  dpe_src_port :: u16

record offload_connection_table_info =
  oft_table_hdl :: hdl
  oft_kid_cip :: bf_rt_id
  oft_kid_cport :: bf_rt_id
  oft_aid_oft_hit :: bf_rt_id
  oft_did_d_index :: bf_rt_id
  oft_key_hdl :: "hdl list"
  oft_data_hdl :: "hdl list"

record dest_to_egress_port_table_info =
  dst_table_hdl :: hdl
  dst_kid_dst_addr :: bf_rt_id
  dst_aid_set_egress_port :: bf_rt_id
  dst_did_src_mac :: bf_rt_id
  dst_did_dst_mac :: bf_rt_id
  dst_did_dst_port :: bf_rt_id
  dst_key_hdl :: hdl
  dst_data_hdl :: hdl

record dest_to_egress_port_table_entry =
  dse_dst_addr :: u32
  dse_prefix_len :: u16
  dse_src_mac :: u64
  dse_dst_mac :: u64
  dse_dst_port :: u16

record d_index_to_egress_port_table_info =
  dix_table_hdl :: hdl
  dix_kid_d_index :: bf_rt_id
  dix_aid_set_egress_port :: bf_rt_id
  dix_did_src_mac :: bf_rt_id
  dix_did_dst_mac :: bf_rt_id
  dix_did_dst_port :: bf_rt_id
  dix_key_hdl :: hdl
  dix_data_hdl :: hdl

record d_index_to_egress_port_table_entry =
  dxe_d_index :: u32
  dxe_src_mac :: u64
  dxe_dst_mac :: u64
  dxe_dst_port :: u16

record lb_index_to_egress_port_table_info =
  lbx_table_hdl :: hdl
  lbx_kid_lb_index :: bf_rt_id
  lbx_aid_set_egress_port :: bf_rt_id
  lbx_did_src_mac :: bf_rt_id
  lbx_did_dst_mac :: bf_rt_id
  lbx_did_dst_port :: bf_rt_id
  lbx_key_hdl :: hdl
  lbx_data_hdl :: hdl

record lb_index_to_egress_port_table_entry =
  lbe_lb_index :: u8
  lbe_src_mac :: u64
  lbe_dst_mac :: u64
  lbe_dst_port :: u16

record d_index_to_ip_port_table_info =
  ipp_table_hdl :: hdl
  ipp_kid_d_index :: bf_rt_id
  ipp_aid_set_dst_ip_port :: bf_rt_id
  ipp_did_dst_ip :: bf_rt_id
  ipp_did_dst_port :: bf_rt_id
  ipp_key_hdl :: hdl
  ipp_data_hdl :: hdl

record d_index_to_ip_port_table_entry =
  ipe_d_index :: u32
  ipe_dst_ip :: u32
  ipe_dst_port :: u16

section \<open>Start-up\<close>

definition init_switch :: "'s bf_rt \<Rightarrow> (string \<Rightarrow> string option) \<Rightarrow> string \<Rightarrow> (bf_rt_target, 's) prog" where
  "init_switch D getenv prog_name =
     (case getenv ''SDE_INSTALL'' of
        None \<Rightarrow> (\<lambda>s. (Crash, s))
      | Some dir \<Rightarrow>
        (let conf = dir @ ''/share/p4/targets/tofino/'' @ prog_name @ ''.conf'' in
         if length conf \<ge> 256 then (\<lambda>s. (Crash, s))
         else
           check ''Failed to init switchd'' (bf_switchd_lib_init D \<lparr>install_dir = dir, conf_file = conf,
             running_in_background = True, dev_sts_thread = True, dev_sts_port = 7777, kernel_pkt = True\<rparr>) (\<lambda>_.
           ret \<lparr>dev_id = 0, pipe_id = BF_DEV_PIPE_ALL D\<rparr>)))"

definition init_bf_rt :: "'s bf_rt \<Rightarrow> bf_rt_target \<Rightarrow> string \<Rightarrow> (hdl \<times> hdl, 's) prog" where
  "init_bf_rt D dev_tgt prog_name =
     check ''Failed to get bf_rt_info'' (bf_rt_info_get D (dev_id dev_tgt) prog_name) (\<lambda>bf_rt_info.
     check ''Failed to create session'' (bf_rt_session_create D) (\<lambda>session.
     ret (bf_rt_info, session)))"

section \<open>Setting up the tables\<close>

definition setup_arp_table :: "'s bf_rt \<Rightarrow> hdl \<Rightarrow> (arp_table_info, 's) prog" where
  "setup_arp_table D bf_rt_info =
     check ''Failed to get arp_table'' (bf_rt_table_from_name_get D bf_rt_info ''SwitchIngress.arp_table'') (\<lambda>table_hdl.
     check ''Failed to allocate arp_key'' (bf_rt_table_key_allocate D table_hdl) (\<lambda>key_hdl.
     check ''Failed to allocate arp_data'' (bf_rt_table_data_allocate D table_hdl) (\<lambda>data_hdl.
     check ''Failed to get kid_arp_opcode'' (bf_rt_key_field_id_get D table_hdl ''hdr.arp.opcode'') (\<lambda>kid_opcode.
     check ''Failed to get kid_arp_target_proto_addr'' (bf_rt_key_field_id_get D table_hdl ''hdr.arp.target_proto_addr'') (\<lambda>kid_target_proto_addr.
     check ''Failed to get aid_reply_arp'' (bf_rt_action_name_to_id D table_hdl ''SwitchIngress.reply_arp'') (\<lambda>aid_reply_arp.
     check ''Failed to get did_arp_mac'' (bf_rt_data_field_id_with_action_get D table_hdl ''arp_mac'' aid_reply_arp) (\<lambda>did_arp_mac.
     check ''Failed to reset data'' (bf_rt_table_action_data_reset D table_hdl aid_reply_arp data_hdl) (\<lambda>data_hdl.
     ret \<lparr>arp_table_hdl = table_hdl, arp_kid_opcode = kid_opcode, arp_kid_target_proto_addr = kid_target_proto_addr,
       arp_aid_reply_arp = aid_reply_arp, arp_did_arp_mac = did_arp_mac, arp_key_hdl = key_hdl, arp_data_hdl = data_hdl\<rparr>))))))))"

definition setup_dip_lookup_table :: "'s bf_rt \<Rightarrow> hdl \<Rightarrow> (dip_lookup_table_info, 's) prog" where
  "setup_dip_lookup_table D bf_rt_info =
     check ''Failed to get dip_lookup_table'' (bf_rt_table_from_name_get D bf_rt_info ''SwitchIngress.dip_lookup_table'') (\<lambda>table_hdl.
     check ''Failed to allocate dip_lookup_key'' (bf_rt_table_key_allocate D table_hdl) (\<lambda>key_hdl.
     check ''Failed to allocate dip_lookup_data'' (bf_rt_table_data_allocate D table_hdl) (\<lambda>data_hdl.
     check ''Failed to get kid_src_ip'' (bf_rt_key_field_id_get D table_hdl ''hdr.ipv4.src_addr'') (\<lambda>kid_src_ip.
     check ''Failed to get kid_src_port'' (bf_rt_key_field_id_get D table_hdl ''hdr.tcp.src_port'') (\<lambda>kid_src_port.
     check ''Failed to get aid_dip_hit'' (bf_rt_action_name_to_id D table_hdl ''SwitchIngress.dip_hit'') (\<lambda>aid_dip_hit.
     check ''Failed to reset dip_lookup_table_data'' (bf_rt_table_action_data_reset D table_hdl aid_dip_hit data_hdl) (\<lambda>data_hdl.
     ret \<lparr>dip_table_hdl = table_hdl, dip_kid_src_ip = kid_src_ip, dip_kid_src_port = kid_src_port,
       dip_aid_dip_hit = aid_dip_hit, dip_key_hdl = key_hdl, dip_data_hdl = data_hdl\<rparr>)))))))"

text \<open>The 256 key and data objects of the offload table; the two lists are the objects allocated so far.\<close>

definition allocate_oft :: "'s bf_rt \<Rightarrow> hdl \<Rightarrow> bf_rt_id \<Rightarrow> nat \<Rightarrow> hdl list \<times> hdl list \<Rightarrow> (hdl list \<times> hdl list, 's) prog" where
  "allocate_oft D table_hdl aid_oft_hit = (\<lambda>i (keys, datas).
     check ''Failed to allocate offload_connection_key'' (bf_rt_table_key_allocate D table_hdl) (\<lambda>key_hdl.
     check ''Failed to allocate offload_connection_data'' (bf_rt_table_data_allocate D table_hdl) (\<lambda>data_hdl.
     check ''Failed to reset offload_connection_data'' (bf_rt_table_action_data_reset D table_hdl aid_oft_hit data_hdl) (\<lambda>data_hdl.
     ret (keys @ [key_hdl], datas @ [data_hdl])))))"

definition setup_offload_connection_table :: "'s bf_rt \<Rightarrow> hdl \<Rightarrow> (offload_connection_table_info, 's) prog" where
  "setup_offload_connection_table D bf_rt_info =
     check ''Failed to get offload_connection_table'' (bf_rt_table_from_name_get D bf_rt_info ''SwitchIngress.offload_connection_table'') (\<lambda>table_hdl.
     check ''Failed to get kid_cip'' (bf_rt_key_field_id_get D table_hdl ''ig_md.cip'') (\<lambda>kid_cip.
     check ''Failed to get kid_cport'' (bf_rt_key_field_id_get D table_hdl ''ig_md.cport'') (\<lambda>kid_cport.
     check ''Failed to get aid_oft_hit'' (bf_rt_action_name_to_id D table_hdl ''SwitchIngress.oft_hit'') (\<lambda>aid_oft_hit.
     check ''Failed to get did_oft_d_index'' (bf_rt_data_field_id_with_action_get D table_hdl ''d_index'' aid_oft_hit) (\<lambda>did_d_index.
     seq (for_each (allocate_oft D table_hdl aid_oft_hit) [0..<256] ([], [])) (\<lambda>(keys, datas).
     ret \<lparr>oft_table_hdl = table_hdl, oft_kid_cip = kid_cip, oft_kid_cport = kid_cport, oft_aid_oft_hit = aid_oft_hit,
       oft_did_d_index = did_d_index, oft_key_hdl = keys, oft_data_hdl = datas\<rparr>))))))"

definition setup_dest_to_egress_port_table :: "'s bf_rt \<Rightarrow> hdl \<Rightarrow> (dest_to_egress_port_table_info, 's) prog" where
  "setup_dest_to_egress_port_table D bf_rt_info =
     check ''Failed to get dest_to_egress_port_table'' (bf_rt_table_from_name_get D bf_rt_info ''SwitchIngress.dest_to_egress_port_table'') (\<lambda>table_hdl.
     check ''Failed to allocate dest_to_egress_port_key'' (bf_rt_table_key_allocate D table_hdl) (\<lambda>key_hdl.
     check ''Failed to allocate dest_to_egress_port_data'' (bf_rt_table_data_allocate D table_hdl) (\<lambda>data_hdl.
     check ''Failed to get kid_dst_addr'' (bf_rt_key_field_id_get D table_hdl ''hdr.ipv4.dst_addr'') (\<lambda>kid_dst_addr.
     check ''Failed to get aid_set_egres_port'' (bf_rt_action_name_to_id D table_hdl ''SwitchIngress.set_egress_port'') (\<lambda>aid_set_egress_port.
     check ''Failed to get did_src_mac'' (bf_rt_data_field_id_with_action_get D table_hdl ''src_mac'' aid_set_egress_port) (\<lambda>did_src_mac.
     check ''Failed to get did_dst_mac'' (bf_rt_data_field_id_with_action_get D table_hdl ''dst_mac'' aid_set_egress_port) (\<lambda>did_dst_mac.
     check ''Failed to get did_dst_port'' (bf_rt_data_field_id_with_action_get D table_hdl ''dst_port'' aid_set_egress_port) (\<lambda>did_dst_port.
     check ''Failed to reset dest_to_egress_port_table_data'' (bf_rt_table_action_data_reset D table_hdl aid_set_egress_port data_hdl) (\<lambda>data_hdl.
     ret \<lparr>dst_table_hdl = table_hdl, dst_kid_dst_addr = kid_dst_addr, dst_aid_set_egress_port = aid_set_egress_port,
       dst_did_src_mac = did_src_mac, dst_did_dst_mac = did_dst_mac, dst_did_dst_port = did_dst_port,
       dst_key_hdl = key_hdl, dst_data_hdl = data_hdl\<rparr>)))))))))"

definition setup_d_index_to_egress_port_table :: "'s bf_rt \<Rightarrow> hdl \<Rightarrow> (d_index_to_egress_port_table_info, 's) prog" where
  "setup_d_index_to_egress_port_table D bf_rt_info =
     check ''Failed to get d_index_to_egress_port_table'' (bf_rt_table_from_name_get D bf_rt_info ''SwitchIngress.d_index_to_egress_port_table'') (\<lambda>table_hdl.
     check ''Failed to allocate d_index_to_egress_port_key'' (bf_rt_table_key_allocate D table_hdl) (\<lambda>key_hdl.
     check ''Failed to allocate d_index_to_egress_port_data'' (bf_rt_table_data_allocate D table_hdl) (\<lambda>data_hdl.
     check ''Failed to get kid_d_index'' (bf_rt_key_field_id_get D table_hdl ''hdr.bridged.index'') (\<lambda>kid_d_index.
     check ''Failed to get aid_set_egres_port'' (bf_rt_action_name_to_id D table_hdl ''SwitchIngress.set_egress_port'') (\<lambda>aid_set_egress_port.
     check ''Failed to get did_src_mac'' (bf_rt_data_field_id_with_action_get D table_hdl ''src_mac'' aid_set_egress_port) (\<lambda>did_src_mac.
     check ''Failed to get did_dst_mac'' (bf_rt_data_field_id_with_action_get D table_hdl ''dst_mac'' aid_set_egress_port) (\<lambda>did_dst_mac.
     check ''Failed to get did_dst_port'' (bf_rt_data_field_id_with_action_get D table_hdl ''dst_port'' aid_set_egress_port) (\<lambda>did_dst_port.
     check ''Failed to reset d_index_to_egress_port_table_data'' (bf_rt_table_action_data_reset D table_hdl aid_set_egress_port data_hdl) (\<lambda>data_hdl.
     ret \<lparr>dix_table_hdl = table_hdl, dix_kid_d_index = kid_d_index, dix_aid_set_egress_port = aid_set_egress_port,
       dix_did_src_mac = did_src_mac, dix_did_dst_mac = did_dst_mac, dix_did_dst_port = did_dst_port,
       dix_key_hdl = key_hdl, dix_data_hdl = data_hdl\<rparr>)))))))))"

definition setup_lb_index_to_egress_port_table :: "'s bf_rt \<Rightarrow> hdl \<Rightarrow> (lb_index_to_egress_port_table_info, 's) prog" where
  "setup_lb_index_to_egress_port_table D bf_rt_info =
     check ''Failed to get lb_index_to_egress_port_table'' (bf_rt_table_from_name_get D bf_rt_info ''SwitchIngress.lb_index_to_egress_port_table'') (\<lambda>table_hdl.
     check ''Failed to get kid_lb_index'' (bf_rt_key_field_id_get D table_hdl ''ig_md.hash_result'') (\<lambda>kid_lb_index.
     check ''Failed to get aid_set_egres_port'' (bf_rt_action_name_to_id D table_hdl ''SwitchIngress.set_egress_port'') (\<lambda>aid_set_egress_port.
     check ''Failed to get did_src_mac'' (bf_rt_data_field_id_with_action_get D table_hdl ''src_mac'' aid_set_egress_port) (\<lambda>did_src_mac.
     check ''Failed to get did_dst_mac'' (bf_rt_data_field_id_with_action_get D table_hdl ''dst_mac'' aid_set_egress_port) (\<lambda>did_dst_mac.
     check ''Failed to get did_dst_port'' (bf_rt_data_field_id_with_action_get D table_hdl ''dst_port'' aid_set_egress_port) (\<lambda>did_dst_port.
     check ''Failed to allocate lb_index_to_egress_port_key'' (bf_rt_table_key_allocate D table_hdl) (\<lambda>key_hdl.
     check ''Failed to allocate lb_index_to_egress_port_data'' (bf_rt_table_data_allocate D table_hdl) (\<lambda>data_hdl.
     check ''Failed to reset lb_index_to_egress_port_table_data'' (bf_rt_table_action_data_reset D table_hdl aid_set_egress_port data_hdl) (\<lambda>data_hdl.
     ret \<lparr>lbx_table_hdl = table_hdl, lbx_kid_lb_index = kid_lb_index, lbx_aid_set_egress_port = aid_set_egress_port,
       lbx_did_src_mac = did_src_mac, lbx_did_dst_mac = did_dst_mac, lbx_did_dst_port = did_dst_port,
       lbx_key_hdl = key_hdl, lbx_data_hdl = data_hdl\<rparr>)))))))))"

definition setup_d_index_to_ip_port_table :: "'s bf_rt \<Rightarrow> hdl \<Rightarrow> (d_index_to_ip_port_table_info, 's) prog" where
  "setup_d_index_to_ip_port_table D bf_rt_info =
     check ''Failed to get d_index_to_ip_port_table'' (bf_rt_table_from_name_get D bf_rt_info ''SwitchEgress.d_index_to_ip_port_table'') (\<lambda>table_hdl.
     check ''Failed to allocate d_index_to_ip_port_key'' (bf_rt_table_key_allocate D table_hdl) (\<lambda>key_hdl.
     check ''Failed to allocate d_index_to_ip_port_data'' (bf_rt_table_data_allocate D table_hdl) (\<lambda>data_hdl.
     check ''Failed to get kid_d_index'' (bf_rt_key_field_id_get D table_hdl ''eg_md.bridged.index'') (\<lambda>kid_d_index.
     check ''Failed to get aid_set_ip_port'' (bf_rt_action_name_to_id D table_hdl ''SwitchEgress.set_dst_ip_port'') (\<lambda>aid_set_dst_ip_port.
     check ''Failed to get did_dst_ip'' (bf_rt_data_field_id_with_action_get D table_hdl ''dst_ip'' aid_set_dst_ip_port) (\<lambda>did_dst_ip.
     check ''Failed to get did_dst_port'' (bf_rt_data_field_id_with_action_get D table_hdl ''dst_port'' aid_set_dst_ip_port) (\<lambda>did_dst_port.
     check ''Failed to reset dest_to_egress_port_table_data'' (bf_rt_table_action_data_reset D table_hdl aid_set_dst_ip_port data_hdl) (\<lambda>data_hdl.
     ret \<lparr>ipp_table_hdl = table_hdl, ipp_kid_d_index = kid_d_index, ipp_aid_set_dst_ip_port = aid_set_dst_ip_port,
       ipp_did_dst_ip = did_dst_ip, ipp_did_dst_port = did_dst_port, ipp_key_hdl = key_hdl, ipp_data_hdl = data_hdl\<rparr>))))))))"

section \<open>Adding entries\<close>

text \<open>
  Each loop body and its loop; \<open>session\<close> and \<open>dev_tgt\<close> are the static variables of that name.
\<close>

definition add_arp_body :: "'s bf_rt \<Rightarrow> hdl \<Rightarrow> bf_rt_target \<Rightarrow> arp_table_entry \<Rightarrow> arp_table_info \<Rightarrow> (arp_table_info, 's) prog" where
  "add_arp_body D session dev_tgt e i =
     check ''Failed to set arp_key'' (bf_rt_key_field_set_value D (arp_key_hdl i) (arp_kid_opcode i) (ucast (ae_opcode e))) (\<lambda>_.
     check ''Failed to set arp_key'' (bf_rt_key_field_set_value D (arp_key_hdl i) (arp_kid_target_proto_addr i) (ucast (ae_target_proto_addr e))) (\<lambda>_.
     ignore (arp_data_hdl i) (bf_rt_table_action_data_reset D (arp_table_hdl i) (arp_aid_reply_arp i) (arp_data_hdl i)) (\<lambda>data_hdl. let i = i\<lparr>arp_data_hdl := data_hdl\<rparr> in
     check ''Failed to set arp_data'' (bf_rt_data_field_set_value D (arp_data_hdl i) (arp_did_arp_mac i) (ae_arp_mac e)) (\<lambda>_.
     check ''Failed to add arp_entry'' (bf_rt_table_entry_add D (arp_table_hdl i) session dev_tgt (arp_key_hdl i) (arp_data_hdl i)) (\<lambda>_.
     check ''Failed to complete operations'' (bf_rt_session_complete_operations D session) (\<lambda>_.
     ret i))))))"

definition add_arp_table_entry ::
  "'s bf_rt \<Rightarrow> hdl \<Rightarrow> bf_rt_target \<Rightarrow> arp_table_entry list \<Rightarrow> arp_table_info \<Rightarrow> (arp_table_info, 's) prog" where
  "add_arp_table_entry D session dev_tgt = for_each (add_arp_body D session dev_tgt)"

definition add_dip_body :: "'s bf_rt \<Rightarrow> hdl \<Rightarrow> bf_rt_target \<Rightarrow> dip_lookup_table_entry \<Rightarrow> dip_lookup_table_info \<Rightarrow> (dip_lookup_table_info, 's) prog" where
  "add_dip_body D session dev_tgt e i =
     check ''Failed to set src_ip'' (bf_rt_key_field_set_value D (dip_key_hdl i) (dip_kid_src_ip i) (ucast (dpe_src_ip e))) (\<lambda>_.
     check ''Failed to set src_port'' (bf_rt_key_field_set_value D (dip_key_hdl i) (dip_kid_src_port i) (ucast (dpe_src_port e))) (\<lambda>_.
     check ''Failed to add dip_lookup_table_entry'' (bf_rt_table_entry_add D (dip_table_hdl i) session dev_tgt (dip_key_hdl i) (dip_data_hdl i)) (\<lambda>_.
     check ''Failed to complete operations'' (bf_rt_session_complete_operations D session) (\<lambda>_.
     ret i))))"

definition add_dip_lookup_table_entry ::
  "'s bf_rt \<Rightarrow> hdl \<Rightarrow> bf_rt_target \<Rightarrow> dip_lookup_table_entry list \<Rightarrow> dip_lookup_table_info \<Rightarrow> (dip_lookup_table_info, 's) prog" where
  "add_dip_lookup_table_entry D session dev_tgt = for_each (add_dip_body D session dev_tgt)"

definition add_dst_body :: "'s bf_rt \<Rightarrow> hdl \<Rightarrow> bf_rt_target \<Rightarrow> dest_to_egress_port_table_entry \<Rightarrow> dest_to_egress_port_table_info \<Rightarrow> (dest_to_egress_port_table_info, 's) prog" where
  "add_dst_body D session dev_tgt e i =
     check ''Failed to set dst_addr'' (bf_rt_key_field_set_value_lpm D (dst_key_hdl i) (dst_kid_dst_addr i) (ucast (dse_dst_addr e)) (dse_prefix_len e)) (\<lambda>_.
     check ''Failed to set src_mac'' (bf_rt_data_field_set_value D (dst_data_hdl i) (dst_did_src_mac i) (dse_src_mac e)) (\<lambda>_.
     check ''Failed to set dst_mac'' (bf_rt_data_field_set_value D (dst_data_hdl i) (dst_did_dst_mac i) (dse_dst_mac e)) (\<lambda>_.
     check ''Failed to set dst_port'' (bf_rt_data_field_set_value D (dst_data_hdl i) (dst_did_dst_port i) (ucast (dse_dst_port e))) (\<lambda>_.
     check ''Failed to add dest_to_egress_port_table_entry'' (bf_rt_table_entry_add D (dst_table_hdl i) session dev_tgt (dst_key_hdl i) (dst_data_hdl i)) (\<lambda>_.
     check ''Failed to complete operations'' (bf_rt_session_complete_operations D session) (\<lambda>_.
     ret i))))))"

definition add_dest_to_egress_port_table_entry ::
  "'s bf_rt \<Rightarrow> hdl \<Rightarrow> bf_rt_target \<Rightarrow> dest_to_egress_port_table_entry list \<Rightarrow> dest_to_egress_port_table_info \<Rightarrow> (dest_to_egress_port_table_info, 's) prog" where
  "add_dest_to_egress_port_table_entry D session dev_tgt = for_each (add_dst_body D session dev_tgt)"

definition add_dix_body :: "'s bf_rt \<Rightarrow> hdl \<Rightarrow> bf_rt_target \<Rightarrow> d_index_to_egress_port_table_entry \<Rightarrow> d_index_to_egress_port_table_info \<Rightarrow> (d_index_to_egress_port_table_info, 's) prog" where
  "add_dix_body D session dev_tgt e i =
     check ''Failed to set d_index'' (bf_rt_key_field_set_value D (dix_key_hdl i) (dix_kid_d_index i) (ucast (dxe_d_index e))) (\<lambda>_.
     check ''Failed to set src_mac'' (bf_rt_data_field_set_value D (dix_data_hdl i) (dix_did_src_mac i) (INBOUND_SRC_MAC)) (\<lambda>_.
     check ''Failed to set dst_mac'' (bf_rt_data_field_set_value D (dix_data_hdl i) (dix_did_dst_mac i) (dxe_dst_mac e)) (\<lambda>_.
     check ''Failed to set dst_port'' (bf_rt_data_field_set_value D (dix_data_hdl i) (dix_did_dst_port i) (ucast (dxe_dst_port e))) (\<lambda>_.
     check ''Failed to add d_index_to_egress_port_table_entry'' (bf_rt_table_entry_add D (dix_table_hdl i) session dev_tgt (dix_key_hdl i) (dix_data_hdl i)) (\<lambda>_.
     check ''Failed to complete operations'' (bf_rt_session_complete_operations D session) (\<lambda>_.
     ret i))))))"

definition add_d_index_to_egress_port_table_entry ::
  "'s bf_rt \<Rightarrow> hdl \<Rightarrow> bf_rt_target \<Rightarrow> d_index_to_egress_port_table_entry list \<Rightarrow> d_index_to_egress_port_table_info \<Rightarrow> (d_index_to_egress_port_table_info, 's) prog" where
  "add_d_index_to_egress_port_table_entry D session dev_tgt = for_each (add_dix_body D session dev_tgt)"

definition add_lbx_body :: "'s bf_rt \<Rightarrow> hdl \<Rightarrow> bf_rt_target \<Rightarrow> lb_index_to_egress_port_table_entry \<Rightarrow> lb_index_to_egress_port_table_info \<Rightarrow> (lb_index_to_egress_port_table_info, 's) prog" where
  "add_lbx_body D session dev_tgt e i =
     check ''Failed to reset lb_index'' (bf_rt_table_key_reset D (lbx_table_hdl i) (lbx_key_hdl i)) (\<lambda>key_hdl. let i = i\<lparr>lbx_key_hdl := key_hdl\<rparr> in
     check ''Failed to set lb_index'' (bf_rt_key_field_set_value D (lbx_key_hdl i) (lbx_kid_lb_index i) (ucast (lbe_lb_index e))) (\<lambda>_.
     check ''Failed to reset lb_index'' (bf_rt_table_action_data_reset D (lbx_table_hdl i) (lbx_aid_set_egress_port i) (lbx_data_hdl i)) (\<lambda>data_hdl. let i = i\<lparr>lbx_data_hdl := data_hdl\<rparr> in
     check ''Failed to set src_mac'' (bf_rt_data_field_set_value D (lbx_data_hdl i) (lbx_did_src_mac i) (INBOUND_SRC_MAC)) (\<lambda>_.
     check ''Failed to set dst_mac'' (bf_rt_data_field_set_value D (lbx_data_hdl i) (lbx_did_dst_mac i) (lbe_dst_mac e)) (\<lambda>_.
     check ''Failed to set dst_port'' (bf_rt_data_field_set_value D (lbx_data_hdl i) (lbx_did_dst_port i) (ucast (lbe_dst_port e))) (\<lambda>_.
     check ''Failed to add lb_index_to_egress_port_table_entry'' (bf_rt_table_entry_add D (lbx_table_hdl i) session dev_tgt (lbx_key_hdl i) (lbx_data_hdl i)) (\<lambda>_.
     check ''Failed to complete operations'' (bf_rt_session_complete_operations D session) (\<lambda>_.
     ret i))))))))"

definition add_lb_index_to_egress_port_table_entry ::
  "'s bf_rt \<Rightarrow> hdl \<Rightarrow> bf_rt_target \<Rightarrow> lb_index_to_egress_port_table_entry list \<Rightarrow> lb_index_to_egress_port_table_info \<Rightarrow> (lb_index_to_egress_port_table_info, 's) prog" where
  "add_lb_index_to_egress_port_table_entry D session dev_tgt = for_each (add_lbx_body D session dev_tgt)"

definition add_ipp_body :: "'s bf_rt \<Rightarrow> hdl \<Rightarrow> bf_rt_target \<Rightarrow> d_index_to_ip_port_table_entry \<Rightarrow> d_index_to_ip_port_table_info \<Rightarrow> (d_index_to_ip_port_table_info, 's) prog" where
  "add_ipp_body D session dev_tgt e i =
     check ''Failed to set d_index'' (bf_rt_key_field_set_value D (ipp_key_hdl i) (ipp_kid_d_index i) (ucast (ipe_d_index e))) (\<lambda>_.
     check ''Failed to set dst_ip'' (bf_rt_data_field_set_value D (ipp_data_hdl i) (ipp_did_dst_ip i) (ucast (ipe_dst_ip e))) (\<lambda>_.
     check ''Failed to set dst_port'' (bf_rt_data_field_set_value D (ipp_data_hdl i) (ipp_did_dst_port i) (ucast (ipe_dst_port e))) (\<lambda>_.
     check ''Failed to add d_index_to_ip_port_table_entry'' (bf_rt_table_entry_add D (ipp_table_hdl i) session dev_tgt (ipp_key_hdl i) (ipp_data_hdl i)) (\<lambda>_.
     check ''Failed to complete operations'' (bf_rt_session_complete_operations D session) (\<lambda>_.
     ret i)))))"

definition add_d_index_to_ip_port_table_entry ::
  "'s bf_rt \<Rightarrow> hdl \<Rightarrow> bf_rt_target \<Rightarrow> d_index_to_ip_port_table_entry list \<Rightarrow> d_index_to_ip_port_table_info \<Rightarrow> (d_index_to_ip_port_table_info, 's) prog" where
  "add_d_index_to_ip_port_table_entry D session dev_tgt = for_each (add_ipp_body D session dev_tgt)"

section \<open>What the loops add\<close>

text \<open>
  For every table: the condition on its key and data object that the set-up establishes and every
  iteration keeps, and the entry that an element of the array stands for.
\<close>

definition arp_ready :: "arp_table_info \<Rightarrow> driver_view \<Rightarrow> bool" where
  "arp_ready i v \<longleftrightarrow> dom (d_key v (arp_key_hdl i)) \<subseteq> {arp_kid_opcode i, arp_kid_target_proto_addr i} \<and>
     fst (d_data v (arp_data_hdl i)) = arp_aid_reply_arp i \<and> dom (snd (d_data v (arp_data_hdl i))) \<subseteq> {arp_did_arp_mac i}"

definition arp_key :: "arp_table_info \<Rightarrow> arp_table_entry \<Rightarrow> match" where
  "arp_key i e = [arp_kid_opcode i \<mapsto> Exact (ucast (ae_opcode e)), arp_kid_target_proto_addr i \<mapsto> Exact (ucast (ae_target_proto_addr e))]"

definition arp_act :: "arp_table_info \<Rightarrow> arp_table_entry \<Rightarrow> action" where
  "arp_act i e = (arp_aid_reply_arp i, [arp_did_arp_mac i \<mapsto> ae_arp_mac e])"

definition dip_ready :: "dip_lookup_table_info \<Rightarrow> driver_view \<Rightarrow> bool" where
  "dip_ready i v \<longleftrightarrow> dom (d_key v (dip_key_hdl i)) \<subseteq> {dip_kid_src_ip i, dip_kid_src_port i} \<and>
     d_data v (dip_data_hdl i) = (dip_aid_dip_hit i, Map.empty)"

definition dip_key :: "dip_lookup_table_info \<Rightarrow> dip_lookup_table_entry \<Rightarrow> match" where
  "dip_key i e = [dip_kid_src_ip i \<mapsto> Exact (ucast (dpe_src_ip e)), dip_kid_src_port i \<mapsto> Exact (ucast (dpe_src_port e))]"

definition dip_act :: "dip_lookup_table_info \<Rightarrow> dip_lookup_table_entry \<Rightarrow> action" where
  "dip_act i e = (dip_aid_dip_hit i, Map.empty)"

definition dst_ready :: "dest_to_egress_port_table_info \<Rightarrow> driver_view \<Rightarrow> bool" where
  "dst_ready i v \<longleftrightarrow> dom (d_key v (dst_key_hdl i)) \<subseteq> {dst_kid_dst_addr i} \<and>
     fst (d_data v (dst_data_hdl i)) = dst_aid_set_egress_port i \<and> dom (snd (d_data v (dst_data_hdl i))) \<subseteq> {dst_did_src_mac i, dst_did_dst_mac i, dst_did_dst_port i}"

definition dst_key :: "dest_to_egress_port_table_info \<Rightarrow> dest_to_egress_port_table_entry \<Rightarrow> match" where
  "dst_key i e = [dst_kid_dst_addr i \<mapsto> Lpm (ucast (dse_dst_addr e)) (dse_prefix_len e)]"

definition dst_act :: "dest_to_egress_port_table_info \<Rightarrow> dest_to_egress_port_table_entry \<Rightarrow> action" where
  "dst_act i e = (dst_aid_set_egress_port i,
     [dst_did_src_mac i \<mapsto> dse_src_mac e, dst_did_dst_mac i \<mapsto> dse_dst_mac e, dst_did_dst_port i \<mapsto> ucast (dse_dst_port e)])"

definition dix_ready :: "d_index_to_egress_port_table_info \<Rightarrow> driver_view \<Rightarrow> bool" where
  "dix_ready i v \<longleftrightarrow> dom (d_key v (dix_key_hdl i)) \<subseteq> {dix_kid_d_index i} \<and>
     fst (d_data v (dix_data_hdl i)) = dix_aid_set_egress_port i \<and> dom (snd (d_data v (dix_data_hdl i))) \<subseteq> {dix_did_src_mac i, dix_did_dst_mac i, dix_did_dst_port i}"

definition dix_key :: "d_index_to_egress_port_table_info \<Rightarrow> d_index_to_egress_port_table_entry \<Rightarrow> match" where
  "dix_key i e = [dix_kid_d_index i \<mapsto> Exact (ucast (dxe_d_index e))]"

definition dix_act :: "d_index_to_egress_port_table_info \<Rightarrow> d_index_to_egress_port_table_entry \<Rightarrow> action" where
  "dix_act i e = (dix_aid_set_egress_port i,
     [dix_did_src_mac i \<mapsto> INBOUND_SRC_MAC, dix_did_dst_mac i \<mapsto> dxe_dst_mac e, dix_did_dst_port i \<mapsto> ucast (dxe_dst_port e)])"

definition lbx_ready :: "lb_index_to_egress_port_table_info \<Rightarrow> driver_view \<Rightarrow> bool" where
  "lbx_ready i v \<longleftrightarrow> dom (d_key v (lbx_key_hdl i)) \<subseteq> {lbx_kid_lb_index i} \<and>
     fst (d_data v (lbx_data_hdl i)) = lbx_aid_set_egress_port i \<and> dom (snd (d_data v (lbx_data_hdl i))) \<subseteq> {lbx_did_src_mac i, lbx_did_dst_mac i, lbx_did_dst_port i}"

definition lbx_key :: "lb_index_to_egress_port_table_info \<Rightarrow> lb_index_to_egress_port_table_entry \<Rightarrow> match" where
  "lbx_key i e = [lbx_kid_lb_index i \<mapsto> Exact (ucast (lbe_lb_index e))]"

definition lbx_act :: "lb_index_to_egress_port_table_info \<Rightarrow> lb_index_to_egress_port_table_entry \<Rightarrow> action" where
  "lbx_act i e = (lbx_aid_set_egress_port i,
     [lbx_did_src_mac i \<mapsto> INBOUND_SRC_MAC, lbx_did_dst_mac i \<mapsto> lbe_dst_mac e, lbx_did_dst_port i \<mapsto> ucast (lbe_dst_port e)])"

definition ipp_ready :: "d_index_to_ip_port_table_info \<Rightarrow> driver_view \<Rightarrow> bool" where
  "ipp_ready i v \<longleftrightarrow> dom (d_key v (ipp_key_hdl i)) \<subseteq> {ipp_kid_d_index i} \<and>
     fst (d_data v (ipp_data_hdl i)) = ipp_aid_set_dst_ip_port i \<and> dom (snd (d_data v (ipp_data_hdl i))) \<subseteq> {ipp_did_dst_ip i, ipp_did_dst_port i}"

definition ipp_key :: "d_index_to_ip_port_table_info \<Rightarrow> d_index_to_ip_port_table_entry \<Rightarrow> match" where
  "ipp_key i e = [ipp_kid_d_index i \<mapsto> Exact (ucast (ipe_d_index e))]"

definition ipp_act :: "d_index_to_ip_port_table_info \<Rightarrow> d_index_to_ip_port_table_entry \<Rightarrow> action" where
  "ipp_act i e = (ipp_aid_set_dst_ip_port i, [ipp_did_dst_ip i \<mapsto> ucast (ipe_dst_ip e), ipp_did_dst_port i \<mapsto> ucast (ipe_dst_port e)])"

lemmas view_defs = set_key_def set_data_def reset_key_def reset_data_def put_entry_def puts_def

text \<open>Setting all fields of an object that has no others leaves exactly these fields.\<close>

lemma key_fields:
  "dom (d_key v h) \<subseteq> {a} \<Longrightarrow> (d_key v h)(a \<mapsto> x) = [a \<mapsto> x]"
  "dom (d_key v h) \<subseteq> {a, b} \<Longrightarrow> (d_key v h)(a \<mapsto> x, b \<mapsto> y) = [a \<mapsto> x, b \<mapsto> y]"
  by (rule ext, auto simp: dom_def)+

lemma data_fields:
  "dom (snd (d_data v h)) \<subseteq> {a} \<Longrightarrow> (snd (d_data v h))(a \<mapsto> x') = [a \<mapsto> x']"
  "dom (snd (d_data v h)) \<subseteq> {a, b} \<Longrightarrow> (snd (d_data v h))(a \<mapsto> x', b \<mapsto> y') = [a \<mapsto> x', b \<mapsto> y']"
  "dom (snd (d_data v h)) \<subseteq> {a, b, c} \<Longrightarrow> (snd (d_data v h))(a \<mapsto> x', b \<mapsto> y', c \<mapsto> z') = [a \<mapsto> x', b \<mapsto> y', c \<mapsto> z']"
  by (auto simp: prod_eq_iff dom_def fun_eq_iff)

lemmas field_simps' = key_fields data_fields

context bf_rt_driver begin

lemmas call_Ret = check_effect_Ret [OF key_set] check_effect_Ret [OF key_set_lpm] check_effect_Ret [OF data_set]
  check_effect_Ret [OF key_reset] check_effect_Ret [OF data_reset] check_effect_Ret [OF entry_add]
  check_effect_Ret [OF complete] ignore_effect_cases [OF data_reset]

lemmas resets_same = key_reset_same data_reset_same

lemmas call_cases = check_effect_cases [OF key_set] check_effect_cases [OF key_set_lpm] check_effect_cases [OF data_set]
  check_effect_cases [OF key_reset] check_effect_cases [OF data_reset] check_effect_cases [OF entry_add]
  check_effect_cases [OF complete] ignore_effect_cases [OF data_reset]

lemma arp_body_Ret:
  assumes "arp_ready i (view s)" "add_arp_body D ses tgt e i s = (Ret i', s')"
  shows "arp_ready i' (view s') \<and> arp_key_hdl i' = arp_key_hdl i \<and> arp_data_hdl i' = arp_data_hdl i \<and>
    arp_table_hdl i' = arp_table_hdl i \<and> arp_key i' = arp_key i \<and> arp_act i' = arp_act i \<and>
    touches {arp_key_hdl i} {arp_data_hdl i} (view s) (view s') \<and>
    arp_key i e \<notin> dom (d_table (view s) (arp_table_hdl i)) \<and>
    d_table (view s') = puts (arp_table_hdl i) (arp_key i) (arp_act i) [e] (d_table (view s))"
  using assms unfolding add_arp_body_def Let_def
  by (elim call_Ret)
    (auto simp: view_defs touches_def arp_ready_def arp_key_def arp_act_def field_simps' dest!: entry_add_new resets_same)

lemma arp_body_fail:
  assumes "arp_ready i (view s)" "add_arp_body D ses tgt e i s = (r, s')" "\<forall>i'. r \<noteq> Ret i'"
  shows "r \<noteq> Crash \<and> (d_table (view s') = d_table (view s) \<or>
    d_table (view s') = puts (arp_table_hdl i) (arp_key i) (arp_act i) [e] (d_table (view s)))"
  using assms unfolding add_arp_body_def Let_def
  by (elim call_cases)
    (auto simp: view_defs arp_ready_def arp_key_def arp_act_def field_simps' ret_def)

lemma dip_body_Ret:
  assumes "dip_ready i (view s)" "add_dip_body D ses tgt e i s = (Ret i', s')"
  shows "dip_ready i' (view s') \<and> dip_key_hdl i' = dip_key_hdl i \<and> dip_data_hdl i' = dip_data_hdl i \<and>
    dip_table_hdl i' = dip_table_hdl i \<and> dip_key i' = dip_key i \<and> dip_act i' = dip_act i \<and>
    touches {dip_key_hdl i} {dip_data_hdl i} (view s) (view s') \<and>
    dip_key i e \<notin> dom (d_table (view s) (dip_table_hdl i)) \<and>
    d_table (view s') = puts (dip_table_hdl i) (dip_key i) (dip_act i) [e] (d_table (view s))"
  using assms unfolding add_dip_body_def Let_def
  by (elim call_Ret)
    (auto simp: view_defs touches_def dip_ready_def dip_key_def dip_act_def field_simps' dest!: entry_add_new resets_same)

lemma dip_body_fail:
  assumes "dip_ready i (view s)" "add_dip_body D ses tgt e i s = (r, s')" "\<forall>i'. r \<noteq> Ret i'"
  shows "r \<noteq> Crash \<and> (d_table (view s') = d_table (view s) \<or>
    d_table (view s') = puts (dip_table_hdl i) (dip_key i) (dip_act i) [e] (d_table (view s)))"
  using assms unfolding add_dip_body_def Let_def
  by (elim call_cases)
    (auto simp: view_defs dip_ready_def dip_key_def dip_act_def field_simps' ret_def)

lemma dst_body_Ret:
  assumes "dst_ready i (view s)" "add_dst_body D ses tgt e i s = (Ret i', s')"
  shows "dst_ready i' (view s') \<and> dst_key_hdl i' = dst_key_hdl i \<and> dst_data_hdl i' = dst_data_hdl i \<and>
    dst_table_hdl i' = dst_table_hdl i \<and> dst_key i' = dst_key i \<and> dst_act i' = dst_act i \<and>
    touches {dst_key_hdl i} {dst_data_hdl i} (view s) (view s') \<and>
    dst_key i e \<notin> dom (d_table (view s) (dst_table_hdl i)) \<and>
    d_table (view s') = puts (dst_table_hdl i) (dst_key i) (dst_act i) [e] (d_table (view s))"
  using assms unfolding add_dst_body_def Let_def
  by (elim call_Ret)
    (auto simp: view_defs touches_def dst_ready_def dst_key_def dst_act_def field_simps' dest!: entry_add_new resets_same)

lemma dst_body_fail:
  assumes "dst_ready i (view s)" "add_dst_body D ses tgt e i s = (r, s')" "\<forall>i'. r \<noteq> Ret i'"
  shows "r \<noteq> Crash \<and> (d_table (view s') = d_table (view s) \<or>
    d_table (view s') = puts (dst_table_hdl i) (dst_key i) (dst_act i) [e] (d_table (view s)))"
  using assms unfolding add_dst_body_def Let_def
  by (elim call_cases)
    (auto simp: view_defs dst_ready_def dst_key_def dst_act_def field_simps' ret_def)

lemma dix_body_Ret:
  assumes "dix_ready i (view s)" "add_dix_body D ses tgt e i s = (Ret i', s')"
  shows "dix_ready i' (view s') \<and> dix_key_hdl i' = dix_key_hdl i \<and> dix_data_hdl i' = dix_data_hdl i \<and>
    dix_table_hdl i' = dix_table_hdl i \<and> dix_key i' = dix_key i \<and> dix_act i' = dix_act i \<and>
    touches {dix_key_hdl i} {dix_data_hdl i} (view s) (view s') \<and>
    dix_key i e \<notin> dom (d_table (view s) (dix_table_hdl i)) \<and>
    d_table (view s') = puts (dix_table_hdl i) (dix_key i) (dix_act i) [e] (d_table (view s))"
  using assms unfolding add_dix_body_def Let_def
  by (elim call_Ret)
    (auto simp: view_defs touches_def dix_ready_def dix_key_def dix_act_def field_simps' dest!: entry_add_new resets_same)

lemma dix_body_fail:
  assumes "dix_ready i (view s)" "add_dix_body D ses tgt e i s = (r, s')" "\<forall>i'. r \<noteq> Ret i'"
  shows "r \<noteq> Crash \<and> (d_table (view s') = d_table (view s) \<or>
    d_table (view s') = puts (dix_table_hdl i) (dix_key i) (dix_act i) [e] (d_table (view s)))"
  using assms unfolding add_dix_body_def Let_def
  by (elim call_cases)
    (auto simp: view_defs dix_ready_def dix_key_def dix_act_def field_simps' ret_def)

lemma lbx_body_Ret:
  assumes "lbx_ready i (view s)" "add_lbx_body D ses tgt e i s = (Ret i', s')"
  shows "lbx_ready i' (view s') \<and> lbx_key_hdl i' = lbx_key_hdl i \<and> lbx_data_hdl i' = lbx_data_hdl i \<and>
    lbx_table_hdl i' = lbx_table_hdl i \<and> lbx_key i' = lbx_key i \<and> lbx_act i' = lbx_act i \<and>
    touches {lbx_key_hdl i} {lbx_data_hdl i} (view s) (view s') \<and>
    lbx_key i e \<notin> dom (d_table (view s) (lbx_table_hdl i)) \<and>
    d_table (view s') = puts (lbx_table_hdl i) (lbx_key i) (lbx_act i) [e] (d_table (view s))"
  using assms unfolding add_lbx_body_def Let_def
  by (elim call_Ret)
    (auto simp: view_defs touches_def lbx_ready_def lbx_key_def lbx_act_def field_simps' dest!: entry_add_new resets_same)

lemma lbx_body_fail:
  assumes "lbx_ready i (view s)" "add_lbx_body D ses tgt e i s = (r, s')" "\<forall>i'. r \<noteq> Ret i'"
  shows "r \<noteq> Crash \<and> (d_table (view s') = d_table (view s) \<or>
    d_table (view s') = puts (lbx_table_hdl i) (lbx_key i) (lbx_act i) [e] (d_table (view s)))"
  using assms unfolding add_lbx_body_def Let_def
  by (elim call_cases)
    (auto simp: view_defs lbx_ready_def lbx_key_def lbx_act_def field_simps' ret_def)

lemma ipp_body_Ret:
  assumes "ipp_ready i (view s)" "add_ipp_body D ses tgt e i s = (Ret i', s')"
  shows "ipp_ready i' (view s') \<and> ipp_key_hdl i' = ipp_key_hdl i \<and> ipp_data_hdl i' = ipp_data_hdl i \<and>
    ipp_table_hdl i' = ipp_table_hdl i \<and> ipp_key i' = ipp_key i \<and> ipp_act i' = ipp_act i \<and>
    touches {ipp_key_hdl i} {ipp_data_hdl i} (view s) (view s') \<and>
    ipp_key i e \<notin> dom (d_table (view s) (ipp_table_hdl i)) \<and>
    d_table (view s') = puts (ipp_table_hdl i) (ipp_key i) (ipp_act i) [e] (d_table (view s))"
  using assms unfolding add_ipp_body_def Let_def
  by (elim call_Ret)
    (auto simp: view_defs touches_def ipp_ready_def ipp_key_def ipp_act_def field_simps' dest!: entry_add_new resets_same)

lemma ipp_body_fail:
  assumes "ipp_ready i (view s)" "add_ipp_body D ses tgt e i s = (r, s')" "\<forall>i'. r \<noteq> Ret i'"
  shows "r \<noteq> Crash \<and> (d_table (view s') = d_table (view s) \<or>
    d_table (view s') = puts (ipp_table_hdl i) (ipp_key i) (ipp_act i) [e] (d_table (view s)))"
  using assms unfolding add_ipp_body_def Let_def
  by (elim call_cases)
    (auto simp: view_defs ipp_ready_def ipp_key_def ipp_act_def field_simps' ret_def)

end

sublocale bf_rt_driver \<subseteq> arp: entry_adder view "add_arp_body D ses tgt" arp_ready arp_key_hdl arp_data_hdl arp_table_hdl
    arp_key arp_act for ses tgt
  by unfold_locales (rule arp_body_Ret arp_body_fail; assumption)+

sublocale bf_rt_driver \<subseteq> dip: entry_adder view "add_dip_body D ses tgt" dip_ready dip_key_hdl dip_data_hdl dip_table_hdl
    dip_key dip_act for ses tgt
  by unfold_locales (rule dip_body_Ret dip_body_fail; assumption)+

sublocale bf_rt_driver \<subseteq> dst: entry_adder view "add_dst_body D ses tgt" dst_ready dst_key_hdl dst_data_hdl dst_table_hdl
    dst_key dst_act for ses tgt
  by unfold_locales (rule dst_body_Ret dst_body_fail; assumption)+

sublocale bf_rt_driver \<subseteq> dix: entry_adder view "add_dix_body D ses tgt" dix_ready dix_key_hdl dix_data_hdl dix_table_hdl
    dix_key dix_act for ses tgt
  by unfold_locales (rule dix_body_Ret dix_body_fail; assumption)+

sublocale bf_rt_driver \<subseteq> lbx: entry_adder view "add_lbx_body D ses tgt" lbx_ready lbx_key_hdl lbx_data_hdl lbx_table_hdl
    lbx_key lbx_act for ses tgt
  by unfold_locales (rule lbx_body_Ret lbx_body_fail; assumption)+

sublocale bf_rt_driver \<subseteq> ipp: entry_adder view "add_ipp_body D ses tgt" ipp_ready ipp_key_hdl ipp_data_hdl ipp_table_hdl
    ipp_key ipp_act for ses tgt
  by unfold_locales (rule ipp_body_Ret ipp_body_fail; assumption)+

section \<open>What the set-up functions establish\<close>

text \<open>
  A set-up that returns has taken a fresh key object and a fresh data object, which are ready for the
  loop above, and has touched nothing else.
\<close>

definition set_up :: "hdl \<Rightarrow> hdl \<Rightarrow> driver_view \<Rightarrow> driver_view \<Rightarrow> bool" where
  "set_up k h v v' \<longleftrightarrow> k \<in> d_keys v' - d_keys v \<and> h \<in> d_datas v' - d_datas v \<and> touches {k} {h} v v' \<and> d_table v' = d_table v"

definition oft_ready :: "offload_connection_table_info \<Rightarrow> driver_view \<Rightarrow> bool" where
  "oft_ready i v \<longleftrightarrow> length (oft_key_hdl i) = 256 \<and> length (oft_data_hdl i) = 256 \<and> distinct (oft_key_hdl i) \<and>
     distinct (oft_data_hdl i) \<and> (\<forall>k \<in> set (oft_key_hdl i). dom (d_key v k) \<subseteq> {oft_kid_cip i, oft_kid_cport i}) \<and>
     (\<forall>h \<in> set (oft_data_hdl i). fst (d_data v h) = oft_aid_oft_hit i \<and> dom (snd (d_data v h)) \<subseteq> {oft_did_d_index i})"

definition named :: "'s bf_rt \<Rightarrow> hdl \<Rightarrow> string \<Rightarrow> hdl \<Rightarrow> bool" where
  "named D info name t \<longleftrightarrow> (\<exists>s s'. bf_rt_table_from_name_get D info name s = (Some t, s'))"

context bf_rt_driver begin

lemma named_inj: "named D info name t \<Longrightarrow> named D info name' t \<Longrightarrow> name' = name"
  unfolding named_def using table_get_name by blast

lemmas setup_Ret = check_effect_Ret [OF table_get] check_effect_Ret [OF kid_get] check_effect_Ret [OF aid_get]
  check_effect_Ret [OF did_get] check_effect_Ret [OF key_alloc] check_effect_Ret [OF data_alloc]
  check_effect_Ret [OF data_reset]

lemmas setup_new = key_alloc_new data_alloc_new data_reset_same

lemma setup_arp:
  assumes "setup_arp_table D info s = (Ret i, s')"
  shows "arp_ready i (view s') \<and> set_up (arp_key_hdl i) (arp_data_hdl i) (view s) (view s') \<and>
    named D info ''SwitchIngress.arp_table'' (arp_table_hdl i)"
  using assms unfolding setup_arp_table_def
  by (elim setup_Ret) (auto simp: arp_ready_def set_up_def touches_def new_key_def new_data_def reset_data_def
      named_def dest!: setup_new)

lemma setup_dip:
  assumes "setup_dip_lookup_table D info s = (Ret i, s')"
  shows "dip_ready i (view s') \<and> set_up (dip_key_hdl i) (dip_data_hdl i) (view s) (view s') \<and>
    named D info ''SwitchIngress.dip_lookup_table'' (dip_table_hdl i)"
  using assms unfolding setup_dip_lookup_table_def
  by (elim setup_Ret) (auto simp: dip_ready_def set_up_def touches_def new_key_def new_data_def reset_data_def
      named_def dest!: setup_new)

lemma setup_dst:
  assumes "setup_dest_to_egress_port_table D info s = (Ret i, s')"
  shows "dst_ready i (view s') \<and> set_up (dst_key_hdl i) (dst_data_hdl i) (view s) (view s') \<and>
    named D info ''SwitchIngress.dest_to_egress_port_table'' (dst_table_hdl i)"
  using assms unfolding setup_dest_to_egress_port_table_def
  by (elim setup_Ret) (auto simp: dst_ready_def set_up_def touches_def new_key_def new_data_def reset_data_def
      named_def dest!: setup_new)

lemma setup_dix:
  assumes "setup_d_index_to_egress_port_table D info s = (Ret i, s')"
  shows "dix_ready i (view s') \<and> set_up (dix_key_hdl i) (dix_data_hdl i) (view s) (view s') \<and>
    named D info ''SwitchIngress.d_index_to_egress_port_table'' (dix_table_hdl i)"
  using assms unfolding setup_d_index_to_egress_port_table_def
  by (elim setup_Ret) (auto simp: dix_ready_def set_up_def touches_def new_key_def new_data_def reset_data_def
      named_def dest!: setup_new)

lemma setup_lbx:
  assumes "setup_lb_index_to_egress_port_table D info s = (Ret i, s')"
  shows "lbx_ready i (view s') \<and> set_up (lbx_key_hdl i) (lbx_data_hdl i) (view s) (view s') \<and>
    named D info ''SwitchIngress.lb_index_to_egress_port_table'' (lbx_table_hdl i)"
  using assms unfolding setup_lb_index_to_egress_port_table_def
  by (elim setup_Ret) (auto simp: lbx_ready_def set_up_def touches_def new_key_def new_data_def reset_data_def
      named_def dest!: setup_new)

lemma setup_ipp:
  assumes "setup_d_index_to_ip_port_table D info s = (Ret i, s')"
  shows "ipp_ready i (view s') \<and> set_up (ipp_key_hdl i) (ipp_data_hdl i) (view s) (view s') \<and>
    named D info ''SwitchEgress.d_index_to_ip_port_table'' (ipp_table_hdl i)"
  using assms unfolding setup_d_index_to_ip_port_table_def
  by (elim setup_Ret) (auto simp: ipp_ready_def set_up_def touches_def new_key_def new_data_def reset_data_def
      named_def dest!: setup_new)

text \<open>The offload table: 256 pairs of objects instead of one.\<close>

lemma allocate_oft_step:
  assumes "allocate_oft D t a x (ks, ds) s = (Ret p, s')"
  shows "\<exists>k h. p = (ks @ [k], ds @ [h]) \<and> set_up k h (view s) (view s') \<and>
    d_key (view s') k = Map.empty \<and> d_data (view s') h = (a, Map.empty)"
  using assms unfolding allocate_oft_def prod.case
  by (elim setup_Ret) (auto simp: set_up_def touches_def new_key_def new_data_def reset_data_def dest!: setup_new)

lemma allocate_oft_loop:
  assumes "for_each (allocate_oft D t a) xs (ks, ds) s = (Ret (ks', ds'), s')"
  shows "\<exists>kn dn. ks' = ks @ kn \<and> ds' = ds @ dn \<and> length kn = length xs \<and> length dn = length xs \<and>
    distinct kn \<and> distinct dn \<and> set kn \<subseteq> d_keys (view s') - d_keys (view s) \<and>
    set dn \<subseteq> d_datas (view s') - d_datas (view s) \<and>
    (\<forall>k \<in> set kn. d_key (view s') k = Map.empty) \<and> (\<forall>h \<in> set dn. d_data (view s') h = (a, Map.empty)) \<and>
    touches (set kn) (set dn) (view s) (view s') \<and> d_table (view s') = d_table (view s)"
  using assms
proof (induction xs arbitrary: ks ds s)
  case (Cons x xs)
  then obtain p s1 where "allocate_oft D t a x (ks, ds) s = (Ret p, s1)"
    and run: "for_each (allocate_oft D t a) xs p s1 = (Ret (ks', ds'), s')"
    by (auto elim: seq_Ret)
  then obtain k h where p: "p = (ks @ [k], ds @ [h])" and su: "set_up k h (view s) (view s1)"
    and e: "d_key (view s1) k = Map.empty" "d_data (view s1) h = (a, Map.empty)"
    using allocate_oft_step by blast
  from Cons.IH [OF run [unfolded p]] obtain kn dn where
    n: "ks' = ks @ k # kn" "ds' = ds @ h # dn" "length kn = length xs" "length dn = length xs" "distinct kn" "distinct dn"
    and kn: "set kn \<subseteq> d_keys (view s') - d_keys (view s1)" "set dn \<subseteq> d_datas (view s') - d_datas (view s1)"
    and em: "\<forall>k \<in> set kn. d_key (view s') k = Map.empty" "\<forall>h \<in> set dn. d_data (view s') h = (a, Map.empty)"
    and tch: "touches (set kn) (set dn) (view s1) (view s')" "d_table (view s') = d_table (view s1)"
    by auto
  have new: "k \<notin> set kn" "h \<notin> set dn" using su kn by (auto simp: set_up_def)
  have "touches (insert k (set kn)) (insert h (set dn)) (view s) (view s')"
    using su tch(1) by (auto simp: set_up_def touches_def)
  moreover have "d_key (view s') k = Map.empty" "d_data (view s') h = (a, Map.empty)"
    using tch(1) new e by (auto simp: touches_def)
  moreover have "set (k # kn) \<subseteq> d_keys (view s') - d_keys (view s)" "set (h # dn) \<subseteq> d_datas (view s') - d_datas (view s)"
    using su kn tch(1) by (auto simp: set_up_def touches_def)
  moreover have "d_table (view s') = d_table (view s)" using su tch(2) by (simp add: set_up_def)
  ultimately show ?case
    using n em new by (intro exI [of _ "k # kn"] exI [of _ "h # dn"]) simp
qed simp

lemma setup_oft:
  assumes "setup_offload_connection_table D info s = (Ret i, s')"
  shows "oft_ready i (view s') \<and> set (oft_key_hdl i) \<inter> d_keys (view s) = {} \<and> set (oft_data_hdl i) \<inter> d_datas (view s) = {} \<and>
    set (oft_key_hdl i) \<subseteq> d_keys (view s') \<and> set (oft_data_hdl i) \<subseteq> d_datas (view s') \<and>
    touches (set (oft_key_hdl i)) (set (oft_data_hdl i)) (view s) (view s') \<and> d_table (view s') = d_table (view s) \<and>
    named D info ''SwitchIngress.offload_connection_table'' (oft_table_hdl i)"
proof -
  obtain t kc kp a d ks ds s0 s1 s2 where t: "bf_rt_table_from_name_get D info ''SwitchIngress.offload_connection_table'' s = (Some t, s0)"
    and v: "view s1 = view s" and loop: "for_each (allocate_oft D t a) [0..<256] ([], []) s1 = (Ret (ks, ds), s')"
    and i: "i = \<lparr>oft_table_hdl = t, oft_kid_cip = kc, oft_kid_cport = kp, oft_aid_oft_hit = a, oft_did_d_index = d,
      oft_key_hdl = ks, oft_data_hdl = ds\<rparr>"
    using assms unfolding setup_offload_connection_table_def
    by (elim setup_Ret seq_Ret) (auto split: prod.splits simp del: upt_rec_numeral)
  show ?thesis
    using allocate_oft_loop [OF loop] t v unfolding i
    by (auto simp: oft_ready_def named_def simp del: upt_rec_numeral)
qed

lemmas arp_installs = arp.loop_installed

lemmas arp_loop = arp.loop

lemmas dip_installs = dip.loop_installed

lemmas dip_loop = dip.loop

lemmas dst_installs = dst.loop_installed

lemmas dst_loop = dst.loop

lemmas dix_installs = dix.loop_installed

lemmas dix_loop = dix.loop

lemmas lbx_installs = lbx.loop_installed

lemmas lbx_loop = lbx.loop

lemmas ipp_installs = ipp.loop_installed

lemmas ipp_loop = ipp.loop

end

section \<open>Properties\<close>

text \<open>
  Each theorem says of one \<open>add_\<dots>\<close> function, on a table that its set-up has made ready: it never
  crashes; however it ends, exactly the entries of a prefix of the array have been added; and when it
  returns, the keys of the array are all different and every one of them is mapped to the intended
  action, with all other entries and tables unchanged.
\<close>

text \<open>
  ARP replies: (opcode, target address) is mapped to \<open>reply_arp\<close> with the MAC address of the entry.
\<close>

theorem add_arp_table_entry_installs:
  assumes "bf_rt_driver D view" "arp_ready i (view s)" "add_arp_table_entry D ses tgt es i s = (r, s')"
  shows "r \<noteq> Crash \<and>
    (\<exists>n \<le> length es. d_table (view s') = puts (arp_table_hdl i) (arp_key i) (arp_act i) (take n es) (d_table (view s))) \<and>
    (\<forall>i'. r = Ret i' \<longrightarrow> distinct (map (arp_key i) es) \<and>
      installed (arp_table_hdl i) (arp_key i) (arp_act i) es (d_table (view s)) (d_table (view s')))"
  using assms(3) unfolding add_arp_table_entry_def
  by (rule bf_rt_driver.arp_installs [OF assms(1,2)])

text \<open>
  Back-end endpoints: (source address, source port) is mapped to \<open>dip_hit\<close>, which has no parameters.
\<close>

theorem add_dip_lookup_table_entry_installs:
  assumes "bf_rt_driver D view" "dip_ready i (view s)" "add_dip_lookup_table_entry D ses tgt es i s = (r, s')"
  shows "r \<noteq> Crash \<and>
    (\<exists>n \<le> length es. d_table (view s') = puts (dip_table_hdl i) (dip_key i) (dip_act i) (take n es) (d_table (view s))) \<and>
    (\<forall>i'. r = Ret i' \<longrightarrow> distinct (map (dip_key i) es) \<and>
      installed (dip_table_hdl i) (dip_key i) (dip_act i) es (d_table (view s)) (d_table (view s')))"
  using assms(3) unfolding add_dip_lookup_table_entry_def
  by (rule bf_rt_driver.dip_installs [OF assms(1,2)])

text \<open>
  Routes: an address prefix is mapped to \<open>set_egress_port\<close> with both MAC addresses and the port of the entry.
\<close>

theorem add_dest_to_egress_port_table_entry_installs:
  assumes "bf_rt_driver D view" "dst_ready i (view s)" "add_dest_to_egress_port_table_entry D ses tgt es i s = (r, s')"
  shows "r \<noteq> Crash \<and>
    (\<exists>n \<le> length es. d_table (view s') = puts (dst_table_hdl i) (dst_key i) (dst_act i) (take n es) (d_table (view s))) \<and>
    (\<forall>i'. r = Ret i' \<longrightarrow> distinct (map (dst_key i) es) \<and>
      installed (dst_table_hdl i) (dst_key i) (dst_act i) es (d_table (view s)) (d_table (view s')))"
  using assms(3) unfolding add_dest_to_egress_port_table_entry_def
  by (rule bf_rt_driver.dst_installs [OF assms(1,2)])

text \<open>
  Back-end ports: a server index is mapped to \<open>set_egress_port\<close> with \<open>INBOUND_SRC_MAC\<close> (not the entry\'s own source address), the destination MAC address and the port.
\<close>

theorem add_d_index_to_egress_port_table_entry_installs:
  assumes "bf_rt_driver D view" "dix_ready i (view s)" "add_d_index_to_egress_port_table_entry D ses tgt es i s = (r, s')"
  shows "r \<noteq> Crash \<and>
    (\<exists>n \<le> length es. d_table (view s') = puts (dix_table_hdl i) (dix_key i) (dix_act i) (take n es) (d_table (view s))) \<and>
    (\<forall>i'. r = Ret i' \<longrightarrow> distinct (map (dix_key i) es) \<and>
      installed (dix_table_hdl i) (dix_key i) (dix_act i) es (d_table (view s)) (d_table (view s')))"
  using assms(3) unfolding add_d_index_to_egress_port_table_entry_def
  by (rule bf_rt_driver.dix_installs [OF assms(1,2)])

text \<open>
  (C40) Front-end ports: a front-end index is mapped to \<open>set_egress_port\<close> with \<open>INBOUND_SRC_MAC\<close>, the destination MAC address and the port.
\<close>

theorem add_lb_index_to_egress_port_table_entry_installs:
  assumes "bf_rt_driver D view" "lbx_ready i (view s)" "add_lb_index_to_egress_port_table_entry D ses tgt es i s = (r, s')"
  shows "r \<noteq> Crash \<and>
    (\<exists>n \<le> length es. d_table (view s') = puts (lbx_table_hdl i) (lbx_key i) (lbx_act i) (take n es) (d_table (view s))) \<and>
    (\<forall>i'. r = Ret i' \<longrightarrow> distinct (map (lbx_key i) es) \<and>
      installed (lbx_table_hdl i) (lbx_key i) (lbx_act i) es (d_table (view s)) (d_table (view s')))"
  using assms(3) unfolding add_lb_index_to_egress_port_table_entry_def
  by (rule bf_rt_driver.lbx_installs [OF assms(1,2)])

text \<open>
  Back-end addresses: a server index is mapped to \<open>set_dst_ip_port\<close> with the address and port of the entry.
\<close>

theorem add_d_index_to_ip_port_table_entry_installs:
  assumes "bf_rt_driver D view" "ipp_ready i (view s)" "add_d_index_to_ip_port_table_entry D ses tgt es i s = (r, s')"
  shows "r \<noteq> Crash \<and>
    (\<exists>n \<le> length es. d_table (view s') = puts (ipp_table_hdl i) (ipp_key i) (ipp_act i) (take n es) (d_table (view s))) \<and>
    (\<forall>i'. r = Ret i' \<longrightarrow> distinct (map (ipp_key i) es) \<and>
      installed (ipp_table_hdl i) (ipp_key i) (ipp_act i) es (d_table (view s)) (d_table (view s')))"
  using assms(3) unfolding add_d_index_to_ip_port_table_entry_def
  by (rule bf_rt_driver.ipp_installs [OF assms(1,2)])

section \<open>Concrete runs\<close>

lemmas rd_eval = ref_bf_rt_def rd_init_def rd_view_def rd_entry_add_def check_def ignore_def seq_def ret_def

definition ex_arp_info :: arp_table_info where
  "ex_arp_info = \<lparr>arp_table_hdl = 0, arp_kid_opcode = 0, arp_kid_target_proto_addr = 1, arp_aid_reply_arp = 0, arp_did_arp_mac = 10, arp_key_hdl = 0, arp_data_hdl = 0\<rparr>"

definition ex_arp_entry :: arp_table_entry where
  "ex_arp_entry = \<lparr>ae_opcode = 1, ae_target_proto_addr = 0x0a0001fe, ae_arp_mac = 0x0c42a14aff02\<rparr>"

lemma ex_arp_run: "\<exists>s'. add_arp_table_entry ref_bf_rt ses tgt [ex_arp_entry] ex_arp_info rd_init = (Ret ex_arp_info, s')"
  by (simp add: add_arp_table_entry_def add_arp_body_def rd_eval ex_arp_info_def)

theorem add_arp_table_entry_installs_witness:
  "\<exists>s'. add_arp_table_entry ref_bf_rt 0 \<lparr>dev_id = 0, pipe_id = 65535\<rparr> [ex_arp_entry] ex_arp_info rd_init = (Ret ex_arp_info, s') \<and>
    d_table (rd_view s') (arp_table_hdl ex_arp_info) [0 \<mapsto> Exact 1, 1 \<mapsto> Exact 0x0a0001fe] = Some (0, [10 \<mapsto> 0x0c42a14aff02])"
proof -
  obtain s' where run: "add_arp_table_entry ref_bf_rt 0 \<lparr>dev_id = 0, pipe_id = 65535\<rparr> [ex_arp_entry] ex_arp_info rd_init = (Ret ex_arp_info, s')"
    using ex_arp_run by blast
  have "arp_ready ex_arp_info (rd_view rd_init)" by (simp add: arp_ready_def rd_eval ex_arp_info_def)
  from add_arp_table_entry_installs [OF ref_drv.bf_rt_driver_axioms this run]
  have "d_table (rd_view s') (arp_table_hdl ex_arp_info) (arp_key ex_arp_info ex_arp_entry) = Some (arp_act ex_arp_info ex_arp_entry)"
    by (simp add: installed_def)
  then show ?thesis
    using run by (simp add: arp_key_def arp_act_def ex_arp_info_def ex_arp_entry_def)
qed

definition ex_dip_info :: dip_lookup_table_info where
  "ex_dip_info = \<lparr>dip_table_hdl = 1, dip_kid_src_ip = 2, dip_kid_src_port = 3, dip_aid_dip_hit = 0, dip_key_hdl = 0, dip_data_hdl = 0\<rparr>"

definition ex_dip_entry :: dip_lookup_table_entry where
  "ex_dip_entry = \<lparr>dpe_src_ip = 0x0a000205, dpe_src_port = 80\<rparr>"

lemma ex_dip_run: "\<exists>s'. add_dip_lookup_table_entry ref_bf_rt ses tgt [ex_dip_entry] ex_dip_info rd_init = (Ret ex_dip_info, s')"
  by (simp add: add_dip_lookup_table_entry_def add_dip_body_def rd_eval ex_dip_info_def)

theorem add_dip_lookup_table_entry_installs_witness:
  "\<exists>s'. add_dip_lookup_table_entry ref_bf_rt 0 \<lparr>dev_id = 0, pipe_id = 65535\<rparr> [ex_dip_entry] ex_dip_info rd_init = (Ret ex_dip_info, s') \<and>
    d_table (rd_view s') (dip_table_hdl ex_dip_info) [2 \<mapsto> Exact 0x0a000205, 3 \<mapsto> Exact 80] = Some (0, Map.empty)"
proof -
  obtain s' where run: "add_dip_lookup_table_entry ref_bf_rt 0 \<lparr>dev_id = 0, pipe_id = 65535\<rparr> [ex_dip_entry] ex_dip_info rd_init = (Ret ex_dip_info, s')"
    using ex_dip_run by blast
  have "dip_ready ex_dip_info (rd_view rd_init)" by (simp add: dip_ready_def rd_eval ex_dip_info_def)
  from add_dip_lookup_table_entry_installs [OF ref_drv.bf_rt_driver_axioms this run]
  have "d_table (rd_view s') (dip_table_hdl ex_dip_info) (dip_key ex_dip_info ex_dip_entry) = Some (dip_act ex_dip_info ex_dip_entry)"
    by (simp add: installed_def)
  then show ?thesis
    using run by (simp add: dip_key_def dip_act_def ex_dip_info_def ex_dip_entry_def)
qed

definition ex_dst_info :: dest_to_egress_port_table_info where
  "ex_dst_info = \<lparr>dst_table_hdl = 3, dst_kid_dst_addr = 6, dst_aid_set_egress_port = 0, dst_did_src_mac = 12, dst_did_dst_mac = 13, dst_did_dst_port = 14, dst_key_hdl = 0, dst_data_hdl = 0\<rparr>"

definition ex_dst_entry :: dest_to_egress_port_table_entry where
  "ex_dst_entry = \<lparr>dse_dst_addr = 0x0a000100, dse_prefix_len = 24, dse_src_mac = 0x0c42a14aff01, dse_dst_mac = 0x0c42a1d1d0c8, dse_dst_port = 132\<rparr>"

lemma ex_dst_run: "\<exists>s'. add_dest_to_egress_port_table_entry ref_bf_rt ses tgt [ex_dst_entry] ex_dst_info rd_init = (Ret ex_dst_info, s')"
  by (simp add: add_dest_to_egress_port_table_entry_def add_dst_body_def rd_eval ex_dst_info_def)

theorem add_dest_to_egress_port_table_entry_installs_witness:
  "\<exists>s'. add_dest_to_egress_port_table_entry ref_bf_rt 0 \<lparr>dev_id = 0, pipe_id = 65535\<rparr> [ex_dst_entry] ex_dst_info rd_init = (Ret ex_dst_info, s') \<and>
    d_table (rd_view s') (dst_table_hdl ex_dst_info) [6 \<mapsto> Lpm 0x0a000100 24] = Some (0, [12 \<mapsto> 0x0c42a14aff01, 13 \<mapsto> 0x0c42a1d1d0c8, 14 \<mapsto> 132])"
proof -
  obtain s' where run: "add_dest_to_egress_port_table_entry ref_bf_rt 0 \<lparr>dev_id = 0, pipe_id = 65535\<rparr> [ex_dst_entry] ex_dst_info rd_init = (Ret ex_dst_info, s')"
    using ex_dst_run by blast
  have "dst_ready ex_dst_info (rd_view rd_init)" by (simp add: dst_ready_def rd_eval ex_dst_info_def)
  from add_dest_to_egress_port_table_entry_installs [OF ref_drv.bf_rt_driver_axioms this run]
  have "d_table (rd_view s') (dst_table_hdl ex_dst_info) (dst_key ex_dst_info ex_dst_entry) = Some (dst_act ex_dst_info ex_dst_entry)"
    by (simp add: installed_def)
  then show ?thesis
    using run by (simp add: dst_key_def dst_act_def ex_dst_info_def ex_dst_entry_def)
qed

definition ex_dix_info :: d_index_to_egress_port_table_info where
  "ex_dix_info = \<lparr>dix_table_hdl = 4, dix_kid_d_index = 7, dix_aid_set_egress_port = 0, dix_did_src_mac = 12, dix_did_dst_mac = 13, dix_did_dst_port = 14, dix_key_hdl = 0, dix_data_hdl = 0\<rparr>"

definition ex_dix_entry :: d_index_to_egress_port_table_entry where
  "ex_dix_entry = \<lparr>dxe_d_index = 3, dxe_src_mac = 0, dxe_dst_mac = 0x0c42a1d1d0c8, dxe_dst_port = 140\<rparr>"

lemma ex_dix_run: "\<exists>s'. add_d_index_to_egress_port_table_entry ref_bf_rt ses tgt [ex_dix_entry] ex_dix_info rd_init = (Ret ex_dix_info, s')"
  by (simp add: add_d_index_to_egress_port_table_entry_def add_dix_body_def rd_eval ex_dix_info_def)

theorem add_d_index_to_egress_port_table_entry_installs_witness:
  "\<exists>s'. add_d_index_to_egress_port_table_entry ref_bf_rt 0 \<lparr>dev_id = 0, pipe_id = 65535\<rparr> [ex_dix_entry] ex_dix_info rd_init = (Ret ex_dix_info, s') \<and>
    d_table (rd_view s') (dix_table_hdl ex_dix_info) [7 \<mapsto> Exact 3] = Some (0, [12 \<mapsto> INBOUND_SRC_MAC, 13 \<mapsto> 0x0c42a1d1d0c8, 14 \<mapsto> 140])"
proof -
  obtain s' where run: "add_d_index_to_egress_port_table_entry ref_bf_rt 0 \<lparr>dev_id = 0, pipe_id = 65535\<rparr> [ex_dix_entry] ex_dix_info rd_init = (Ret ex_dix_info, s')"
    using ex_dix_run by blast
  have "dix_ready ex_dix_info (rd_view rd_init)" by (simp add: dix_ready_def rd_eval ex_dix_info_def)
  from add_d_index_to_egress_port_table_entry_installs [OF ref_drv.bf_rt_driver_axioms this run]
  have "d_table (rd_view s') (dix_table_hdl ex_dix_info) (dix_key ex_dix_info ex_dix_entry) = Some (dix_act ex_dix_info ex_dix_entry)"
    by (simp add: installed_def)
  then show ?thesis
    using run by (simp add: dix_key_def dix_act_def ex_dix_info_def ex_dix_entry_def)
qed

definition ex_lbx_info :: lb_index_to_egress_port_table_info where
  "ex_lbx_info = \<lparr>lbx_table_hdl = 5, lbx_kid_lb_index = 8, lbx_aid_set_egress_port = 0, lbx_did_src_mac = 12, lbx_did_dst_mac = 13, lbx_did_dst_port = 14, lbx_key_hdl = 0, lbx_data_hdl = 0\<rparr>"

definition ex_lbx_entry :: lb_index_to_egress_port_table_entry where
  "ex_lbx_entry = \<lparr>lbe_lb_index = 1, lbe_src_mac = 0, lbe_dst_mac = 0x0c42a1d1d0c8, lbe_dst_port = 148\<rparr>"

lemma ex_lbx_run: "\<exists>s'. add_lb_index_to_egress_port_table_entry ref_bf_rt ses tgt [ex_lbx_entry] ex_lbx_info rd_init = (Ret ex_lbx_info, s')"
  by (simp add: add_lb_index_to_egress_port_table_entry_def add_lbx_body_def rd_eval ex_lbx_info_def)

theorem add_lb_index_to_egress_port_table_entry_installs_witness:
  "\<exists>s'. add_lb_index_to_egress_port_table_entry ref_bf_rt 0 \<lparr>dev_id = 0, pipe_id = 65535\<rparr> [ex_lbx_entry] ex_lbx_info rd_init = (Ret ex_lbx_info, s') \<and>
    d_table (rd_view s') (lbx_table_hdl ex_lbx_info) [8 \<mapsto> Exact 1] = Some (0, [12 \<mapsto> INBOUND_SRC_MAC, 13 \<mapsto> 0x0c42a1d1d0c8, 14 \<mapsto> 148])"
proof -
  obtain s' where run: "add_lb_index_to_egress_port_table_entry ref_bf_rt 0 \<lparr>dev_id = 0, pipe_id = 65535\<rparr> [ex_lbx_entry] ex_lbx_info rd_init = (Ret ex_lbx_info, s')"
    using ex_lbx_run by blast
  have "lbx_ready ex_lbx_info (rd_view rd_init)" by (simp add: lbx_ready_def rd_eval ex_lbx_info_def)
  from add_lb_index_to_egress_port_table_entry_installs [OF ref_drv.bf_rt_driver_axioms this run]
  have "d_table (rd_view s') (lbx_table_hdl ex_lbx_info) (lbx_key ex_lbx_info ex_lbx_entry) = Some (lbx_act ex_lbx_info ex_lbx_entry)"
    by (simp add: installed_def)
  then show ?thesis
    using run by (simp add: lbx_key_def lbx_act_def ex_lbx_info_def ex_lbx_entry_def)
qed

definition ex_ipp_info :: d_index_to_ip_port_table_info where
  "ex_ipp_info = \<lparr>ipp_table_hdl = 6, ipp_kid_d_index = 9, ipp_aid_set_dst_ip_port = 0, ipp_did_dst_ip = 15, ipp_did_dst_port = 14, ipp_key_hdl = 0, ipp_data_hdl = 0\<rparr>"

definition ex_ipp_entry :: d_index_to_ip_port_table_entry where
  "ex_ipp_entry = \<lparr>ipe_d_index = 3, ipe_dst_ip = 0x0a000205, ipe_dst_port = 80\<rparr>"

lemma ex_ipp_run: "\<exists>s'. add_d_index_to_ip_port_table_entry ref_bf_rt ses tgt [ex_ipp_entry] ex_ipp_info rd_init = (Ret ex_ipp_info, s')"
  by (simp add: add_d_index_to_ip_port_table_entry_def add_ipp_body_def rd_eval ex_ipp_info_def)

theorem add_d_index_to_ip_port_table_entry_installs_witness:
  "\<exists>s'. add_d_index_to_ip_port_table_entry ref_bf_rt 0 \<lparr>dev_id = 0, pipe_id = 65535\<rparr> [ex_ipp_entry] ex_ipp_info rd_init = (Ret ex_ipp_info, s') \<and>
    d_table (rd_view s') (ipp_table_hdl ex_ipp_info) [9 \<mapsto> Exact 3] = Some (0, [15 \<mapsto> 0x0a000205, 14 \<mapsto> 80])"
proof -
  obtain s' where run: "add_d_index_to_ip_port_table_entry ref_bf_rt 0 \<lparr>dev_id = 0, pipe_id = 65535\<rparr> [ex_ipp_entry] ex_ipp_info rd_init = (Ret ex_ipp_info, s')"
    using ex_ipp_run by blast
  have "ipp_ready ex_ipp_info (rd_view rd_init)" by (simp add: ipp_ready_def rd_eval ex_ipp_info_def)
  from add_d_index_to_ip_port_table_entry_installs [OF ref_drv.bf_rt_driver_axioms this run]
  have "d_table (rd_view s') (ipp_table_hdl ex_ipp_info) (ipp_key ex_ipp_info ex_ipp_entry) = Some (ipp_act ex_ipp_info ex_ipp_entry)"
    by (simp add: installed_def)
  then show ?thesis
    using run by (simp add: ipp_key_def ipp_act_def ex_ipp_info_def ex_ipp_entry_def)
qed

end
