(* ===== verification/Switch_Env.thy ===== *)
theory Switch_Env
  imports Bf_Rt
begin

text \<open>
  The rest of the control plane's environment, as parameters: the cJSON library, the configuration
  files, and the socket and epoll calls of the operating system.  The start-up of the ports, the one
  function of \<open>src/Switch/control_plane/src/client.c\<close> that reads a file, is modelled here.
\<close>

section \<open>Configuration files\<close>

text \<open>
  The accessors of a parsed JSON value.  \<open>valueint\<close> is a C \<open>int\<close>; \<open>valuestring\<close> may be a null pointer.
  Both lookups accept a null pointer and then return one; reading a member through a null pointer is
  a \<open>Crash\<close>.
\<close>

record 'j cjson =
  cJSON_Parse :: "string \<Rightarrow> 'j option"
  cJSON_GetArraySize :: "'j \<Rightarrow> nat"
  cJSON_GetArrayItem :: "'j \<Rightarrow> nat \<Rightarrow> 'j option"
  cJSON_GetObjectItem :: "'j \<Rightarrow> string \<Rightarrow> 'j option"
  cJSON_valueint :: "'j \<Rightarrow> int"
  cJSON_valuestring :: "'j \<Rightarrow> string option"

definition exit :: "string \<Rightarrow> ('a, 's) prog" where
  "exit msg s = (Exit msg, s)"

definition crash :: "('a, 's) prog" where
  "crash s = (Crash, s)"

definition object_item :: "'j cjson \<Rightarrow> 'j option \<Rightarrow> string \<Rightarrow> 'j option" where
  "object_item J jo name = Option.bind jo (\<lambda>j. cJSON_GetObjectItem J j name)"

definition array_item :: "'j cjson \<Rightarrow> 'j option \<Rightarrow> nat \<Rightarrow> 'j option" where
  "array_item J jo i = Option.bind jo (\<lambda>j. cJSON_GetArrayItem J j i)"

definition int_of :: "'j cjson \<Rightarrow> 'j option \<Rightarrow> (int, 's) prog" where
  "int_of J jo = (case jo of None \<Rightarrow> crash | Some j \<Rightarrow> ret (cJSON_valueint J j))"

text \<open>\<open>fopen\<close>, reading the whole file, and \<open>cJSON_Parse\<close>, with the two messages of the caller.\<close>

definition load_json :: "(string \<Rightarrow> string option) \<Rightarrow> 'j cjson \<Rightarrow> string \<Rightarrow> string \<Rightarrow> string \<Rightarrow> ('j, 's) prog" where
  "load_json fs J path open_msg parse_msg =
     (case fs path of
        None \<Rightarrow> exit open_msg
      | Some text \<Rightarrow> (case cJSON_Parse J text of None \<Rightarrow> exit parse_msg | Some j \<Rightarrow> ret j))"

text \<open>The loop over a JSON array that fills an array of records.\<close>

definition load_array :: "'j cjson \<Rightarrow> ('j option \<Rightarrow> ('a, 's) prog) \<Rightarrow> 'j \<Rightarrow> ('a list, 's) prog" where
  "load_array J parse j =
     for_each (\<lambda>i xs. seq (parse (array_item J (Some j) i)) (\<lambda>x. ret (xs @ [x]))) [0..<cJSON_GetArraySize J j] []"

section \<open>Ports\<close>

record port_info =
  port_name :: "string option"
  port_speed :: bf_port_speed

definition parse_port :: "'j cjson \<Rightarrow> 'j option \<Rightarrow> (port_info, 's) prog" where
  "parse_port J port_item =
     (if port_item = None then exit ''Failed to get item''
      else (case (object_item J port_item ''port'', object_item J port_item ''speed'') of
          (Some name, Some speed) \<Rightarrow>
            (let v = cJSON_valueint J speed; p = (\<lambda>sp. ret \<lparr>port_name = cJSON_valuestring J name, port_speed = sp\<rparr>) in
             if v = 100 then p BF_SPEED_100G else if v = 40 then p BF_SPEED_40G
             else if v = 25 then p BF_SPEED_25G else if v = 10 then p BF_SPEED_10G
             else exit ''Invalid port_speed'')
        | _ \<Rightarrow> exit ''Failed to get port_name or port_speed''))"

definition enable_port :: "'s bf_rt \<Rightarrow> bf_rt_target \<Rightarrow> port_info \<Rightarrow> unit \<Rightarrow> (unit, 's) prog" where
  "enable_port D dev_tgt port _ =
     check ''Failed to get port handle'' (bf_pm_port_str_to_hdl_get D (dev_id dev_tgt) (port_name port)) (\<lambda>port_handle.
     check ''Failed to add port'' (bf_pm_port_add D (dev_id dev_tgt) port_handle (port_speed port) (BF_FEC_TYP_RS D)) (\<lambda>_.
     check ''Failed to enbable port'' (bf_pm_port_enable D (dev_id dev_tgt) port_handle) (\<lambda>_. ret ())))"

definition init_ports ::
  "'s bf_rt \<Rightarrow> bf_rt_target \<Rightarrow> (string \<Rightarrow> string option) \<Rightarrow> 'j cjson \<Rightarrow> string \<Rightarrow> (unit, 's) prog" where
  "init_ports D dev_tgt fs J port_json_path =
     seq (load_json fs J port_json_path ''Failed to open port_json'' ''Failed to parse port_json'') (\<lambda>port_json_array.
     seq (load_array J (parse_port J) port_json_array) (\<lambda>port_info.
     for_each (enable_port D dev_tgt) port_info ()))"

section \<open>The operating system\<close>

record 's sys =
  sys_socket :: "(hdl, 's) call"
  sys_bind :: "hdl \<Rightarrow> string \<Rightarrow> u16 \<Rightarrow> (unit, 's) call"
  sys_listen :: "hdl \<Rightarrow> (unit, 's) call"
  sys_epoll_create1 :: "(hdl, 's) call"
  sys_epoll_add :: "hdl \<Rightarrow> hdl \<Rightarrow> (unit, 's) call"
  sys_epoll_wait :: "hdl \<Rightarrow> nat \<Rightarrow> (hdl list, 's) call"
  sys_accept :: "hdl \<Rightarrow> (hdl, 's) call"
  sys_set_nodelay :: "hdl \<Rightarrow> (unit, 's) call"
  sys_send :: "hdl \<Rightarrow> bytes \<Rightarrow> (unit, 's) call"
  sys_recv :: "hdl \<Rightarrow> nat \<Rightarrow> (bytes, 's) call"
  sys_close :: "hdl \<Rightarrow> 's \<Rightarrow> 's"
  sys_sleep :: "nat \<Rightarrow> 's \<Rightarrow> 's"

section \<open>Loading arrays\<close>

text \<open>A parser that depends on nothing but the JSON value and changes no state.\<close>

definition pure :: "('a, 's) prog \<Rightarrow> bool" where
  "pure m \<longleftrightarrow> (\<exists>r. \<forall>s. m s = (r, s))"

lemma pure_simps [simp]: "pure (ret x)" "pure (exit msg)" "pure crash" "pure (int_of J jo)"
  by (auto simp: pure_def ret_def exit_def crash_def int_of_def split: option.split)

lemma pure_seq [intro]: "pure m \<Longrightarrow> (\<And>x. pure (k x)) \<Longrightarrow> pure (seq m k)"
proof -
  assume m: "pure m" and k: "\<And>x. pure (k x)"
  from m obtain r where r: "\<And>s. m s = (r, s)" by (auto simp: pure_def)
  show ?thesis
  proof (cases r)
    case (Ret x)
    then show ?thesis using k [of x] r by (simp add: pure_def seq_def)
  qed (use r in \<open>auto simp: pure_def seq_def\<close>)
qed

lemma pure_state: "pure m \<Longrightarrow> snd (m s) = s"
  by (metis pure_def snd_conv)

lemma pure_for_each: "(\<And>x b. pure (body x b)) \<Longrightarrow> pure (for_each body xs b)"
  by (induction xs arbitrary: b) auto

lemma pure_load_array: "(\<And>jo. pure (parse jo)) \<Longrightarrow> pure (load_array J parse j)"
  unfolding load_array_def by (intro pure_for_each pure_seq) auto

lemma pure_parse_port: "pure (parse_port J jo)"
  by (auto simp: parse_port_def Let_def split: option.split)

lemma pure_load_json: "pure (load_json fs J path m1 m2)"
  by (auto simp: load_json_def split: option.split)

text \<open>The array that results has one element for each item, in order.\<close>

lemma load_array_Ret_aux:
  assumes "for_each (\<lambda>i xs. seq (parse (f i)) (\<lambda>x. ret (xs @ [x]))) is acc s = (Ret ys, s')"
    and "\<And>jo. pure (parse jo)"
  shows "\<exists>zs. ys = acc @ zs \<and> list_all2 (\<lambda>i z. parse (f i) s = (Ret z, s)) is zs \<and> s' = s"
  using assms(1)
proof (induction "is" arbitrary: acc)
  case (Cons i "is")
  obtain x s1 where x: "parse (f i) s = (Ret x, s1)"
    and "for_each (\<lambda>i xs. seq (parse (f i)) (\<lambda>x. ret (xs @ [x]))) is (acc @ [x]) s1 = (Ret ys, s')"
    using Cons.prems by (auto elim!: seq_Ret)
  moreover have r: "s1 = s" using pure_state [OF assms(2) [of "f i"], of s] x by simp
  ultimately have "for_each (\<lambda>i xs. seq (parse (f i)) (\<lambda>x. ret (xs @ [x]))) is (acc @ [x]) s = (Ret ys, s')" by simp
  then obtain zs where "ys = (acc @ [x]) @ zs" "list_all2 (\<lambda>i z. parse (f i) s = (Ret z, s)) is zs" "s' = s"
    using Cons.IH by blast
  then show ?case using r x by (intro exI [of _ "x # zs"]) simp
qed simp

lemma load_array_Ret:
  assumes "load_array J parse j s = (Ret ys, s')" "\<And>jo. pure (parse jo)"
  shows "s' = s \<and> length ys = cJSON_GetArraySize J j \<and>
    (\<forall>i < length ys. parse (array_item J (Some j) i) s = (Ret (ys ! i), s))"
  using load_array_Ret_aux [where f = "array_item J (Some j)", OF assms(1) [unfolded load_array_def] assms(2)]
  by (auto simp: list_all2_conv_all_nth)

lemma parse_port_not_crash: "fst (parse_port J jo s) \<noteq> Crash"
  by (simp add: parse_port_def Let_def exit_def ret_def split: option.split)

lemma for_each_not_crash: "(\<And>x b s. fst (body x b s) \<noteq> Crash) \<Longrightarrow> fst (for_each body xs b s) \<noteq> Crash"
proof (induction xs arbitrary: b s)
  case (Cons x xs)
  then show ?case using Cons.prems [of x b s] by (cases "body x b s"; cases "fst (body x b s)") (auto simp: seq_def)
qed (simp add: ret_def)

text \<open>
  The port file is checked as a whole before the switch is touched: if any of its items is
  missing a field or has a speed other than 10, 25, 40 or 100, the program exits with no port added.
\<close>

theorem init_ports_checks_first:
  assumes "fs path = Some content" "cJSON_Parse J content = Some j" "i < cJSON_GetArraySize J j"
    and "\<forall>p. parse_port J (array_item J (Some j) i) s \<noteq> (Ret p, s)"
  shows "\<exists>msg. init_ports D dev_tgt fs J path s = (Exit msg, s)"
proof -
  have "snd (load_array J (parse_port J) j s) = s"
    by (intro pure_state pure_load_array pure_parse_port)
  then obtain r where r: "load_array J (parse_port J) j s = (r, s)" by (metis prod.collapse)
  have "fst (load_array J (parse_port J) j s) \<noteq> Crash"
    unfolding load_array_def
  proof (intro for_each_not_crash)
    show "fst (seq (parse_port J (array_item J (Some j) x)) (\<lambda>x. ret (b @ [x])) t) \<noteq> Crash" for x b t
      using parse_port_not_crash [of J "array_item J (Some j) x" t]
      by (cases "parse_port J (array_item J (Some j) x) t"; cases "fst (parse_port J (array_item J (Some j) x) t)")
        (auto simp: seq_def ret_def)
  qed
  moreover have "r \<noteq> Ret ys" for ys
    using load_array_Ret [of J "parse_port J" j s ys s, OF _ pure_parse_port] r assms(3,4) by auto
  ultimately obtain msg where "r = Exit msg" using r by (cases r) auto
  then show ?thesis using assms(1,2) r by (simp add: init_ports_def load_json_def seq_def ret_def)
qed

section \<open>A concrete file\<close>

text \<open>JSON values with just the constructors that the files use.\<close>

datatype ex_json = JInt int | JStr string | JArr "ex_json list" | JObj "(string \<times> ex_json) list"

definition ex_cjson :: "(string \<rightharpoonup> ex_json) \<Rightarrow> ex_json cjson" where
  "ex_cjson parse = \<lparr>cJSON_Parse = parse, cJSON_GetArraySize = (\<lambda>j. case j of JArr xs \<Rightarrow> length xs | _ \<Rightarrow> 0),
     cJSON_GetArrayItem = (\<lambda>j i. case j of JArr xs \<Rightarrow> if i < length xs then Some (xs ! i) else None | _ \<Rightarrow> None),
     cJSON_GetObjectItem = (\<lambda>j n. case j of JObj xs \<Rightarrow> map_of xs n | _ \<Rightarrow> None),
     cJSON_valueint = (\<lambda>j. case j of JInt v \<Rightarrow> v | _ \<Rightarrow> 0),
     cJSON_valuestring = (\<lambda>j. case j of JStr t \<Rightarrow> Some t | _ \<Rightarrow> None)\<rparr>"

theorem init_ports_checks_first_witness:
  "\<exists>msg. init_ports ref_bf_rt \<lparr>dev_id = 0, pipe_id = 0\<rparr> (\<lambda>_. Some ''x'')
     (ex_cjson (\<lambda>_. Some (JArr [JObj [(''port'', JStr ''1/0''), (''speed'', JInt 50)]]))) ''config/port.json'' rd_init = (Exit msg, rd_init)"
  by (rule init_ports_checks_first [where i = 0 and content = "''x''" and j = "JArr [JObj [(''port'', JStr ''1/0''), (''speed'', JInt 50)]]"])
    (simp_all add: ex_cjson_def parse_port_def object_item_def array_item_def exit_def Let_def)

end
