(* ===== verification/Controller.thy ===== *)
theory Controller
  imports Client Switch_Env
begin

text \<open>
  \<open>src/Switch/control_plane/src/controller.c\<close>: the controller reads the rules, the back-end servers and
  the virtual address from JSON files, sends them to every front end that connects, and turns the
  offload messages of the front ends into entries of the offload table.  The buffers of
  \<open>run_controller\<close> have their C sizes and survive from one event to the next; an access outside them
  is a \<open>Crash\<close>.
\<close>

section \<open>Data\<close>

record my_key =
  mk_crc :: u8
  mk_client_ip :: u32
  mk_client_port :: u16

record my_data =
  md_offload_flag :: u8
  md_d_index :: u8

record my_pair =
  mp_key :: my_key
  mp_data :: my_data

record rule =
  r_rule :: bytes
  r_d_index :: u8
  r_offload_flag :: u8

record server_info =
  si_mac :: bytes
  si_ip :: u32
  si_port :: u16

record d_index_entry =
  di_d_index :: u8
  di_server_info :: server_info

record controller =
  server_fd :: hdl
  epoll_fd :: hdl
  rules :: "rule list"
  d_index_table :: "d_index_entry list"
  v_info :: server_info

text \<open>
  The memory images of the structs on the wire: \<open>server_info_t\<close> has two bytes of padding after the
  MAC address and two at the end (zero, since the variables are static); \<open>my_key_t\<close> is 12 bytes and
  \<open>my_pair_t\<close> 16 bytes long.
\<close>

definition server_info_bytes :: "server_info \<Rightarrow> bytes" where
  "server_info_bytes v = si_mac v @ [0, 0] @ bytes32 (si_ip v) @ bytes16 (si_port v) @ [0, 0]"

definition sizeof_my_key :: nat where "sizeof_my_key = 12"
definition sizeof_my_pair :: nat where "sizeof_my_pair = 16"

section \<open>Reading the configuration\<close>

text \<open>A JSON string as the C string it is copied to: the bytes up to the first null character.\<close>

definition c_string :: "string \<Rightarrow> bytes" where
  "c_string s = takeWhile (\<lambda>b. b \<noteq> 0) (map of_char s)"

definition load_table :: "'j cjson \<Rightarrow> nat \<Rightarrow> ('j option \<Rightarrow> ('a, 's) prog) \<Rightarrow> 'j \<Rightarrow> ('a list, 's) prog" where
  "load_table J n parse j =
     for_each (\<lambda>i xs. seq (parse (array_item J (Some j) i)) (\<lambda>x. if i < n then ret (xs @ [x]) else crash))
       [0..<cJSON_GetArraySize J j] []"

definition parse_rule :: "'j cjson \<Rightarrow> 'j option \<Rightarrow> (rule, 's) prog" where
  "parse_rule J rule_item =
     (if rule_item = None then exit ''cJSON_GetArrayItem failed''
      else (case Option.bind (object_item J rule_item ''key'') (cJSON_valuestring J) of
          None \<Rightarrow> crash
        | Some key \<Rightarrow>
          if length (c_string key) \<ge> 20 then crash
          else
            seq (int_of J (object_item J rule_item ''d_index'')) (\<lambda>d_index.
            seq (int_of J (object_item J rule_item ''offload_flag'')) (\<lambda>offload_flag.
            ret \<lparr>r_rule = c_string key, r_d_index = word_of_int d_index, r_offload_flag = word_of_int offload_flag\<rparr>))))"

definition parse_mac :: "'j cjson \<Rightarrow> 'j option \<Rightarrow> (bytes, 's) prog" where
  "parse_mac J mac_array =
     for_each (\<lambda>j mac. seq (int_of J (array_item J mac_array j)) (\<lambda>v. ret (mac @ [word_of_int v]))) [0, 1, 2, 3, 4, 5] []"

definition parse_server_info :: "'j cjson \<Rightarrow> 'j option \<Rightarrow> (server_info, 's) prog" where
  "parse_server_info J item =
     seq (int_of J (object_item J item ''ip'')) (\<lambda>ip.
     seq (int_of J (object_item J item ''port'')) (\<lambda>port.
     seq (parse_mac J (object_item J item ''mac_array'')) (\<lambda>mac.
     ret \<lparr>si_mac = mac, si_ip = word_of_int ip, si_port = word_of_int port\<rparr>)))"

definition parse_d_index :: "'j cjson \<Rightarrow> 'j option \<Rightarrow> (d_index_entry, 's) prog" where
  "parse_d_index J d_index_item =
     (if d_index_item = None then exit ''cJSON_GetArrayItem failed''
      else
        seq (int_of J (object_item J d_index_item ''d_index'')) (\<lambda>d_index.
        seq (parse_server_info J d_index_item) (\<lambda>server_info.
        ret \<lparr>di_d_index = word_of_int d_index, di_server_info = server_info\<rparr>)))"

definition init_controller ::
  "'s sys \<Rightarrow> (string \<Rightarrow> string option) \<Rightarrow> 'j cjson \<Rightarrow> string \<Rightarrow> u16 \<Rightarrow> string \<Rightarrow> string \<Rightarrow> string \<Rightarrow> (controller, 's) prog" where
  "init_controller S fs J ip port rule_json_path d_index_json_path v_info_json_path =
     check ''socket failed'' (sys_socket S) (\<lambda>server_fd.
     check ''server bind failed'' (sys_bind S server_fd ip port) (\<lambda>_.
     check ''listen failed'' (sys_listen S server_fd) (\<lambda>_.
     check ''epoll_create1 failed'' (sys_epoll_create1 S) (\<lambda>epoll_fd.
     check ''epoll_ctl failed'' (sys_epoll_add S epoll_fd server_fd) (\<lambda>_.
     seq (load_json fs J rule_json_path ''fopen failed'' ''cJSON_Parse failed'') (\<lambda>rule_array.
     seq (load_table J 256 (parse_rule J) rule_array) (\<lambda>rules.
     seq (load_json fs J d_index_json_path ''fopen failed'' ''cJSON_Parse failed'') (\<lambda>d_index_array.
     seq (load_table J 256 (parse_d_index J) d_index_array) (\<lambda>d_index_table.
     seq (load_json fs J v_info_json_path ''fopen failed'' ''cJSON_Parse failed'') (\<lambda>v_info_obj.
     seq (parse_server_info J (Some v_info_obj)) (\<lambda>v_info.
     ret \<lparr>server_fd = server_fd, epoll_fd = epoll_fd, rules = rules, d_index_table = d_index_table, v_info = v_info\<rparr>)))))))))))"

section \<open>Greeting a front end\<close>

text \<open>Writing into the send buffer: the buffer and the number of bytes written so far.\<close>

type_synonym out_buf = "bytes \<times> nat"

definition put :: "bytes \<Rightarrow> out_buf \<Rightarrow> out_buf option" where
  "put bs = (\<lambda>(buf, now_bytes). do { buf \<leftarrow> stn buf now_bytes bs; Some (buf, now_bytes + length bs) })"

text \<open>\<open>strcpy\<close> writes the terminating zero too, which the next assignment writes again.\<close>

definition put_rule :: "rule \<Rightarrow> out_buf \<Rightarrow> out_buf option" where
  "put_rule r ob = do {
     ob \<leftarrow> put (r_rule r) ob;
     ob \<leftarrow> put [0] ob;
     ob \<leftarrow> put [r_d_index r] ob;
     put [r_offload_flag r] ob
   }"

definition put_d_index :: "d_index_entry \<Rightarrow> out_buf \<Rightarrow> out_buf option" where
  "put_d_index d ob = do {
     ob \<leftarrow> put [di_d_index d] ob;
     put (server_info_bytes (di_server_info d)) ob
   }"

fun put_all :: "('a \<Rightarrow> out_buf \<Rightarrow> out_buf option) \<Rightarrow> 'a list \<Rightarrow> out_buf \<Rightarrow> out_buf option" where
  "put_all f [] ob = Some ob"
| "put_all f (x # xs) ob = do { ob \<leftarrow> f x ob; put_all f xs ob }"

definition rules_message :: "controller \<Rightarrow> bytes \<Rightarrow> out_buf option" where
  "rules_message c send_buffer = do {
     ob \<leftarrow> put [0, word_of_nat (length (rules c)), 0] (send_buffer, 0);
     put_all put_rule (rules c) ob
   }"

definition d_index_message :: "controller \<Rightarrow> bytes \<Rightarrow> out_buf option" where
  "d_index_message c send_buffer = do {
     ob \<leftarrow> put [1, word_of_nat (length (d_index_table c)), 0] (send_buffer, 0);
     put_all put_d_index (d_index_table c) ob
   }"

definition v_info_message :: "controller \<Rightarrow> bytes \<Rightarrow> out_buf option" where
  "v_info_message c send_buffer = do {
     ob \<leftarrow> put [2] (send_buffer, 0);
     ob \<leftarrow> put (server_info_bytes (v_info c)) ob;
     put [0, 0, 0] ob
   }"

definition send_message :: "'s sys \<Rightarrow> hdl \<Rightarrow> out_buf option \<Rightarrow> (bytes, 's) prog" where
  "send_message S client_fd m =
     (case m of
        None \<Rightarrow> crash
      | Some (send_buffer, now_bytes) \<Rightarrow>
          check ''send failed'' (sys_send S client_fd (take now_bytes send_buffer)) (\<lambda>_. ret send_buffer))"

definition handle_accept :: "'s sys \<Rightarrow> controller \<Rightarrow> bytes \<Rightarrow> (bytes, 's) prog" where
  "handle_accept S c send_buffer =
     check ''accept failed'' (sys_accept S (server_fd c)) (\<lambda>client_fd.
     check ''setsockopt'' (sys_set_nodelay S client_fd) (\<lambda>_.
     check ''epoll_ctl failed'' (sys_epoll_add S (epoll_fd c) client_fd) (\<lambda>_.
     seq (send_message S client_fd (rules_message c send_buffer)) (\<lambda>send_buffer.
     seq (send_message S client_fd (d_index_message c send_buffer)) (\<lambda>send_buffer.
     seq (\<lambda>s. (Ret (), sys_sleep S 1 s)) (\<lambda>_.
     send_message S client_fd (v_info_message c send_buffer)))))))"

section \<open>Offload messages\<close>

text \<open>The fields of the structs that the code reads out of the receive buffer at an offset.\<close>

definition read_key :: "bytes \<Rightarrow> nat \<Rightarrow> (u32 \<times> u16) option" where
  "read_key buf now_bytes = do {
     ip \<leftarrow> ld32 buf (now_bytes + 4);
     port \<leftarrow> ld16 buf (now_bytes + 8);
     Some (ip, port)
   }"

definition read_pair :: "bytes \<Rightarrow> nat \<Rightarrow> (u32 \<times> u16 \<times> u8) option" where
  "read_pair buf now_bytes = do {
     (ip, port) \<leftarrow> read_key buf now_bytes;
     d_index \<leftarrow> ld8 buf (now_bytes + 13);
     Some (ip, port, d_index)
   }"

text \<open>
  One addition and one deletion.  None of the statuses is looked at.  The handles are taken from the
  arrays \<open>key_hdl\<close> and \<open>data_hdl\<close> of the table information, which have 256 elements each; an access
  outside an array is undefined behaviour.
\<close>

definition elem_at :: "'a list \<Rightarrow> nat \<Rightarrow> 'a option" where
  "elem_at xs n = (if n < length xs then Some (xs ! n) else None)"

definition add_entry ::
  "'s bf_rt \<Rightarrow> hdl \<Rightarrow> bf_rt_target \<Rightarrow> offload_connection_table_info \<Rightarrow> nat \<Rightarrow> u32 \<times> u16 \<times> u8 \<Rightarrow> (unit, 's) prog" where
  "add_entry D session dev_tgt i entry_index = (\<lambda>(ip, port, d_index).
     case elem_at (oft_key_hdl i) entry_index of
       None \<Rightarrow> crash
     | Some key_hdl \<Rightarrow>
         ignore () (bf_rt_key_field_set_value D key_hdl (oft_kid_cip i) (ucast ip)) (\<lambda>_.
         ignore () (bf_rt_key_field_set_value D key_hdl (oft_kid_cport i) (ucast port)) (\<lambda>_.
         (case elem_at (oft_data_hdl i) entry_index of
            None \<Rightarrow> crash
          | Some data_hdl \<Rightarrow>
              ignore () (bf_rt_data_field_set_value D data_hdl (oft_did_d_index i) (ucast d_index)) (\<lambda>_.
              ignore () (bf_rt_table_entry_add D (oft_table_hdl i) session dev_tgt key_hdl data_hdl) (\<lambda>_. ret ()))))))"

definition del_entry_op ::
  "'s bf_rt \<Rightarrow> hdl \<Rightarrow> bf_rt_target \<Rightarrow> offload_connection_table_info \<Rightarrow> nat \<Rightarrow> u32 \<times> u16 \<Rightarrow> (unit, 's) prog" where
  "del_entry_op D session dev_tgt i entry_index = (\<lambda>(ip, port).
     case elem_at (oft_key_hdl i) entry_index of
       None \<Rightarrow> crash
     | Some key_hdl \<Rightarrow>
         ignore () (bf_rt_key_field_set_value D key_hdl (oft_kid_cip i) (ucast ip)) (\<lambda>_.
         ignore () (bf_rt_key_field_set_value D key_hdl (oft_kid_cport i) (ucast port)) (\<lambda>_.
         ignore () (bf_rt_table_entry_del D (oft_table_hdl i) session dev_tgt key_hdl) (\<lambda>_. ret ()))))"

text \<open>The two loops of one message; the state is \<open>(entry_index, now_bytes)\<close>.\<close>

fun add_entries ::
  "'s bf_rt \<Rightarrow> hdl \<Rightarrow> bf_rt_target \<Rightarrow> offload_connection_table_info \<Rightarrow> bytes \<Rightarrow> nat \<Rightarrow> nat \<times> nat \<Rightarrow> (nat \<times> nat, 's) prog" where
  "add_entries D session dev_tgt i buf 0 (entry_index, now_bytes) = ret (entry_index, now_bytes)"
| "add_entries D session dev_tgt i buf (Suc n) (entry_index, now_bytes) =
     (case read_pair buf now_bytes of
        None \<Rightarrow> crash
      | Some pair \<Rightarrow>
          seq (add_entry D session dev_tgt i entry_index pair) (\<lambda>_.
          add_entries D session dev_tgt i buf n (entry_index + 1, now_bytes + sizeof_my_pair)))"

fun del_entries ::
  "'s bf_rt \<Rightarrow> hdl \<Rightarrow> bf_rt_target \<Rightarrow> offload_connection_table_info \<Rightarrow> bytes \<Rightarrow> nat \<Rightarrow> nat \<times> nat \<Rightarrow> (nat \<times> nat, 's) prog" where
  "del_entries D session dev_tgt i buf 0 (entry_index, now_bytes) = ret (entry_index, now_bytes)"
| "del_entries D session dev_tgt i buf (Suc n) (entry_index, now_bytes) =
     (case read_key buf now_bytes of
        None \<Rightarrow> crash
      | Some key \<Rightarrow>
          seq (del_entry_op D session dev_tgt i entry_index key) (\<lambda>_.
          del_entries D session dev_tgt i buf n (entry_index + 1, now_bytes + sizeof_my_key)))"

definition handle_message ::
  "'s bf_rt \<Rightarrow> hdl \<Rightarrow> bf_rt_target \<Rightarrow> offload_connection_table_info \<Rightarrow> bytes \<Rightarrow> nat \<times> nat \<Rightarrow> (nat \<times> nat, 's) prog" where
  "handle_message D session dev_tgt i buf = (\<lambda>(entry_index, now_bytes).
     (case (ld8 buf (now_bytes + 1), ld8 buf (now_bytes + 2)) of
        (Some add_size, Some del_size) \<Rightarrow>
          seq (add_entries D session dev_tgt i buf (unat add_size) (entry_index, now_bytes + 3))
            (del_entries D session dev_tgt i buf (unat del_size))
      | _ \<Rightarrow> crash))"

text \<open>
  The loop over the messages of one \<open>recv\<close>.  Every message moves \<open>now_bytes\<close> on by at least three, so
  fuel \<open>recv_size + 1\<close> is never used up.
\<close>

fun handle_messages ::
  "nat \<Rightarrow> 's bf_rt \<Rightarrow> hdl \<Rightarrow> bf_rt_target \<Rightarrow> offload_connection_table_info \<Rightarrow> bytes \<Rightarrow> nat \<Rightarrow> nat \<times> nat \<Rightarrow> (nat \<times> nat, 's) prog" where
  "handle_messages 0 D session dev_tgt i buf recv_size st = ret st"
| "handle_messages (Suc fuel) D session dev_tgt i buf recv_size (entry_index, now_bytes) =
     (if now_bytes \<le> recv_size then
        (case ld8 buf now_bytes of
           None \<Rightarrow> crash
         | Some op \<Rightarrow>
             if op = 3 then
               seq (handle_message D session dev_tgt i buf (entry_index, now_bytes))
                 (handle_messages fuel D session dev_tgt i buf recv_size)
             else ret (entry_index, now_bytes))
      else ret (entry_index, now_bytes))"

text \<open>One readable connection; the state is the receive buffer and \<open>entry_index\<close>.\<close>

definition handle_recv ::
  "'s bf_rt \<Rightarrow> 's sys \<Rightarrow> hdl \<Rightarrow> bf_rt_target \<Rightarrow> offload_connection_table_info \<Rightarrow> hdl \<Rightarrow> bytes \<times> nat \<Rightarrow> (bytes \<times> nat, 's) prog" where
  "handle_recv D S session dev_tgt i client_fd = (\<lambda>(recv_buffer, entry_index).
     check ''recv failed'' (sys_recv S client_fd 1024) (\<lambda>data.
     if data = [] then (\<lambda>s. (Ret (recv_buffer, entry_index), sys_close S client_fd s))
     else
       (case stn recv_buffer 0 data of
          None \<Rightarrow> crash
        | Some recv_buffer \<Rightarrow>
          (\<lambda>s. (case bf_rt_begin_batch D session s of
             (None, s) \<Rightarrow> (Ret (recv_buffer, entry_index), s)
           | (Some _, s) \<Rightarrow>
               seq (handle_messages (length data + 1) D session dev_tgt i recv_buffer (length data) (entry_index, 0)) (\<lambda>(entry_index, _).
               ignore () (bf_rt_end_batch D session True) (\<lambda>_.
               ret (recv_buffer, entry_index))) s)))))"

definition handle_event ::
  "'s bf_rt \<Rightarrow> 's sys \<Rightarrow> hdl \<Rightarrow> bf_rt_target \<Rightarrow> offload_connection_table_info \<Rightarrow> controller \<Rightarrow> hdl \<Rightarrow> bytes \<times> bytes \<times> nat \<Rightarrow>
   (bytes \<times> bytes \<times> nat, 's) prog" where
  "handle_event D S session dev_tgt i c fd = (\<lambda>(send_buffer, recv_buffer, entry_index).
     if fd = server_fd c then
       seq (handle_accept S c send_buffer) (\<lambda>send_buffer. ret (send_buffer, recv_buffer, entry_index))
     else
       seq (handle_recv D S session dev_tgt i fd (recv_buffer, entry_index)) (\<lambda>(recv_buffer, entry_index).
       ret (send_buffer, recv_buffer, entry_index)))"

text \<open>One round of the endless loop, and \<open>n\<close> rounds of it.\<close>

definition controller_round ::
  "'s bf_rt \<Rightarrow> 's sys \<Rightarrow> hdl \<Rightarrow> bf_rt_target \<Rightarrow> offload_connection_table_info \<Rightarrow> controller \<Rightarrow> bytes \<times> bytes \<Rightarrow> (bytes \<times> bytes, 's) prog" where
  "controller_round D S session dev_tgt i c = (\<lambda>(send_buffer, recv_buffer).
     check ''epoll_wait failed'' (sys_epoll_wait S (epoll_fd c) 10) (\<lambda>events.
     seq (for_each (handle_event D S session dev_tgt i c) events (send_buffer, recv_buffer, 0))
       (\<lambda>(send_buffer, recv_buffer, entry_index). ret (send_buffer, recv_buffer))))"

fun run_controller ::
  "nat \<Rightarrow> 's bf_rt \<Rightarrow> 's sys \<Rightarrow> hdl \<Rightarrow> bf_rt_target \<Rightarrow> offload_connection_table_info \<Rightarrow> controller \<Rightarrow> bytes \<times> bytes \<Rightarrow>
   (bytes \<times> bytes, 's) prog" where
  "run_controller 0 D S session dev_tgt i c bufs = ret bufs"
| "run_controller (Suc n) D S session dev_tgt i c bufs =
     seq (controller_round D S session dev_tgt i c bufs) (run_controller n D S session dev_tgt i c)"

section \<open>What is sent to a front end\<close>

text \<open>
  The contract of a function that writes one record into the send buffer: it appends the encoding of
  the record, or leaves the buffer's range.
\<close>

locale record_writer =
  fixes f :: "'a \<Rightarrow> out_buf \<Rightarrow> out_buf option" and enc :: "'a \<Rightarrow> bytes"
  assumes writes: "f x (buf, n) = (if n + length (enc x) \<le> length buf
    then Some (patch buf n (enc x), n + length (enc x)) else None)"
begin

lemma put_all_eq:
  "n \<le> length buf \<Longrightarrow> put_all f xs (buf, n) = (if n + length (concat (map enc xs)) \<le> length buf
    then Some (patch buf n (concat (map enc xs)), n + length (concat (map enc xs))) else None)"
proof (induction xs arbitrary: buf n)
  case Nil
  then show ?case by (simp add: patch_def)
next
  case (Cons x xs)
  show ?case
  proof (cases "n + length (enc x) \<le> length buf")
    case True
    then have "patch (patch buf n (enc x)) (n + length (enc x)) bs = patch buf n (enc x @ bs)"
      if "n + length (enc x) + length bs \<le> length buf" for bs
      using that by (simp add: patch_patch_append)
    then show ?thesis using Cons.IH [of "n + length (enc x)" "patch buf n (enc x)"] True by (simp add: writes add.assoc)
  qed (simp add: writes)
qed

end

definition rule_bytes :: "rule \<Rightarrow> bytes" where
  "rule_bytes r = r_rule r @ [0, r_d_index r, r_offload_flag r]"

definition d_index_bytes :: "d_index_entry \<Rightarrow> bytes" where
  "d_index_bytes d = di_d_index d # server_info_bytes (di_server_info d)"

lemma put_eq: "put bs (buf, n) = (if n + length bs \<le> length buf then Some (patch buf n bs, n + length bs) else None)"
  by (simp add: put_def stn_def)

interpretation rule_writer: record_writer put_rule rule_bytes
proof
  show "put_rule r (buf, n) = (if n + length (rule_bytes r) \<le> length buf
      then Some (patch buf n (rule_bytes r), n + length (rule_bytes r)) else None)" for r buf n
    by (auto simp: put_rule_def put_eq rule_bytes_def patch_patch_append)
qed

interpretation d_index_writer: record_writer put_d_index d_index_bytes
proof
  show "put_d_index d (buf, n) = (if n + length (d_index_bytes d) \<le> length buf
      then Some (patch buf n (d_index_bytes d), n + length (d_index_bytes d)) else None)" for d buf n
    by (auto simp: put_d_index_def put_eq d_index_bytes_def patch_patch_append)
qed

definition rules_bytes :: "rule list \<Rightarrow> bytes" where
  "rules_bytes rs = [0, word_of_nat (length rs), 0] @ concat (map rule_bytes rs)"

definition d_index_table_bytes :: "d_index_entry list \<Rightarrow> bytes" where
  "d_index_table_bytes ds = [1, word_of_nat (length ds), 0] @ concat (map d_index_bytes ds)"

lemma rules_message_eq:
  assumes "3 \<le> length buf"
  shows "rules_message c buf = (if length (rules_bytes (rules c)) \<le> length buf
    then Some (patch buf 0 (rules_bytes (rules c)), length (rules_bytes (rules c))) else None)"
  using assms by (auto simp: rules_message_def put_eq rule_writer.put_all_eq rules_bytes_def patch_patch_append)

lemma d_index_message_eq:
  assumes "3 \<le> length buf"
  shows "d_index_message c buf = (if length (d_index_table_bytes (d_index_table c)) \<le> length buf
    then Some (patch buf 0 (d_index_table_bytes (d_index_table c)), length (d_index_table_bytes (d_index_table c))) else None)"
  using assms by (auto simp: d_index_message_def put_eq d_index_writer.put_all_eq d_index_table_bytes_def patch_patch_append)

text \<open>
  (C30) The first and the second message of the greeting are exactly the encodings of the rules and of
  the back-end servers; when one of them does not fit into the 1024 bytes of the send buffer, the
  controller writes past its end.
\<close>

theorem greeting_messages:
  assumes "length send_buffer = 1024"
  shows "(case rules_message c send_buffer of
      None \<Rightarrow> 1024 < length (rules_bytes (rules c))
    | Some (buf, n) \<Rightarrow> length buf = 1024 \<and> take n buf = rules_bytes (rules c)) \<and>
    (case d_index_message c send_buffer of
      None \<Rightarrow> 1024 < length (d_index_table_bytes (d_index_table c))
    | Some (buf, n) \<Rightarrow> length buf = 1024 \<and> take n buf = d_index_table_bytes (d_index_table c))"
  using assms by (simp add: rules_message_eq d_index_message_eq patch_def)

text \<open>
  (C39) The table of back-end servers has room for 256 of them, but the message that announces them is
  sent only if there are at most 60; with more, the send buffer overflows.
\<close>

theorem d_index_message_fits_iff:
  assumes "length send_buffer = 1024" "\<forall>d \<in> set (d_index_table c). length (si_mac (di_server_info d)) = 6"
  shows "d_index_message c send_buffer = None \<longleftrightarrow> 60 < length (d_index_table c)"
proof -
  have "\<forall>d \<in> set ds. length (si_mac (di_server_info d)) = 6 \<Longrightarrow> length (concat (map d_index_bytes ds)) = 17 * length ds" for ds
    by (induction ds) (auto simp: d_index_bytes_def server_info_bytes_def)
  then have "length (d_index_table_bytes (d_index_table c)) = 3 + 17 * length (d_index_table c)"
    using assms(2) by (simp add: d_index_table_bytes_def)
  then show ?thesis using assms(1) by (simp add: d_index_message_eq)
qed

section \<open>What an offload message does\<close>

text \<open>
  What the offload path relies on.  It ignores every status, so what it does to the table is known only as far as
  calls succeed: setting a field of a key or data object and deleting an entry that is there succeed, and the
  addition of an entry that is not there succeeds as long as the table has \<open>room\<close>.  Nothing is assumed of
  an addition to a full table; the driver may refuse it.  The table has a fixed size
  (\<open>size = 143360\<close> in \<open>l7lb_switch.p4\<close>): room for so many entries is \<open>has_room 143360\<close>.
\<close>

definition has_room :: "nat \<Rightarrow> (match \<rightharpoonup> action) \<Rightarrow> bool" where
  "has_room cap T \<longleftrightarrow> finite (dom T) \<and> card (dom T) < cap"

locale bf_rt_sized = bf_rt_driver +
  fixes room :: "(match \<rightharpoonup> action) \<Rightarrow> bool"
  assumes key_set_ok: "fst (bf_rt_key_field_set_value D h f x s) = Some ()"
    and data_set_ok: "fst (bf_rt_data_field_set_value D h f x s) = Some ()"
    and entry_add_ok: "d_key (view s) k \<notin> dom (d_table (view s) t) \<Longrightarrow> room (d_table (view s) t) \<Longrightarrow>
      fst (bf_rt_table_entry_add D t ses tgt k d s) = Some ()"
    and entry_del_ok: "d_key (view s) k \<in> dom (d_table (view s) t) \<Longrightarrow> fst (bf_rt_table_entry_del D t ses tgt k s) = Some ()"

text \<open>The reference driver, and the same driver with tables of a fixed size that refuse any further entry.\<close>

definition sized_bf_rt :: "nat \<Rightarrow> ref_driver bf_rt" where
  "sized_bf_rt cap = ref_bf_rt\<lparr>bf_rt_table_entry_add := (\<lambda>t ses tgt k d r.
     if has_room cap (rd_table r t) then rd_entry_add t k d r else (None, r))\<rparr>"

interpretation ref_rel: bf_rt_sized ref_bf_rt rd_view "\<lambda>_. True"
  by unfold_locales (auto simp: ref_bf_rt_def rd_view_def rd_entry_add_def rd_entry_del_def domIff)

interpretation sized_drv: bf_rt_driver "sized_bf_rt cap" rd_view for cap
  by unfold_locales
    (auto simp: sized_bf_rt_def ref_bf_rt_def rd_view_def effect_def new_key_def new_data_def set_key_def set_data_def
      reset_key_def reset_data_def put_entry_def del_entry_def rd_entry_add_def rd_entry_del_def lessThan_Suc
      split: option.split if_splits dest: position_nth)

interpretation sized_rel: bf_rt_sized "sized_bf_rt cap" rd_view "has_room cap" for cap
  by unfold_locales (auto simp: sized_bf_rt_def ref_bf_rt_def rd_view_def rd_entry_add_def rd_entry_del_def domIff)

text \<open>The specification: the offload table as a map from client endpoints to server indices.\<close>

definition oft_key :: "offload_connection_table_info \<Rightarrow> u32 \<times> u16 \<Rightarrow> match" where
  "oft_key i = (\<lambda>(ip, port). [oft_kid_cip i \<mapsto> Exact (ucast ip), oft_kid_cport i \<mapsto> Exact (ucast port)])"

definition oft_add :: "offload_connection_table_info \<Rightarrow> u32 \<times> u16 \<times> u8 \<Rightarrow> (match \<rightharpoonup> action) \<Rightarrow> match \<rightharpoonup> action" where
  "oft_add i = (\<lambda>(ip, port, d_index) T. if T (oft_key i (ip, port)) = None
     then T(oft_key i (ip, port) \<mapsto> (oft_aid_oft_hit i, [oft_did_d_index i \<mapsto> ucast d_index])) else T)"

definition oft_del :: "offload_connection_table_info \<Rightarrow> u32 \<times> u16 \<Rightarrow> (match \<rightharpoonup> action) \<Rightarrow> match \<rightharpoonup> action" where
  "oft_del i k T = T(oft_key i k := None)"

text \<open>
  A sequence of operations, as the driver may perform it: an addition is done, or changes nothing because the key is
  there already, or is refused because the table is full.
\<close>

datatype oft_op = OAdd u32 u16 u8 | ODel u32 u16

fun op_apply :: "offload_connection_table_info \<Rightarrow> oft_op \<Rightarrow> (match \<rightharpoonup> action) \<Rightarrow> match \<rightharpoonup> action" where
  "op_apply i (OAdd ip port d_index) = oft_add i (ip, port, d_index)"
| "op_apply i (ODel ip port) = oft_del i (ip, port)"

fun op_fits :: "((match \<rightharpoonup> action) \<Rightarrow> bool) \<Rightarrow> offload_connection_table_info \<Rightarrow> oft_op \<Rightarrow> (match \<rightharpoonup> action) \<Rightarrow> bool" where
  "op_fits room i (OAdd ip port d_index) T \<longleftrightarrow> T (oft_key i (ip, port)) \<noteq> None \<or> room T"
| "op_fits room i (ODel ip port) T \<longleftrightarrow> True"

inductive oft_run :: "((match \<rightharpoonup> action) \<Rightarrow> bool) \<Rightarrow> offload_connection_table_info \<Rightarrow> oft_op list \<Rightarrow>
    (match \<rightharpoonup> action) \<Rightarrow> (match \<rightharpoonup> action) \<Rightarrow> bool" for room i where
  finish: "oft_run room i [] T T"
| perform: "oft_run room i ops (op_apply i x T) T' \<Longrightarrow> oft_run room i (x # ops) T T'"
| refuse: "\<not> op_fits room i x T \<Longrightarrow> oft_run room i ops T T' \<Longrightarrow> oft_run room i (x # ops) T T'"

inductive_cases oft_run_NilE: "oft_run room i [] T T'"
inductive_cases oft_run_ConsE: "oft_run room i (x # ops) T T'"

lemma oft_run_append: "oft_run room i xs T T1 \<Longrightarrow> oft_run room i ys T1 T2 \<Longrightarrow> oft_run room i (xs @ ys) T T2"
  by (induction rule: oft_run.induct) (auto intro: oft_run.intros)

text \<open>As long as every addition fits, the outcome is determined.\<close>

fun fits :: "((match \<rightharpoonup> action) \<Rightarrow> bool) \<Rightarrow> offload_connection_table_info \<Rightarrow> oft_op list \<Rightarrow> (match \<rightharpoonup> action) \<Rightarrow> bool" where
  "fits room i [] T \<longleftrightarrow> True"
| "fits room i (x # ops) T \<longleftrightarrow> op_fits room i x T \<and> fits room i ops (op_apply i x T)"

lemma oft_run_fits: "oft_run room i ops T T' \<Longrightarrow> fits room i ops T \<Longrightarrow> T' = fold (op_apply i) ops T"
  by (induction rule: oft_run.induct) auto

lemma fits_True: "fits (\<lambda>_. True) i ops T"
proof (induction ops arbitrary: T)
  case (Cons x ops)
  then show ?case by (cases x) auto
qed simp

definition is_add :: "oft_op \<Rightarrow> bool" where
  "is_add x \<longleftrightarrow> (\<exists>ip port d. x = OAdd ip port d)"

lemma is_add_simps [simp]: "is_add (OAdd ip port d)" "\<not> is_add (ODel ip port)"
  by (simp_all add: is_add_def)

lemma op_apply_card:
  assumes "finite (dom T)"
  shows "finite (dom (op_apply i x T)) \<and> card (dom (op_apply i x T)) \<le> card (dom T) + (if is_add x then 1 else 0)"
proof (cases x)
  case (OAdd ip port d)
  then show ?thesis using assms by (simp add: oft_add_def card_insert_if)
next
  case (ODel ip port)
  then show ?thesis using assms card_mono [of "dom T" "dom T - {oft_key i (ip, port)}"] by (simp add: oft_del_def)
qed

lemma fits_has_room:
  "finite (dom T) \<Longrightarrow> card (dom T) + length (filter is_add ops) \<le> cap \<Longrightarrow> fits (has_room cap) i ops T"
proof (induction ops arbitrary: T)
  case (Cons x ops)
  have "op_fits (has_room cap) i x T" using Cons.prems by (cases x) (auto simp: has_room_def)
  moreover have "fits (has_room cap) i ops (op_apply i x T)"
    using Cons.prems op_apply_card [OF Cons.prems(1), of i x] by (intro Cons.IH) (auto split: if_splits)
  ultimately show ?case by simp
qed simp

text \<open>A call without a result whose status is ignored only moves the state on.\<close>

lemma ignore_unit [simp]: "ignore () c k s = k () (snd (c s))"
  by (auto simp: ignore_def split: prod.splits option.splits)

lemma effect_ok: "effect view c eff \<Longrightarrow> fst (c s) = Some () \<Longrightarrow> view (snd (c s)) = eff () (view s)"
  by (simp add: effect_def)

text \<open>A step of the offload path performs the given operations on the offload table and keeps the slots ready.\<close>

definition oft_step :: "('s \<Rightarrow> driver_view) \<Rightarrow> ((match \<rightharpoonup> action) \<Rightarrow> bool) \<Rightarrow> offload_connection_table_info \<Rightarrow> oft_op list \<Rightarrow> 's \<Rightarrow> 's \<Rightarrow> bool" where
  "oft_step view room i ops s s' \<longleftrightarrow> oft_ready i (view s') \<and>
     (\<exists>T'. oft_run room i ops (d_table (view s) (oft_table_hdl i)) T' \<and> d_table (view s') = (d_table (view s))(oft_table_hdl i := T'))"

lemma oft_step_refl: "oft_ready i (view s) \<Longrightarrow> oft_step view room i [] s s"
  by (auto simp: oft_step_def intro: oft_run.finish)

lemma oft_step_trans:
  "oft_step view room i xs s s1 \<Longrightarrow> oft_step view room i ys s1 s2 \<Longrightarrow> oft_step view room i (xs @ ys) s s2"
  unfolding oft_step_def using oft_run_append by fastforce

lemma oft_step_ready: "oft_step view room i ops s s' \<Longrightarrow> oft_ready i (view s')"
  by (simp add: oft_step_def)

lemma oft_step_fits:
  assumes "oft_step view room i ops s s'" "fits room i ops (d_table (view s) (oft_table_hdl i))"
  shows "d_table (view s') = (d_table (view s))(oft_table_hdl i := fold (op_apply i) ops (d_table (view s) (oft_table_hdl i)))"
  using assms oft_run_fits by (auto simp: oft_step_def)

context bf_rt_sized begin

text \<open>Filling in the two key fields of a slot.\<close>

abbreviation slot_key :: "offload_connection_table_info \<Rightarrow> nat \<Rightarrow> u32 \<Rightarrow> u16 \<Rightarrow> 'a \<Rightarrow> 'a" where
  "slot_key i n ip port s \<equiv> snd (bf_rt_key_field_set_value D (oft_key_hdl i ! n) (oft_kid_cport i) (ucast port)
     (snd (bf_rt_key_field_set_value D (oft_key_hdl i ! n) (oft_kid_cip i) (ucast ip) s)))"

lemma set_slot_key:
  assumes "oft_ready i (view s)" "n < 256"
  shows "d_key (view (slot_key i n ip port s)) (oft_key_hdl i ! n) = oft_key i (ip, port) \<and>
    oft_ready i (view (slot_key i n ip port s)) \<and> d_table (view (slot_key i n ip port s)) = d_table (view s)"
proof -
  let ?h = "oft_key_hdl i ! n"
  have v: "view (slot_key i n ip port s) =
      set_key ?h (oft_kid_cport i) (Exact (ucast port)) (set_key ?h (oft_kid_cip i) (Exact (ucast ip)) (view s))"
    by (simp add: effect_ok [OF key_set key_set_ok])
  have dom: "dom (d_key (view s) ?h) \<subseteq> {oft_kid_cip i, oft_kid_cport i}"
    using assms by (simp add: oft_ready_def)
  show ?thesis
    using assms key_fields(2) [OF dom] by (auto simp: v set_key_def oft_key_def oft_ready_def)
qed

lemma add_entry_effect:
  assumes "oft_ready i (view s)" "n < 256"
  shows "\<exists>s'. add_entry D ses tgt i n (ip, port, d) s = (Ret (), s') \<and> oft_step view room i [OAdd ip port d] s s'"
proof -
  let ?k = "oft_key_hdl i ! n" and ?h = "oft_data_hdl i ! n" and ?t = "oft_table_hdl i"
  define s2 where "s2 = slot_key i n ip port s"
  define s3 where "s3 = snd (bf_rt_data_field_set_value D ?h (oft_did_d_index i) (ucast d) s2)"
  define r where "r = bf_rt_table_entry_add D ?t ses tgt ?k ?h s3"
  note v2 = set_slot_key [OF assms, where ip = ip and port = port, folded s2_def]
  have v3: "view s3 = set_data ?h (oft_did_d_index i) (ucast d) (view s2)"
    unfolding s3_def by (rule effect_ok [OF data_set data_set_ok])
  have "fst (d_data (view s2) ?h) = oft_aid_oft_hit i" "dom (snd (d_data (view s2) ?h)) \<subseteq> {oft_did_d_index i}"
    using v2 assms(2) by (simp_all add: oft_ready_def)
  then have d3: "d_data (view s3) ?h = (oft_aid_oft_hit i, [oft_did_d_index i \<mapsto> ucast d])"
    by (simp add: v3 set_data_def data_fields)
  have r3: "oft_ready i (view s3)" "d_table (view s3) = d_table (view s)" "d_key (view s3) ?k = oft_key i (ip, port)"
    using v2 by (auto simp: v3 set_data_def oft_ready_def)
  have v4: "view (snd r) = (case fst r of None \<Rightarrow> view s3 | Some _ \<Rightarrow> put_entry ?t (d_key (view s3) ?k) (d_data (view s3) ?h) (view s3))"
    using entry_add [of ?t ses tgt ?k ?h] by (simp add: effect_def r_def)
  have "oft_step view room i [OAdd ip port d] s (snd r)"
  proof (cases "fst r")
    case None
    let ?T = "d_table (view s) ?t"
    have "oft_run room i [OAdd ip port d] ?T ?T"
    proof (cases "?T (oft_key i (ip, port)) = None")
      case True
      then have "\<not> room ?T" using entry_add_ok [of s3 ?k ?t ses tgt ?h] r3 None by (auto simp: r_def)
      then show ?thesis using True by (auto intro: oft_run.refuse oft_run.finish)
    next
      case False
      then have "op_apply i (OAdd ip port d) ?T = ?T" by (auto simp: oft_add_def)
      then show ?thesis by (metis oft_run.perform oft_run.finish)
    qed
    then show ?thesis using v4 r3 None unfolding oft_step_def by (intro conjI exI [of _ ?T]) simp_all
  next
    case (Some u)
    then have "d_table (view s) ?t (oft_key i (ip, port)) = None"
      using entry_add_new [of ?t ses tgt ?k ?h s3 "()" "snd r"] r3 by (auto simp: r_def prod_eq_iff)
    then have "op_apply i (OAdd ip port d) (d_table (view s) ?t) =
        (d_table (view s) ?t)(oft_key i (ip, port) \<mapsto> (oft_aid_oft_hit i, [oft_did_d_index i \<mapsto> ucast d]))"
      by (simp add: oft_add_def)
    then show ?thesis
      using v4 r3 d3 Some oft_run.perform [OF oft_run.finish, of room i "OAdd ip port d" "d_table (view s) ?t"]
      by (auto simp: oft_step_def put_entry_def oft_ready_def)
  qed
  moreover have "add_entry D ses tgt i n (ip, port, d) s = (Ret (), snd r)"
    using assms by (simp add: add_entry_def elem_at_def oft_ready_def ret_def r_def s3_def s2_def)
  ultimately show ?thesis by blast
qed

lemma del_entry_effect:
  assumes "oft_ready i (view s)" "n < 256"
  shows "\<exists>s'. del_entry_op D ses tgt i n (ip, port) s = (Ret (), s') \<and> oft_step view room i [ODel ip port] s s'"
proof -
  let ?k = "oft_key_hdl i ! n" and ?t = "oft_table_hdl i"
  define s2 where "s2 = slot_key i n ip port s"
  define r where "r = bf_rt_table_entry_del D ?t ses tgt ?k s2"
  note v2 = set_slot_key [OF assms, where ip = ip and port = port, folded s2_def]
  have v3: "view (snd r) = (case fst r of None \<Rightarrow> view s2 | Some _ \<Rightarrow> del_entry ?t (d_key (view s2) ?k) (view s2))"
    using entry_del [of ?t ses tgt ?k] by (simp add: effect_def r_def)
  have "oft_key i (ip, port) \<notin> dom (d_table (view s) ?t)" if "fst r = None"
    using that entry_del_ok [of s2 ?k ?t ses tgt] v2 by (auto simp: r_def)
  then have "oft_ready i (view (snd r)) \<and> d_table (view (snd r)) = (d_table (view s))(?t := op_apply i (ODel ip port) (d_table (view s) ?t))"
    using v3 v2 by (auto simp: del_entry_def oft_ready_def oft_del_def fun_upd_idem domIff split: option.splits)
  then have "oft_step view room i [ODel ip port] s (snd r)"
    unfolding oft_step_def by (blast intro: oft_run.perform oft_run.finish)
  moreover have "del_entry_op D ses tgt i n (ip, port) s = (Ret (), snd r)"
    using assms by (simp add: del_entry_op_def elem_at_def oft_ready_def ret_def r_def s2_def)
  ultimately show ?thesis by blast
qed

end

section \<open>Whole messages\<close>

text \<open>
  An offload message as the front end sends it: the images of the pairs to add (16 bytes each) and of
  the keys to delete (12 bytes each), with whatever their padding holds.
\<close>

type_synonym batch = "bytes list \<times> bytes list"

definition key_of_bytes :: "bytes \<Rightarrow> u32 \<times> u16" where
  "key_of_bytes k = (le32 (k ! 4) (k ! 5) (k ! 6) (k ! 7), le16 (k ! 8) (k ! 9))"

definition pair_of_bytes :: "bytes \<Rightarrow> u32 \<times> u16 \<times> u8" where
  "pair_of_bytes p = (le32 (p ! 4) (p ! 5) (p ! 6) (p ! 7), le16 (p ! 8) (p ! 9), p ! 13)"

definition add_op :: "bytes \<Rightarrow> oft_op" where
  "add_op p = (case pair_of_bytes p of (ip, port, d_index) \<Rightarrow> OAdd ip port d_index)"

definition del_op :: "bytes \<Rightarrow> oft_op" where
  "del_op k = (case key_of_bytes k of (ip, port) \<Rightarrow> ODel ip port)"

definition batch_ops :: "batch \<Rightarrow> oft_op list" where
  "batch_ops b = map add_op (fst b) @ map del_op (snd b)"

definition batch_ok :: "batch \<Rightarrow> bool" where
  "batch_ok b \<longleftrightarrow> (\<forall>p \<in> set (fst b). length p = 16) \<and> (\<forall>k \<in> set (snd b). length k = 12) \<and>
     length (fst b) < 256 \<and> length (snd b) < 256"

definition batch_bytes :: "batch \<Rightarrow> bytes" where
  "batch_bytes b = [3, word_of_nat (length (fst b)), word_of_nat (length (snd b))] @ concat (fst b) @ concat (snd b)"

definition batch_size :: "batch \<Rightarrow> nat" where
  "batch_size b = length (fst b) + length (snd b)"

definition batch_apply :: "offload_connection_table_info \<Rightarrow> batch \<Rightarrow> (match \<rightharpoonup> action) \<Rightarrow> match \<rightharpoonup> action" where
  "batch_apply i b T = fold (oft_del i) (map key_of_bytes (snd b)) (fold (oft_add i) (map pair_of_bytes (fst b)) T)"

lemma length_concat_batches: "length ms \<le> length (concat (map batch_bytes ms))"
  by (induction ms) (auto simp: batch_bytes_def)

lemma fold_add_op: "fold (op_apply i) (map add_op ps) = fold (oft_add i) (map pair_of_bytes ps)"
  by (induction ps) (auto simp: add_op_def split: prod.split)

lemma fold_del_op: "fold (op_apply i) (map del_op ks) = fold (oft_del i) (map key_of_bytes ks)"
  by (induction ks) (auto simp: del_op_def split: prod.split)

lemma fold_batch_ops: "fold (op_apply i) (batch_ops b) = batch_apply i b"
  by (simp add: fun_eq_iff batch_ops_def batch_apply_def fold_add_op fold_del_op)

lemma fold_batches_ops: "fold (op_apply i) (concat (map batch_ops ms)) = fold (batch_apply i) ms"
  by (induction ms) (simp_all add: fold_batch_ops)

text \<open>The bytes \<open>bs\<close> stand in the buffer at an offset.\<close>

fun stands_at :: "bytes \<Rightarrow> nat \<Rightarrow> bytes \<Rightarrow> bool" where
  "stands_at buf off [] \<longleftrightarrow> off \<le> length buf"
| "stands_at buf off (b # bs) \<longleftrightarrow> off < length buf \<and> buf ! off = b \<and> stands_at buf (off + 1) bs"

lemma stands_at_append [simp]:
  "stands_at buf off (xs @ ys) \<longleftrightarrow> stands_at buf off xs \<and> stands_at buf (off + length xs) ys"
  by (induction xs arbitrary: off) (auto elim: stands_at.elims)

lemma stands_at_iff: "stands_at buf off bs \<longleftrightarrow> off + length bs \<le> length buf \<and> (\<forall>j < length bs. buf ! (off + j) = bs ! j)"
  by (induction bs arbitrary: off) (auto simp: nth_Cons' less_Suc_eq_0_disj all_conj_distrib)

lemma stands_at_nth: "stands_at buf off bs \<Longrightarrow> j < length bs \<Longrightarrow> off + j < length buf \<and> buf ! (off + j) = bs ! j"
  by (simp add: stands_at_iff)

lemma stands_at_patch: "length bs \<le> length buf \<Longrightarrow> stands_at (patch buf 0 bs) 0 bs"
  by (auto simp: stands_at_iff nth_patch)

lemma stands_at_patch_out: "stands_at buf off bs \<Longrightarrow> length xs \<le> off \<Longrightarrow> stands_at (patch buf 0 xs) off bs"
  by (auto simp: stands_at_iff nth_patch)

lemma read_key_at: "stands_at buf off k \<Longrightarrow> 10 \<le> length k \<Longrightarrow> read_key buf off = Some (key_of_bytes k)"
  using stands_at_nth [of buf off k 4] stands_at_nth [of buf off k 5] stands_at_nth [of buf off k 6]
    stands_at_nth [of buf off k 7] stands_at_nth [of buf off k 8] stands_at_nth [of buf off k 9]
  by (auto simp: read_key_def ld32_def ld16_def key_of_bytes_def add.commute [of _ off])

lemma read_pair_at: "stands_at buf off p \<Longrightarrow> length p = 16 \<Longrightarrow> read_pair buf off = Some (pair_of_bytes p)"
  using stands_at_nth [of buf off p 13]
  by (auto simp: read_pair_def read_key_at ld8_def pair_of_bytes_def key_of_bytes_def)

lemma concat_length: "\<forall>x \<in> set xs. length x = n \<Longrightarrow> length (concat xs) = n * length xs"
  by (induction xs) auto

lemma batch_bytes_length: "batch_ok b \<Longrightarrow> length (batch_bytes b) = 3 + 16 * length (fst b) + 12 * length (snd b)"
  using concat_length [of "fst b" 16] concat_length [of "snd b" 12] by (simp add: batch_bytes_def batch_ok_def)

context bf_rt_sized begin

lemma add_entries_at:
  assumes "stands_at buf off (concat ps)" "\<forall>p \<in> set ps. length p = 16" "n + length ps \<le> 256" "oft_ready i (view s)"
  shows "\<exists>s'. add_entries D ses tgt i buf (length ps) (n, off) s = (Ret (n + length ps, off + 16 * length ps), s') \<and>
    oft_step view room i (map add_op ps) s s'"
  using assms
proof (induction ps arbitrary: n off s)
  case (Cons p ps)
  from Cons.prems obtain s1 where s1: "add_entry D ses tgt i n (pair_of_bytes p) s = (Ret (), s1)"
    "oft_step view room i [add_op p] s s1"
    using add_entry_effect [of i s n ses tgt] by (cases "pair_of_bytes p") (auto simp: add_op_def, blast)
  moreover from Cons.prems obtain s2 where
    "add_entries D ses tgt i buf (length ps) (n + 1, off + 16) s1 = (Ret (n + 1 + length ps, off + 16 + 16 * length ps), s2)"
    "oft_step view room i (map add_op ps) s1 s2"
    using Cons.IH [of "off + 16" "n + 1" s1] oft_step_ready [OF s1(2)] by auto
  ultimately show ?case
    using Cons.prems oft_step_trans [OF s1(2)] by (auto simp: read_pair_at seq_def sizeof_my_pair_def)
qed (simp add: ret_def oft_step_refl)

lemma del_entries_at:
  assumes "stands_at buf off (concat ks)" "\<forall>k \<in> set ks. length k = 12" "n + length ks \<le> 256" "oft_ready i (view s)"
  shows "\<exists>s'. del_entries D ses tgt i buf (length ks) (n, off) s = (Ret (n + length ks, off + 12 * length ks), s') \<and>
    oft_step view room i (map del_op ks) s s'"
  using assms
proof (induction ks arbitrary: n off s)
  case (Cons k ks)
  from Cons.prems obtain s1 where s1: "del_entry_op D ses tgt i n (key_of_bytes k) s = (Ret (), s1)"
    "oft_step view room i [del_op k] s s1"
    using del_entry_effect [of i s n ses tgt] by (cases "key_of_bytes k") (auto simp: del_op_def, blast)
  moreover from Cons.prems obtain s2 where
    "del_entries D ses tgt i buf (length ks) (n + 1, off + 12) s1 = (Ret (n + 1 + length ks, off + 12 + 12 * length ks), s2)"
    "oft_step view room i (map del_op ks) s1 s2"
    using Cons.IH [of "off + 12" "n + 1" s1] oft_step_ready [OF s1(2)] by auto
  ultimately show ?case
    using Cons.prems oft_step_trans [OF s1(2)] by (auto simp: read_key_at seq_def sizeof_my_key_def)
qed (simp add: ret_def oft_step_refl)

lemma handle_message_at:
  assumes "stands_at buf off (batch_bytes b)" "batch_ok b" "n + batch_size b \<le> 256" "oft_ready i (view s)"
  shows "\<exists>s'. handle_message D ses tgt i buf (n, off) s = (Ret (n + batch_size b, off + length (batch_bytes b)), s') \<and>
    oft_step view room i (batch_ops b) s s'"
proof -
  obtain ps ks where b: "b = (ps, ks)" by (cases b)
  have l: "length ps < 256" "length ks < 256" and ok: "\<forall>p \<in> set ps. length p = 16" "\<forall>k \<in> set ks. length k = 12"
    using assms(2) by (auto simp: batch_ok_def b)
  have u: "unat (word_of_nat (length ps) :: u8) = length ps" "unat (word_of_nat (length ks) :: u8) = length ks"
    using l by (simp_all add: unat_word_of_nat_small)
  have h: "ld8 buf (off + 1) = Some (word_of_nat (length ps))" "ld8 buf (off + 2) = Some (word_of_nat (length ks))"
    using assms(1) by (simp_all add: batch_bytes_def b ld8_def)
  have c: "stands_at buf (off + 3) (concat ps)" "stands_at buf (off + 3 + 16 * length ps) (concat ks)"
    using assms(1) concat_length [OF ok(1)] by (simp_all add: batch_bytes_def b numeral_3_eq_3 add.assoc)
  obtain s1 where s1: "add_entries D ses tgt i buf (length ps) (n, off + 3) s = (Ret (n + length ps, off + 3 + 16 * length ps), s1)"
    "oft_step view room i (map add_op ps) s s1"
    using add_entries_at [OF c(1) ok(1) _ assms(4), of n ses tgt] assms(3) by (auto simp: batch_size_def b)
  obtain s2 where s2: "del_entries D ses tgt i buf (length ks) (n + length ps, off + 3 + 16 * length ps) s1 =
      (Ret (n + length ps + length ks, off + 3 + 16 * length ps + 12 * length ks), s2)"
    "oft_step view room i (map del_op ks) s1 s2"
    using del_entries_at [OF c(2) ok(2) _ oft_step_ready [OF s1(2)], of "n + length ps" ses tgt] assms(3)
    by (auto simp: batch_size_def b)
  have "oft_step view room i (batch_ops b) s s2"
    using oft_step_trans [OF s1(2) s2(2)] by (simp add: batch_ops_def b)
  then show ?thesis
    using s1(1) s2(1) h u batch_bytes_length [OF assms(2)]
    by (auto simp: handle_message_def seq_def batch_size_def b add.assoc)
qed

lemma handle_messages_at:
  assumes "stands_at buf off (concat (map batch_bytes ms))" "\<forall>b \<in> set ms. batch_ok b"
    and "n + sum_list (map batch_size ms) \<le> 256" "off + length (concat (map batch_bytes ms)) \<le> recv_size" "oft_ready i (view s)"
  shows "\<exists>s'. handle_messages (length ms + fuel) D ses tgt i buf recv_size (n, off) s =
      handle_messages fuel D ses tgt i buf recv_size (n + sum_list (map batch_size ms), off + length (concat (map batch_bytes ms))) s' \<and>
    oft_step view room i (concat (map batch_ops ms)) s s'"
  using assms
proof (induction ms arbitrary: n off s)
  case (Cons b ms)
  have "ld8 buf off = Some 3"
    using Cons.prems(1) by (simp add: ld8_def batch_bytes_def)
  moreover obtain s1 where s1: "handle_message D ses tgt i buf (n, off) s = (Ret (n + batch_size b, off + length (batch_bytes b)), s1)"
    "oft_step view room i (batch_ops b) s s1"
    using handle_message_at [of buf off b n i s ses tgt] Cons.prems by auto
  moreover obtain s2 where "handle_messages (length ms + fuel) D ses tgt i buf recv_size (n + batch_size b, off + length (batch_bytes b)) s1 =
      handle_messages fuel D ses tgt i buf recv_size (n + batch_size b + sum_list (map batch_size ms),
        off + length (batch_bytes b) + length (concat (map batch_bytes ms))) s2"
    "oft_step view room i (concat (map batch_ops ms)) s1 s2"
    using Cons.IH [of "off + length (batch_bytes b)" "n + batch_size b" s1] Cons.prems oft_step_ready [OF s1(2)] by auto
  ultimately show ?case
    using Cons.prems(4) oft_step_trans [OF s1(2)] by (auto simp: seq_def add.assoc intro!: exI [of _ s2])
qed (auto intro!: exI oft_step_refl)

text \<open>
  One \<open>recv\<close>: after the whole messages the loop looks at one byte more, which is left over from an
  earlier \<open>recv\<close>.
\<close>

lemma handle_recv_at:
  assumes ready: "oft_ready i (view s1)" and recv: "sys_recv S fd 1024 s = (Some data, s1)"
    and begin_ok: "fst (bf_rt_begin_batch D ses s1) = Some ()"
    and data: "data = concat (map batch_bytes ms)" "ms \<noteq> []" "\<forall>b \<in> set ms. batch_ok b"
    and len: "length data < 1024" "length buf = 1024" and size: "n + sum_list (map batch_size ms) \<le> 256"
  shows "\<exists>s2. oft_step view room i (concat (map batch_ops ms)) s1 s2 \<and>
    handle_recv D S ses tgt i fd (buf, n) s =
      seq (handle_messages (length data + 1 - length ms) D ses tgt i (patch buf 0 data) (length data)
          (n + sum_list (map batch_size ms), length data)) (\<lambda>(n, _).
      ignore () (bf_rt_end_batch D ses True) (\<lambda>_. ret (patch buf 0 data, n))) s2"
proof -
  let ?buf = "patch buf 0 data"
  obtain s1' where s1': "bf_rt_begin_batch D ses s1 = (Some (), s1')" using begin_ok by (metis prod.collapse)
  then have v: "view s1' = view s1" using effect_Some [OF begin_batch] by blast
  have st: "stands_at ?buf 0 (concat (map batch_bytes ms))"
    using len data(1) stands_at_patch [of data buf] by simp
  obtain s2 where s2: "handle_messages (length ms + (length data + 1 - length ms)) D ses tgt i ?buf (length data) (n, 0) s1' =
      handle_messages (length data + 1 - length ms) D ses tgt i ?buf (length data) (n + sum_list (map batch_size ms), length data) s2"
    "oft_step view room i (concat (map batch_ops ms)) s1' s2"
    using handle_messages_at [OF st data(3) size, where recv_size = "length data" and i = i and s = s1' and ses = ses and tgt = tgt
        and fuel = "length data + 1 - length ms"] ready v data(1) by auto
  have "length ms \<le> length data" using length_concat_batches [of ms] data(1) by simp
  moreover have "data \<noteq> []" using data(1,2) by (cases ms) (auto simp: batch_bytes_def)
  moreover have "stn buf 0 data = Some ?buf" using len by (simp add: stn_def)
  ultimately have "handle_recv D S ses tgt i fd (buf, n) s =
      seq (handle_messages (length data + 1 - length ms) D ses tgt i ?buf (length data) (n + sum_list (map batch_size ms), length data))
        (\<lambda>(n, _). ignore () (bf_rt_end_batch D ses True) (\<lambda>_. ret (?buf, n))) s2"
    using s2(1) recv s1' by (simp add: handle_recv_def check_def seq_def)
  then show ?thesis using s2(2) v by (auto simp: oft_step_def)
qed

lemma end_batch_view: "view (snd (bf_rt_end_batch D ses b s)) = view s"
  using end_batch [of ses b] by (simp add: effect_def split: option.splits)

lemma recv_stops:
  assumes "oft_ready i (view s1)" "sys_recv S fd 1024 s = (Some data, s1)" "fst (bf_rt_begin_batch D ses s1) = Some ()"
    and "data = concat (map batch_bytes ms)" "ms \<noteq> []" "\<forall>b \<in> set ms. batch_ok b"
    and "length data < 1024" "length buf = 1024" "n + sum_list (map batch_size ms) \<le> 256" and stop: "buf ! length data \<noteq> 3"
  shows "\<exists>s'. handle_recv D S ses tgt i fd (buf, n) s = (Ret (patch buf 0 data, n + sum_list (map batch_size ms)), s') \<and>
    oft_step view room i (concat (map batch_ops ms)) s1 s'"
proof -
  let ?n = "n + sum_list (map batch_size ms)"
  have "length ms \<le> length data" using length_concat_batches [of ms] assms(4) by simp
  then have fuel: "length data + 1 - length ms = Suc (length data - length ms)" by simp
  have "ld8 (patch buf 0 data) (length data) = Some (buf ! length data)"
    using assms(7,8) by (simp add: ld8_def nth_patch)
  then have "handle_messages (length data + 1 - length ms) D ses tgt i (patch buf 0 data) (length data) (?n, length data) s2 =
      (Ret (?n, length data), s2)" for s2
    unfolding fuel using stop by (simp add: ret_def)
  then show ?thesis
    using handle_recv_at [OF assms(1-9), of tgt] end_batch_view by (auto simp: seq_def ret_def oft_step_def)
qed

lemma recv_replays:
  assumes "oft_ready i (view s1)" "sys_recv S fd 1024 s = (Some data, s1)" "fst (bf_rt_begin_batch D ses s1) = Some ()"
    and "data = concat (map batch_bytes ms)" "ms \<noteq> []" "\<forall>b \<in> set ms. batch_ok b"
    and "length data < 1024" "length buf = 1024" and size: "n + sum_list (map batch_size ms) + batch_size b \<le> 256"
    and stale: "stands_at buf (length data) (batch_bytes b)" "batch_ok b"
  shows "\<exists>s'. handle_recv D S ses tgt i fd (buf, n) s =
      (Ret (patch buf 0 data, n + sum_list (map batch_size ms) + batch_size b), s') \<and>
    oft_step view room i (concat (map batch_ops (ms @ [b]))) s1 s'"
proof -
  let ?n = "n + sum_list (map batch_size ms)" and ?buf = "patch buf 0 data"
  have "length ms \<le> length data" using length_concat_batches [of ms] assms(4) by simp
  moreover have "0 < length ms" using assms(5) by simp
  moreover have "3 * length ms \<le> length data"
    unfolding assms(4) by (induction ms) (auto simp: batch_bytes_def)
  ultimately have "length data + 1 - length ms = Suc (Suc (length data - length ms - 1))" by linarith
  then obtain fuel where fuel: "length data + 1 - length ms = Suc (Suc fuel)" by blast
  obtain s2 where s2: "oft_step view room i (concat (map batch_ops ms)) s1 s2"
    "handle_recv D S ses tgt i fd (buf, n) s =
      seq (handle_messages (Suc (Suc fuel)) D ses tgt i ?buf (length data) (?n, length data)) (\<lambda>(n, _).
      ignore () (bf_rt_end_batch D ses True) (\<lambda>_. ret (?buf, n))) s2"
    using handle_recv_at [OF assms(1-8), of n tgt] size fuel by auto
  have st: "stands_at ?buf (length data) (batch_bytes b)" using stale(1) by (rule stands_at_patch_out) simp
  then have op: "ld8 ?buf (length data) = Some 3" by (simp add: batch_bytes_def ld8_def)
  obtain s3 where s3: "handle_message D ses tgt i ?buf (?n, length data) s2 = (Ret (?n + batch_size b, length data + length (batch_bytes b)), s3)"
    "oft_step view room i (batch_ops b) s2 s3"
    using handle_message_at [OF st stale(2) size oft_step_ready [OF s2(1)], of ses tgt] by blast
  have "handle_messages (Suc (Suc fuel)) D ses tgt i ?buf (length data) (?n, length data) s2 =
      (Ret (?n + batch_size b, length data + length (batch_bytes b)), s3)"
    using op s3(1) batch_bytes_length [OF stale(2)] by (simp add: seq_def ret_def)
  moreover have "oft_step view room i (concat (map batch_ops (ms @ [b]))) s1 s3"
    using oft_step_trans [OF s2(1) s3(2)] by simp
  ultimately show ?thesis
    using s2(2) end_batch_view by (auto simp: seq_def ret_def oft_step_def)
qed

end

section \<open>Properties of the offload path\<close>

text \<open>
  (C14) One \<open>recv\<close> delivers whole offload messages, of fewer than 1024 bytes and with at most as many
  operations as there are slots left in this round of the event loop; the batch is opened, and the byte after the
  messages in the buffer is not an opcode left over from an earlier \<open>recv\<close>.  Then the controller performs
  the operations of these messages on the offload table, in order, the additions of each before its deletions, and
  changes no other table.  An addition may be refused only for want of room; if all of them fit, the table is
  exactly the one that the messages ask for.
\<close>

theorem offload_messages_applied:
  assumes "bf_rt_sized D view room" "oft_ready i (view s1)" "sys_recv S fd 1024 s = (Some data, s1)"
    and "fst (bf_rt_begin_batch D ses s1) = Some ()"
    and "data = concat (map batch_bytes ms)" "ms \<noteq> []" "\<forall>b \<in> set ms. batch_ok b"
    and "length data < 1024" "length buf = 1024" "n + sum_list (map batch_size ms) \<le> 256" "buf ! length data \<noteq> 3"
    and "T = d_table (view s1) (oft_table_hdl i)"
  shows "\<exists>s'. handle_recv D S ses tgt i fd (buf, n) s = (Ret (patch buf 0 data, n + sum_list (map batch_size ms)), s') \<and>
    oft_step view room i (concat (map batch_ops ms)) s1 s' \<and>
    (fits room i (concat (map batch_ops ms)) T \<longrightarrow>
      d_table (view s') = (d_table (view s1))(oft_table_hdl i := fold (batch_apply i) ms T))"
proof -
  obtain s' where s': "handle_recv D S ses tgt i fd (buf, n) s = (Ret (patch buf 0 data, n + sum_list (map batch_size ms)), s')"
      "oft_step view room i (concat (map batch_ops ms)) s1 s'"
    using bf_rt_sized.recv_stops [OF assms(1-11)] by blast
  then show ?thesis using oft_step_fits [OF s'(2)] by (simp add: assms(12) fold_batches_ops)
qed

text \<open>
  (C37) The loop condition \<open>now_bytes <= recv_size\<close> reads one byte too many: when a message of an earlier
  \<open>recv\<close> still stands in the buffer right after the received data, it is performed once more.
\<close>

theorem stale_message_replayed:
  assumes "bf_rt_sized D view room" "oft_ready i (view s1)" "sys_recv S fd 1024 s = (Some data, s1)"
    and "fst (bf_rt_begin_batch D ses s1) = Some ()"
    and "data = concat (map batch_bytes ms)" "ms \<noteq> []" "\<forall>b \<in> set ms. batch_ok b"
    and "length data < 1024" "length buf = 1024" "n + sum_list (map batch_size ms) + batch_size b \<le> 256"
    and "stands_at buf (length data) (batch_bytes b)" "batch_ok b"
    and "T = d_table (view s1) (oft_table_hdl i)"
  shows "\<exists>s'. handle_recv D S ses tgt i fd (buf, n) s =
      (Ret (patch buf 0 data, n + sum_list (map batch_size ms) + batch_size b), s') \<and>
    oft_step view room i (concat (map batch_ops (ms @ [b]))) s1 s' \<and>
    (fits room i (concat (map batch_ops (ms @ [b]))) T \<longrightarrow>
      d_table (view s') = (d_table (view s1))(oft_table_hdl i := batch_apply i b (fold (batch_apply i) ms T)))"
proof -
  obtain s' where s': "handle_recv D S ses tgt i fd (buf, n) s =
      (Ret (patch buf 0 data, n + sum_list (map batch_size ms) + batch_size b), s')"
      "oft_step view room i (concat (map batch_ops (ms @ [b]))) s1 s'"
    using bf_rt_sized.recv_replays [OF assms(1-12)] by blast
  have "batch_apply i b (fold (batch_apply i) ms T) = fold (op_apply i) (concat (map batch_ops (ms @ [b]))) T"
    by (simp only: fold_batches_ops) simp
  then show ?thesis using s' oft_step_fits [OF s'(2)] by (simp only: assms(13)) blast
qed

text \<open>
  However an operation, a message or a \<open>recv\<close> goes, \<open>entry_index\<close> only grows, by one for each operation, and
  never beyond the array of key objects unless the run is undefined.
\<close>

lemma add_entry_cases: "fst (add_entry D ses tgt i n p s) = Crash \<or> fst (add_entry D ses tgt i n p s) = Ret () \<and> n < length (oft_key_hdl i)"
  by (auto simp: add_entry_def elem_at_def crash_def ret_def split: prod.split)

lemma del_entry_op_cases: "fst (del_entry_op D ses tgt i n k s) = Crash \<or> fst (del_entry_op D ses tgt i n k s) = Ret () \<and> n < length (oft_key_hdl i)"
  by (auto simp: del_entry_op_def elem_at_def crash_def ret_def split: prod.split)

definition counts :: "nat \<Rightarrow> nat \<Rightarrow> (nat \<times> nat) outcome \<Rightarrow> bool" where
  "counts lo hi r \<longleftrightarrow> r = Crash \<or> (\<exists>n off. r = Ret (n, off) \<and> lo \<le> n \<and> n \<le> hi)"

lemma counts_Crash [simp]: "counts lo hi Crash"
  by (simp add: counts_def)

lemma counts_Ret [simp]: "counts lo hi (Ret (n, off)) \<longleftrightarrow> lo \<le> n \<and> n \<le> hi"
  by (simp add: counts_def)

lemma counts_seq:
  assumes "counts lo hi (fst (f s))" "\<And>n off s1. lo \<le> n \<Longrightarrow> n \<le> hi \<Longrightarrow> f s = (Ret (n, off), s1) \<Longrightarrow> counts lo' hi (fst (g (n, off) s1))"
  shows "counts lo' hi (fst (seq f g s))"
  using assms(1)
proof (cases "f s")
  case (Pair r s1)
  then show ?thesis using assms by (auto simp: counts_def [of lo] seq_def)
qed

lemma add_entries_counts:
  "n \<le> length (oft_key_hdl i) \<Longrightarrow> counts (n + k) (length (oft_key_hdl i)) (fst (add_entries D ses tgt i buf k (n, off) s))"
proof (induction k arbitrary: n off s)
  case (Suc k)
  show ?case
  proof (cases "read_pair buf off")
    case (Some p)
    obtain r s1 where r: "add_entry D ses tgt i n p s = (r, s1)" by fastforce
    then consider "r = Crash" | "r = Ret ()" "n < length (oft_key_hdl i)" using add_entry_cases [of D ses tgt i n p s] by auto
    then show ?thesis using Some r Suc.IH [of "n + 1" "off + sizeof_my_pair" s1] by cases (simp_all add: seq_def)
  qed (simp add: crash_def)
qed (simp add: ret_def)

lemma del_entries_counts:
  "n \<le> length (oft_key_hdl i) \<Longrightarrow> counts (n + k) (length (oft_key_hdl i)) (fst (del_entries D ses tgt i buf k (n, off) s))"
proof (induction k arbitrary: n off s)
  case (Suc k)
  show ?case
  proof (cases "read_key buf off")
    case (Some p)
    obtain r s1 where r: "del_entry_op D ses tgt i n p s = (r, s1)" by fastforce
    then consider "r = Crash" | "r = Ret ()" "n < length (oft_key_hdl i)" using del_entry_op_cases [of D ses tgt i n p s] by auto
    then show ?thesis using Some r Suc.IH [of "n + 1" "off + sizeof_my_key" s1] by cases (simp_all add: seq_def)
  qed (simp add: crash_def)
qed (simp add: ret_def)

lemma counts_mono: "counts lo hi r \<Longrightarrow> lo' \<le> lo \<Longrightarrow> counts lo' hi r"
  by (auto simp: counts_def)

lemma handle_message_counts:
  assumes "n \<le> length (oft_key_hdl i)" "ld8 buf (off + 1) = Some a" "ld8 buf (off + 2) = Some d"
  shows "counts (n + unat a + unat d) (length (oft_key_hdl i)) (fst (handle_message D ses tgt i buf (n, off) s))"
proof -
  have "counts (n + unat a + unat d) (length (oft_key_hdl i)) (fst (seq (add_entries D ses tgt i buf (unat a) (n, off + 3))
      (del_entries D ses tgt i buf (unat d)) s))"
  proof (rule counts_seq)
    show "counts (n + unat a) (length (oft_key_hdl i)) (fst (add_entries D ses tgt i buf (unat a) (n, off + 3) s))"
      by (rule add_entries_counts [OF assms(1)])
    fix n' off' s1 assume "n + unat a \<le> n'" "n' \<le> length (oft_key_hdl i)"
    then show "counts (n + unat a + unat d) (length (oft_key_hdl i)) (fst (del_entries D ses tgt i buf (unat d) (n', off') s1))"
      by (intro counts_mono [OF del_entries_counts]) simp_all
  qed
  then show ?thesis using assms by (simp add: handle_message_def)
qed

lemma handle_messages_counts:
  "n \<le> length (oft_key_hdl i) \<Longrightarrow> counts n (length (oft_key_hdl i)) (fst (handle_messages fuel D ses tgt i buf recv_size (n, off) s))"
proof (induction fuel arbitrary: n off s)
  case (Suc fuel)
  have "counts n (length (oft_key_hdl i)) (fst (handle_message D ses tgt i buf (n, off) s))"
  proof (cases "ld8 buf (off + 1) = None \<or> ld8 buf (off + 2) = None")
    case True
    then show ?thesis by (auto simp: handle_message_def crash_def split: option.split)
  next
    case False
    then obtain a d where "ld8 buf (off + 1) = Some a" "ld8 buf (off + 2) = Some d" by auto
    from handle_message_counts [OF Suc.prems this] show ?thesis by (rule counts_mono) simp
  qed
  then have "counts n (length (oft_key_hdl i)) (fst (seq (handle_message D ses tgt i buf (n, off)) (handle_messages fuel D ses tgt i buf recv_size) s))"
    by (rule counts_seq) (blast intro: counts_mono [OF Suc.IH])
  then show ?case using Suc.prems by (simp add: crash_def ret_def split: option.split)
qed (simp add: ret_def)

lemma add_entries_off: "add_entries D ses tgt i buf k (n, off) s = (Ret (n', off'), s') \<Longrightarrow> off' = off + 16 * k"
  by (induction k arbitrary: n off s) (auto simp: crash_def ret_def sizeof_my_pair_def elim!: seq_Ret split: option.splits, fastforce)

lemma del_entries_off: "del_entries D ses tgt i buf k (n, off) s = (Ret (n', off'), s') \<Longrightarrow> off' = off + 12 * k"
  by (induction k arbitrary: n off s) (auto simp: crash_def ret_def sizeof_my_key_def elim!: seq_Ret split: option.splits, fastforce)

lemma handle_message_off:
  assumes "handle_message D ses tgt i buf (n, off) s = (Ret (n', off'), s')"
    and "ld8 buf (off + 1) = Some a" "ld8 buf (off + 2) = Some d"
  shows "off' = off + 3 + 16 * unat a + 12 * unat d"
  using assms by (auto simp: handle_message_def elim!: seq_Ret dest!: add_entries_off del_entries_off)

text \<open>Whole messages at the front of the data: all their operations are counted.\<close>

lemma batches_counts:
  assumes "stands_at buf off (concat (map batch_bytes ms))" "\<forall>b \<in> set ms. batch_ok b"
    and "off + length (concat (map batch_bytes ms)) \<le> recv_size" "n \<le> length (oft_key_hdl i)"
  shows "counts (n + sum_list (map batch_size ms)) (length (oft_key_hdl i))
    (fst (handle_messages (length ms + fuel) D ses tgt i buf recv_size (n, off) s))"
  using assms
proof (induction ms arbitrary: n off s)
  case Nil
  then show ?case using handle_messages_counts by simp
next
  case (Cons b ms)
  let ?L = "length (oft_key_hdl i)" and ?k = "batch_size b"
  have len: "length (fst b) < 256" "length (snd b) < 256" using Cons.prems(2) by (simp_all add: batch_ok_def)
  have h: "ld8 buf off = Some 3" "ld8 buf (off + 1) = Some (word_of_nat (length (fst b)))" "ld8 buf (off + 2) = Some (word_of_nat (length (snd b)))"
    using Cons.prems(1) by (simp_all add: batch_bytes_def ld8_def)
  have u: "unat (word_of_nat (length (fst b)) :: u8) = length (fst b)" "unat (word_of_nat (length (snd b)) :: u8) = length (snd b)"
    using len by (simp_all add: unat_word_of_nat_small)
  have "counts (n + sum_list (map batch_size (b # ms))) ?L
    (fst (seq (handle_message D ses tgt i buf (n, off)) (handle_messages (length ms + fuel) D ses tgt i buf recv_size) s))"
  proof (rule counts_seq)
    show "counts (n + ?k) ?L (fst (handle_message D ses tgt i buf (n, off) s))"
      using handle_message_counts [OF Cons.prems(4) h(2,3), of D ses tgt s] u by (simp add: batch_size_def add.assoc)
    fix n' off' s1 assume n': "n + ?k \<le> n'" "n' \<le> ?L" and r: "handle_message D ses tgt i buf (n, off) s = (Ret (n', off'), s1)"
    have "off' = off + length (batch_bytes b)"
      using handle_message_off [OF r h(2,3)] u batch_bytes_length [of b] Cons.prems(2) by simp
    then have "counts (n' + sum_list (map batch_size ms)) ?L (fst (handle_messages (length ms + fuel) D ses tgt i buf recv_size (n', off') s1))"
      using Cons.prems n'(2) by (intro Cons.IH) simp_all
    then show "counts (n + sum_list (map batch_size (b # ms))) ?L (fst (handle_messages (length ms + fuel) D ses tgt i buf recv_size (n', off') s1))"
      by (rule counts_mono) (use n'(1) in simp)
  qed
  then show ?case using Cons.prems(3) h(1) by simp
qed

lemma handle_recv_counts:
  assumes "sys_recv S fd 1024 s = (Some (concat (map batch_bytes ms)), s1)" "fst (bf_rt_begin_batch D ses s1) = Some ()"
    and "ms \<noteq> []" "\<forall>b \<in> set ms. batch_ok b" "length (concat (map batch_bytes ms)) \<le> 1024" "length buf = 1024"
    and "n \<le> length (oft_key_hdl i)"
  shows "fst (handle_recv D S ses tgt i fd (buf, n) s) = Crash \<or>
    (\<exists>buf' n' s'. handle_recv D S ses tgt i fd (buf, n) s = (Ret (buf', n'), s') \<and> length buf' = 1024 \<and>
      n + sum_list (map batch_size ms) \<le> n' \<and> n' \<le> length (oft_key_hdl i))"
proof -
  define data where "data = concat (map batch_bytes ms)"
  let ?data = data and ?buf = "patch buf 0 data"
  obtain s2 where s2: "bf_rt_begin_batch D ses s1 = (Some (), s2)" using assms(2) by (metis prod.collapse)
  have "counts (n + sum_list (map batch_size ms)) (length (oft_key_hdl i))
      (fst (handle_messages (length ms + (length ?data + 1 - length ms)) D ses tgt i ?buf (length ?data) (n, 0) s2))"
    using assms stands_at_patch [of ?data buf] by (intro batches_counts) (simp_all add: data_def)
  then have c: "counts (n + sum_list (map batch_size ms)) (length (oft_key_hdl i))
      (fst (handle_messages (length ?data + 1) D ses tgt i ?buf (length ?data) (n, 0) s2))"
    using length_concat_batches [of ms] by (simp add: data_def del: handle_messages.simps)
  have d: "?data \<noteq> []" "stn buf 0 ?data = Some ?buf" "length ?buf = 1024"
    using assms(3,5,6) by (cases ms; simp add: batch_bytes_def data_def) (use assms(5,6) in \<open>simp_all add: stn_def patch_def data_def\<close>)
  obtain r s3 where r: "handle_messages (length ?data + 1) D ses tgt i ?buf (length ?data) (n, 0) s2 = (r, s3)" by fastforce
  have "handle_recv D S ses tgt i fd (buf, n) s = seq (\<lambda>_. (r, s3)) (\<lambda>(n, _). ignore () (bf_rt_end_batch D ses True) (\<lambda>_. ret (?buf, n))) s2"
    using assms(1) s2 d(1,2) r by (simp add: handle_recv_def check_def seq_def data_def [symmetric] del: handle_messages.simps)
  then show ?thesis using c d(3) unfolding r by (auto simp: counts_def seq_def ret_def)
qed

text \<open>The connections of one round, one after the other.\<close>

lemma events_count:
  assumes "\<forall>fd \<in> set es. \<forall>s. fst (sys_recv S fd 1024 s) = Some (concat (map batch_bytes (ms fd)))" "server_fd c \<notin> set es"
    and "\<forall>fd \<in> set es. ms fd \<noteq> [] \<and> (\<forall>b \<in> set (ms fd). batch_ok b) \<and> length (concat (map batch_bytes (ms fd))) \<le> 1024"
    and "\<forall>s. fst (bf_rt_begin_batch D ses s) = Some ()" "length rb = 1024" "n \<le> length (oft_key_hdl i)"
  shows "fst (for_each (handle_event D S ses tgt i c) es (sb, rb, n) s) = Crash \<or>
    (\<exists>sb' rb' n' s'. for_each (handle_event D S ses tgt i c) es (sb, rb, n) s = (Ret (sb', rb', n'), s') \<and>
      n + (\<Sum>fd\<leftarrow>es. \<Sum>b\<leftarrow>ms fd. batch_size b) \<le> n' \<and> n' \<le> length (oft_key_hdl i))"
  using assms
proof (induction es arbitrary: rb n s)
  case (Cons fd es)
  have ms: "ms fd \<noteq> []" "\<forall>b \<in> set (ms fd). batch_ok b" "length (concat (map batch_bytes (ms fd))) \<le> 1024"
    and fd: "fd \<noteq> server_fd c"
    using Cons.prems(2,3) by auto
  obtain s1 where "sys_recv S fd 1024 s = (Some (concat (map batch_bytes (ms fd))), s1)"
    using Cons.prems(1) by (metis list.set_intros(1) prod.collapse)
  then consider "fst (handle_recv D S ses tgt i fd (rb, n) s) = Crash"
    | rb' n' s' where "handle_recv D S ses tgt i fd (rb, n) s = (Ret (rb', n'), s')" "length rb' = 1024"
        "n + sum_list (map batch_size (ms fd)) \<le> n'" "n' \<le> length (oft_key_hdl i)"
    using handle_recv_counts [OF _ _ ms Cons.prems(5,6), of S fd s s1 D ses tgt] Cons.prems(4) by auto
  then show ?case
  proof cases
    case 1
    then show ?thesis using fd by (cases "handle_recv D S ses tgt i fd (rb, n) s") (simp add: handle_event_def seq_def)
  next
    case 2
    then have "for_each (handle_event D S ses tgt i c) (fd # es) (sb, rb, n) s = for_each (handle_event D S ses tgt i c) es (sb, rb', n') s'"
      using fd by (simp add: handle_event_def seq_def ret_def)
    then show ?thesis using Cons.IH [of rb' n' s'] Cons.prems(1-4) 2 by (simp only:) auto
  qed
qed (simp add: ret_def)


text \<open>Every message moves the loop on by at least three bytes.\<close>

lemma handle_message_now: "handle_message D ses tgt i buf (n, off) s = (Ret (n', off'), s') \<Longrightarrow> off + 3 \<le> off'"
  by (auto simp: handle_message_def crash_def elim!: seq_Ret split: option.splits dest!: add_entries_off del_entries_off)

lemma handle_messages_fuel:
  "recv_size < off + fuel \<Longrightarrow>
   handle_messages (fuel + k) D ses tgt i buf recv_size (n, off) s = handle_messages fuel D ses tgt i buf recv_size (n, off) s"
proof (induction fuel arbitrary: n off s)
  case 0
  then show ?case by (cases k) (simp_all add: ret_def)
next
  case (Suc fuel)
  have "seq (handle_message D ses tgt i buf (n, off)) (handle_messages (fuel + k) D ses tgt i buf recv_size) s =
      seq (handle_message D ses tgt i buf (n, off)) (handle_messages fuel D ses tgt i buf recv_size) s"
  proof (cases "handle_message D ses tgt i buf (n, off) s")
    case (Pair r s1)
    show ?thesis
    proof (cases r)
      case (Ret p)
      obtain n' off' where p: "p = (n', off')" by (cases p)
      then have "off + 3 \<le> off'" using Pair Ret handle_message_now [of D ses tgt i buf n off s n' off' s1] by simp
      then show ?thesis using Suc Pair Ret p by (simp add: seq_def)
    qed (simp_all add: seq_def Pair)
  qed
  then show ?case by (simp split: option.split)
qed

text \<open>
  (C29) The loop over the messages of a \<open>recv\<close> ends: any fuel beyond \<open>recv_size\<close> gives the same run.
\<close>

theorem handle_messages_terminates:
  "handle_messages (recv_size + 1 + k) D ses tgt i buf recv_size (n, 0) s =
   handle_messages (recv_size + 1) D ses tgt i buf recv_size (n, 0) s"
  by (rule handle_messages_fuel) simp

section \<open>Concrete runs\<close>

definition ex_sys :: "bytes \<Rightarrow> 's sys" where
  "ex_sys data = \<lparr>sys_socket = (\<lambda>s. (Some 3, s)), sys_bind = (\<lambda>fd ip port s. (Some (), s)), sys_listen = (\<lambda>fd s. (Some (), s)),
     sys_epoll_create1 = (\<lambda>s. (Some 4, s)), sys_epoll_add = (\<lambda>ep fd s. (Some (), s)),
     sys_epoll_wait = (\<lambda>ep n s. (Some [5], s)), sys_accept = (\<lambda>fd s. (Some 5, s)), sys_set_nodelay = (\<lambda>fd s. (Some (), s)),
     sys_send = (\<lambda>fd bs s. (Some (), s)), sys_recv = (\<lambda>fd n s. (Some data, s)), sys_close = (\<lambda>fd s. s), sys_sleep = (\<lambda>n s. s)\<rparr>"

definition ex_oft_info :: offload_connection_table_info where
  "ex_oft_info = \<lparr>oft_table_hdl = 2, oft_kid_cip = 4, oft_kid_cport = 5, oft_aid_oft_hit = 0, oft_did_d_index = 11,
     oft_key_hdl = [0..<256], oft_data_hdl = [0..<256]\<rparr>"

text \<open>The client 10.0.1.100:1234 (fields in host order) is offloaded to server 5, and taken back.\<close>

definition ex_key_image :: bytes where
  "ex_key_image = [77, 0, 0, 0, 100, 1, 0, 10, 210, 4, 0, 0]"

definition ex_add :: batch where
  "ex_add = ([ex_key_image @ [1, 5, 0, 0]], [])"

definition ex_del :: batch where
  "ex_del = ([], [ex_key_image])"

abbreviation ex_match :: match where
  "ex_match \<equiv> oft_key ex_oft_info (key_of_bytes ex_key_image)"

lemma ex_oft_ready: "oft_ready ex_oft_info (rd_view rd_init)"
  by (simp add: oft_ready_def ex_oft_info_def rd_view_def rd_init_def del: upt_rec_numeral)

lemma ex_batches: "batch_ok ex_add" "batch_ok ex_del" "batch_size ex_add = 1" "batch_size ex_del = 1"
    "length (batch_bytes ex_add) = 19" "length (batch_bytes ex_del) = 15"
  by (simp_all add: batch_ok_def batch_size_def batch_bytes_def ex_add_def ex_del_def ex_key_image_def)

lemma ex_add_apply:
  "T ex_match = None \<Longrightarrow> batch_apply ex_oft_info ex_add T ex_match = Some (0, [11 \<mapsto> 5])"
  by (simp add: batch_apply_def ex_add_def oft_add_def pair_of_bytes_def key_of_bytes_def ex_key_image_def ex_oft_info_def)

lemma ex_del_apply: "batch_apply ex_oft_info ex_del T ex_match = None"
  by (simp add: batch_apply_def ex_del_def oft_del_def)

lemma ex_table: "d_table (rd_view rd_init) t = Map.empty"
  by (simp add: rd_view_def rd_init_def)

lemma ex_fits: "fits (has_room 143360) i (batch_ops ex_add) Map.empty"
  by (rule fits_has_room) (simp_all add: batch_ops_def ex_add_def add_op_def split: prod.split)

theorem greeting_messages_witness:
  "\<exists>buf n. rules_message \<lparr>server_fd = 3, epoll_fd = 4, rules = [\<lparr>r_rule = [47, 97], r_d_index = 1, r_offload_flag = 1\<rparr>],
     d_index_table = [], v_info = \<lparr>si_mac = [], si_ip = 0, si_port = 0\<rparr>\<rparr> (replicate 1024 0) = Some (buf, n) \<and>
     take n buf = [0, 1, 0, 47, 97, 0, 1, 1]"
  using greeting_messages [of "replicate 1024 0" "\<lparr>server_fd = 3, epoll_fd = 4,
      rules = [\<lparr>r_rule = [47, 97], r_d_index = 1, r_offload_flag = 1\<rparr>], d_index_table = [],
      v_info = \<lparr>si_mac = [], si_ip = 0, si_port = 0\<rparr>\<rparr>"]
  by (auto simp: rules_bytes_def rule_bytes_def split: option.splits)

theorem d_index_message_fits_iff_witness:
  "d_index_message \<lparr>server_fd = 3, epoll_fd = 4, rules = [], d_index_table =
     replicate 61 \<lparr>di_d_index = 0, di_server_info = \<lparr>si_mac = [0, 0, 0, 0, 0, 0], si_ip = 0, si_port = 0\<rparr>\<rparr>,
     v_info = \<lparr>si_mac = [], si_ip = 0, si_port = 0\<rparr>\<rparr> (replicate 1024 0) = None"
  using d_index_message_fits_iff [of "replicate 1024 0" "\<lparr>server_fd = 3, epoll_fd = 4, rules = [], d_index_table =
      replicate 61 \<lparr>di_d_index = 0, di_server_info = \<lparr>si_mac = [0, 0, 0, 0, 0, 0], si_ip = 0, si_port = 0\<rparr>\<rparr>,
      v_info = \<lparr>si_mac = [], si_ip = 0, si_port = 0\<rparr>\<rparr>"]
  by simp

theorem offload_messages_applied_witness:
  "\<exists>buf s'. handle_recv (sized_bf_rt 143360) (ex_sys (batch_bytes ex_add)) 0 \<lparr>dev_id = 0, pipe_id = 65535\<rparr> ex_oft_info 5 (replicate 1024 0, 0) rd_init =
     (Ret (buf, 1), s') \<and> d_table (rd_view s') 2 ex_match = Some (0, [11 \<mapsto> 5])"
proof -
  have r: "sys_recv (ex_sys (batch_bytes ex_add)) 5 1024 rd_init = (Some (batch_bytes ex_add), rd_init)"
    and b: "fst (bf_rt_begin_batch (sized_bf_rt 143360) 0 rd_init) = Some ()"
    by (simp_all add: ex_sys_def sized_bf_rt_def ref_bf_rt_def)
  from offload_messages_applied [OF sized_rel.bf_rt_sized_axioms ex_oft_ready r b,
      of "[ex_add]" "replicate 1024 0" 0 Map.empty "\<lparr>dev_id = 0, pipe_id = 65535\<rparr>"]
  show ?thesis
    by (auto simp: ex_batches ex_table ex_add_apply ex_fits ex_oft_info_def [THEN arg_cong [of _ _ oft_table_hdl]])
qed

text \<open>
  The deletion of a client stands in the buffer behind the 19 bytes of a new addition of the same
  client: the new entry is gone again.
\<close>

theorem stale_message_replayed_witness:
  "\<exists>buf s'. handle_recv ref_bf_rt (ex_sys (batch_bytes ex_add)) 0 \<lparr>dev_id = 0, pipe_id = 65535\<rparr> ex_oft_info 5
     (patch (replicate 1024 0) 19 (batch_bytes ex_del), 0) rd_init = (Ret (buf, 2), s') \<and> d_table (rd_view s') 2 ex_match = None"
proof -
  let ?buf = "patch (replicate 1024 (0 :: u8)) 19 (batch_bytes ex_del)"
  have r: "sys_recv (ex_sys (batch_bytes ex_add)) 5 1024 rd_init = (Some (batch_bytes ex_add), rd_init)"
    and b: "fst (bf_rt_begin_batch ref_bf_rt 0 rd_init) = Some ()"
    by (simp_all add: ex_sys_def ref_bf_rt_def)
  have "stands_at ?buf 19 (batch_bytes ex_del)"
    by (auto simp: stands_at_iff nth_patch ex_batches)
  then show ?thesis
    using stale_message_replayed [OF ref_rel.bf_rt_sized_axioms ex_oft_ready r b,
      of "[ex_add]" ?buf 0 ex_del Map.empty "\<lparr>dev_id = 0, pipe_id = 65535\<rparr>"]
    by (auto simp: ex_batches ex_table fits_True ex_del_apply ex_oft_info_def [THEN arg_cong [of _ _ oft_table_hdl]])
qed

text \<open>Four front ends that send 40 additions and 30 deletions each, in 1003 bytes, are readable in the same round.\<close>

definition ex_many :: batch where
  "ex_many = (replicate 40 (ex_key_image @ [1, 5, 0, 0]), replicate 30 ex_key_image)"

lemma ex_many: "batch_ok ex_many" "batch_size ex_many = 70" "length (batch_bytes ex_many) = 1003"
proof -
  show "batch_ok ex_many" by (simp add: batch_ok_def ex_many_def ex_key_image_def)
  from batch_bytes_length [OF this] show "length (batch_bytes ex_many) = 1003" by (simp add: ex_many_def)
qed (simp add: batch_size_def ex_many_def)


end
