(* ===== verification/Switch_Main.thy ===== *)
theory Switch_Main
  imports Controller
begin

text \<open>
  \<open>main\<close> of \<open>src/Switch/control_plane/src/main.c\<close>: start the switch, set up the tables, read the
  configuration and install it, then serve the front ends.
\<close>

section \<open>The configuration files of the tables\<close>

text \<open>A MAC address is given as two numbers of 24 bits.\<close>

definition mac_of :: "int \<Rightarrow> int \<Rightarrow> u64" where
  "mac_of prefix suffix = push_bit 24 (word_of_int prefix) + word_of_int suffix"

definition parse_mac_pair :: "'j cjson \<Rightarrow> 'j option \<Rightarrow> string \<Rightarrow> string \<Rightarrow> (u64, 's) prog" where
  "parse_mac_pair J item prefix suffix =
     seq (int_of J (object_item J item prefix)) (\<lambda>p. seq (int_of J (object_item J item suffix)) (\<lambda>x. ret (mac_of p x)))"

definition parse_arp :: "'j cjson \<Rightarrow> 'j option \<Rightarrow> (arp_table_entry, 's) prog" where
  "parse_arp J arp_table =
     seq (int_of J (object_item J arp_table ''opcode'')) (\<lambda>opcode.
     seq (int_of J (object_item J arp_table ''target_proto_addr'')) (\<lambda>target_proto_addr.
     seq (parse_mac_pair J arp_table ''mac_prefix'' ''mac_suffix'') (\<lambda>mac.
     ret \<lparr>ae_opcode = word_of_int opcode, ae_target_proto_addr = word_of_int target_proto_addr, ae_arp_mac = mac\<rparr>)))"

text \<open>
  One item of the server file fills an entry of three tables.  The field \<open>src_mac\<close> of the first is
  never assigned; its value \<open>u\<close> is whatever the memory held.
\<close>

definition parse_server ::
  "u64 \<Rightarrow> 'j cjson \<Rightarrow> 'j option \<Rightarrow> (d_index_to_egress_port_table_entry \<times> d_index_to_ip_port_table_entry \<times> dip_lookup_table_entry, 's) prog" where
  "parse_server u J item =
     seq (int_of J (object_item J item ''d_index'')) (\<lambda>d_index.
     seq (parse_mac_pair J item ''mac_prefix'' ''mac_suffix'') (\<lambda>mac.
     seq (int_of J (object_item J item ''egress_port'')) (\<lambda>egress_port.
     seq (int_of J (object_item J item ''ip'')) (\<lambda>ip.
     seq (int_of J (object_item J item ''port'')) (\<lambda>port.
     ret (\<lparr>dxe_d_index = word_of_int d_index, dxe_src_mac = u, dxe_dst_mac = mac, dxe_dst_port = word_of_int egress_port\<rparr>,
          \<lparr>ipe_d_index = word_of_int d_index, ipe_dst_ip = word_of_int ip, ipe_dst_port = word_of_int port\<rparr>,
          \<lparr>dpe_src_ip = word_of_int ip, dpe_src_port = word_of_int port\<rparr>))))))"

definition parse_lb_index :: "u64 \<Rightarrow> 'j cjson \<Rightarrow> 'j option \<Rightarrow> (lb_index_to_egress_port_table_entry, 's) prog" where
  "parse_lb_index u J item =
     seq (int_of J (object_item J item ''lb_index'')) (\<lambda>lb_index.
     seq (parse_mac_pair J item ''mac_prefix'' ''mac_suffix'') (\<lambda>mac.
     seq (int_of J (object_item J item ''egress_port'')) (\<lambda>egress_port.
     ret \<lparr>lbe_lb_index = word_of_int lb_index, lbe_src_mac = u, lbe_dst_mac = mac, lbe_dst_port = word_of_int egress_port\<rparr>)))"

definition parse_dest :: "'j cjson \<Rightarrow> 'j option \<Rightarrow> (dest_to_egress_port_table_entry, 's) prog" where
  "parse_dest J item =
     seq (int_of J (object_item J item ''dst_addr'')) (\<lambda>dst_addr.
     seq (int_of J (object_item J item ''prefix_len'')) (\<lambda>prefix_len.
     seq (parse_mac_pair J item ''src_mac'' ''src_mac_suffix'') (\<lambda>src_mac.
     seq (parse_mac_pair J item ''dst_mac'' ''dst_mac_suffix'') (\<lambda>dst_mac.
     seq (int_of J (object_item J item ''egress_port'')) (\<lambda>dst_port.
     ret \<lparr>dse_dst_addr = word_of_int dst_addr, dse_prefix_len = word_of_int prefix_len, dse_src_mac = src_mac,
       dse_dst_mac = dst_mac, dse_dst_port = word_of_int dst_port\<rparr>)))))"

section \<open>The program\<close>

record tables =
  t_arp :: arp_table_info
  t_dip :: dip_lookup_table_info
  t_oft :: offload_connection_table_info
  t_dst :: dest_to_egress_port_table_info
  t_dix :: d_index_to_egress_port_table_info
  t_lbx :: lb_index_to_egress_port_table_info
  t_ipp :: d_index_to_ip_port_table_info

definition setup_tables :: "'s bf_rt \<Rightarrow> hdl \<Rightarrow> (tables, 's) prog" where
  "setup_tables D bf_rt_info =
     seq (setup_arp_table D bf_rt_info) (\<lambda>arp.
     seq (setup_dip_lookup_table D bf_rt_info) (\<lambda>dip.
     seq (setup_offload_connection_table D bf_rt_info) (\<lambda>oft.
     seq (setup_dest_to_egress_port_table D bf_rt_info) (\<lambda>dst.
     seq (setup_d_index_to_egress_port_table D bf_rt_info) (\<lambda>dix.
     seq (setup_lb_index_to_egress_port_table D bf_rt_info) (\<lambda>lbx.
     seq (setup_d_index_to_ip_port_table D bf_rt_info) (\<lambda>ipp.
     ret \<lparr>t_arp = arp, t_dip = dip, t_oft = oft, t_dst = dst, t_dix = dix, t_lbx = lbx, t_ipp = ipp\<rparr>)))))))"

text \<open>One file of one table: open, parse, fill the array.\<close>

definition load_entries ::
  "(string \<Rightarrow> string option) \<Rightarrow> 'j cjson \<Rightarrow> string \<Rightarrow> string \<Rightarrow> ('j option \<Rightarrow> ('a, 's) prog) \<Rightarrow> ('a list, 's) prog" where
  "load_entries fs J path open_msg parse =
     seq (load_json fs J path open_msg ''cJSON_Parse failed'') (load_array J parse)"

record config =
  c_arp :: "arp_table_entry list"
  c_dip :: "dip_lookup_table_entry list"
  c_dst :: "dest_to_egress_port_table_entry list"
  c_dix :: "d_index_to_egress_port_table_entry list"
  c_lbx :: "lb_index_to_egress_port_table_entry list"
  c_ipp :: "d_index_to_ip_port_table_entry list"

definition install ::
  "u64 \<Rightarrow> 's bf_rt \<Rightarrow> (string \<Rightarrow> string option) \<Rightarrow> 'j cjson \<Rightarrow> hdl \<Rightarrow> bf_rt_target \<Rightarrow> tables \<Rightarrow> (config, 's) prog" where
  "install u D fs J session dev_tgt t =
     seq (load_entries fs J ''config/arp_table.json'' ''Failed to open arp_table_file'' (parse_arp J)) (\<lambda>arp_table_entry.
     seq (add_arp_table_entry D session dev_tgt arp_table_entry (t_arp t)) (\<lambda>_.
     seq (load_entries fs J ''config/d_index.json'' ''Failed to open d_index_file'' (parse_server u J)) (\<lambda>servers.
     seq (add_dip_lookup_table_entry D session dev_tgt (map (\<lambda>(x, y, z). z) servers) (t_dip t)) (\<lambda>_.
     seq (add_d_index_to_egress_port_table_entry D session dev_tgt (map (\<lambda>(x, y, z). x) servers) (t_dix t)) (\<lambda>_.
     seq (add_d_index_to_ip_port_table_entry D session dev_tgt (map (\<lambda>(x, y, z). y) servers) (t_ipp t)) (\<lambda>_.
     seq (load_entries fs J ''config/lb_index.json'' ''Failed to open lb_index_file'' (parse_lb_index u J)) (\<lambda>lb_index_entry.
     seq (add_lb_index_to_egress_port_table_entry D session dev_tgt lb_index_entry (t_lbx t)) (\<lambda>_.
     seq (load_entries fs J ''config/dest_to_egress.json'' ''Failed to open dest_to_egress_file'' (parse_dest J)) (\<lambda>dest_entry.
     seq (add_dest_to_egress_port_table_entry D session dev_tgt dest_entry (t_dst t)) (\<lambda>_.
     ret \<lparr>c_arp = arp_table_entry, c_dip = map (\<lambda>(x, y, z). z) servers, c_dst = dest_entry, c_dix = map (\<lambda>(x, y, z). x) servers,
       c_lbx = lb_index_entry, c_ipp = map (\<lambda>(x, y, z). y) servers\<rparr>))))))))))"

text \<open>\<open>main\<close>, with \<open>n\<close> rounds of the endless loop and the initial contents of its buffers.\<close>

definition switch_main ::
  "nat \<Rightarrow> u64 \<Rightarrow> 's bf_rt \<Rightarrow> 's sys \<Rightarrow> (string \<Rightarrow> string option) \<Rightarrow> (string \<Rightarrow> string option) \<Rightarrow> 'j cjson \<Rightarrow> bytes \<times> bytes \<Rightarrow>
   (bytes \<times> bytes, 's) prog" where
  "switch_main n u D S fs getenv J bufs =
     seq (init_switch D getenv ''l7lb_switch'') (\<lambda>dev_tgt.
     seq (init_bf_rt D dev_tgt ''l7lb_switch'') (\<lambda>(bf_rt_info, session).
     seq (init_ports D dev_tgt fs J ''config/port.json'') (\<lambda>_.
     seq (setup_tables D bf_rt_info) (\<lambda>t.
     seq (init_controller S fs J ''10.0.1.254'' 12345 ''config/rule.json'' ''config/d_index.json'' ''config/v_info.json'') (\<lambda>c.
     seq (install u D fs J session dev_tgt t) (\<lambda>_.
     run_controller n D S session dev_tgt (t_oft t) c bufs))))))"

section \<open>MAC addresses\<close>

text \<open>
  The two halves of a MAC address from the configuration are put together without overlap or
  carry: the result is the 48-bit number with these halves.
\<close>

theorem mac_of_halves:
  assumes "0 \<le> hi" "hi < 2 ^ 24" "0 \<le> lo" "lo < 2 ^ 24"
  shows "uint (mac_of hi lo) = hi * 2 ^ 24 + lo \<and> uint (mac_of hi lo) < 2 ^ 48"
proof -
  have eq: "mac_of hi lo = word_of_int (hi * 2 ^ 24 + lo)"
    by (simp add: mac_of_def push_bit_eq_mult of_int_add)
  have b: "0 \<le> hi * 2 ^ 24 + lo" "hi * 2 ^ 24 + lo < 2 ^ 48" using assms by simp_all
  then have "take_bit 64 (hi * 2 ^ 24 + lo) = hi * 2 ^ 24 + lo" by (intro take_bit_int_eq_self) simp_all
  then have "uint (mac_of hi lo) = hi * 2 ^ 24 + lo" unfolding eq using b by (simp only: unsigned_of_int) simp
  then show ?thesis using b by simp
qed

theorem mac_of_halves_witness: "uint (mac_of 0x0c42a1 0x4aff02) = 0x0c42a14aff02"
  using mac_of_halves [of "0x0c42a1" "0x4aff02"] by simp

end
