(* ===== verification/Rule_Controller.thy ===== *)
theory Rule_Controller
  imports Controller
begin

text \<open>
  The data of the front end (\<open>src/Frontend/flow_data.hpp\<close>, \<open>my_config.hpp\<close>) and its rule controller
  (\<open>src/Frontend/subprojects/rule_controller\<close>).  The classes \<open>my_key_t\<close>, \<open>my_data_t\<close>, \<open>my_pair_t\<close> and
  \<open>server_info_t\<close> have the fields of the structs of the switch's \<open>controller.h\<close>, so the records of
  theory \<open>Controller\<close> stand for both; what is given here is their memory image on the front end.
\<close>

section \<open>Data\<close>

datatype status = OK | INTERNAL_ERROR | INVALID_PARAMETER | BUSYING | OUT_OF_RANGE | UNKNOWN

datatype operation_type = UPDATE_RULE | UPDATE_D_INDEX | UPDATE_V_INFO | OFFLOAD_ENTRIES

fun op_code :: "operation_type \<Rightarrow> u8" where
  "op_code UPDATE_RULE = 0"
| "op_code UPDATE_D_INDEX = 1"
| "op_code UPDATE_V_INFO = 2"
| "op_code OFFLOAD_ENTRIES = 3"

text \<open>The memory images; \<open>pad\<close> gives the bytes of the padding, which the language leaves open.\<close>

definition my_key_bytes :: "(nat \<Rightarrow> u8) \<Rightarrow> my_key \<Rightarrow> bytes" where
  "my_key_bytes pad k = [mk_crc k, pad 0, pad 1, pad 2] @ bytes32 (mk_client_ip k) @ bytes16 (mk_client_port k) @ [pad 3, pad 4]"

definition my_data_bytes :: "my_data \<Rightarrow> bytes" where
  "my_data_bytes d = [md_offload_flag d, md_d_index d]"

definition my_pair_bytes :: "(nat \<Rightarrow> u8) \<Rightarrow> my_pair \<Rightarrow> bytes" where
  "my_pair_bytes pad p = my_key_bytes pad (mp_key p) @ my_data_bytes (mp_data p) @ [pad 5, pad 6]"

text \<open>The size of \<open>my_hash_pair_t\<close>: an 8-byte key, two bytes of data and padding up to the alignment of the key.\<close>

definition sizeof_my_hash_pair :: nat where "sizeof_my_hash_pair = 16"

lemma length_my_key_bytes [simp]: "length (my_key_bytes pad k) = sizeof_my_key"
  by (simp add: my_key_bytes_def sizeof_my_key_def)

lemma length_my_pair_bytes [simp]: "length (my_pair_bytes pad p) = sizeof_my_pair"
  by (simp add: my_pair_bytes_def my_data_bytes_def sizeof_my_pair_def sizeof_my_key_def)

text \<open>What the switch reads out of the images.\<close>

definition key_value :: "my_key \<Rightarrow> u32 \<times> u16" where
  "key_value k = (mk_client_ip k, mk_client_port k)"

definition pair_value :: "my_pair \<Rightarrow> u32 \<times> u16 \<times> u8" where
  "pair_value p = (mk_client_ip (mp_key p), mk_client_port (mp_key p), md_d_index (mp_data p))"

lemma key_of_my_key_bytes: "key_of_bytes (my_key_bytes pad k) = key_value k"
  by (simp add: key_of_bytes_def my_key_bytes_def key_value_def bytes32_def bytes16_def)

lemma pair_of_my_pair_bytes: "pair_of_bytes (my_pair_bytes pad p) = pair_value p"
  by (simp add: pair_of_bytes_def my_pair_bytes_def my_key_bytes_def my_data_bytes_def pair_value_def bytes32_def bytes16_def)

section \<open>The rule controller\<close>

text \<open>\<open>server_info_t\<close>: the default constructor, the constructor from fields and the copy constructor.\<close>

definition server_info_default :: server_info where
  "server_info_default = \<lparr>si_mac = replicate 6 0, si_ip = 0, si_port = 0\<rparr>"

definition server_info_new :: "bytes \<Rightarrow> u32 \<Rightarrow> u16 \<Rightarrow> server_info" where
  "server_info_new mac ip port = \<lparr>si_mac = mac, si_ip = ip, si_port = port\<rparr>"

definition server_info_copy :: "server_info \<Rightarrow> server_info" where
  "server_info_copy i = \<lparr>si_mac = si_mac i, si_ip = si_ip i, si_port = si_port i\<rparr>"

text \<open>
  The maps hold pointers to objects that nothing else owns, so they are modelled with the objects
  themselves (an overwritten object is leaked, not freed).  A key is the C string it was built from.
\<close>

record rule_controller =
  rule_map :: "bytes \<rightharpoonup> my_data"
  d_index_map :: "u8 \<rightharpoonup> server_info"
  virtual_server_info :: server_info

definition rule_controller_new :: rule_controller where
  "rule_controller_new = \<lparr>rule_map = Map.empty, d_index_map = Map.empty, virtual_server_info = server_info_default\<rparr>"

definition add_balancing_rule :: "bytes \<Rightarrow> my_data \<Rightarrow> rule_controller \<Rightarrow> status \<times> rule_controller" where
  "add_balancing_rule key data rc = (OK, rc\<lparr>rule_map := (rule_map rc)(key \<mapsto> data)\<rparr>)"

definition lookup_balancing_rule :: "bytes \<Rightarrow> rule_controller \<Rightarrow> my_data option" where
  "lookup_balancing_rule key rc = rule_map rc key"

definition del_balancing_rule :: "bytes \<Rightarrow> rule_controller \<Rightarrow> status \<times> rule_controller" where
  "del_balancing_rule key rc = (case rule_map rc key of
     None \<Rightarrow> (INTERNAL_ERROR, rc)
   | Some _ \<Rightarrow> (OK, rc\<lparr>rule_map := (rule_map rc)(key := None)\<rparr>))"

definition add_d_index_rule :: "u8 \<Rightarrow> server_info \<Rightarrow> rule_controller \<Rightarrow> status \<times> rule_controller" where
  "add_d_index_rule index server_info rc = (OK, rc\<lparr>d_index_map := (d_index_map rc)(index \<mapsto> server_info)\<rparr>)"

definition lookup_backend_server_info :: "u8 \<Rightarrow> rule_controller \<Rightarrow> server_info option" where
  "lookup_backend_server_info index rc = d_index_map rc index"

definition del_d_index_rule :: "u8 \<Rightarrow> rule_controller \<Rightarrow> status \<times> rule_controller" where
  "del_d_index_rule index rc = (case d_index_map rc index of
     None \<Rightarrow> (INTERNAL_ERROR, rc)
   | Some _ \<Rightarrow> (OK, rc\<lparr>d_index_map := (d_index_map rc)(index := None)\<rparr>))"

definition update_virtual_server_info :: "server_info \<Rightarrow> rule_controller \<Rightarrow> status \<times> rule_controller" where
  "update_virtual_server_info new_info rc = (OK, rc\<lparr>virtual_server_info := new_info\<rparr>)"

text \<open>The pointer is set in the constructor and never changed: it is not null.\<close>

definition get_virtual_server_info :: "rule_controller \<Rightarrow> server_info" where
  "get_virtual_server_info rc = virtual_server_info rc"

section \<open>The contract of a table\<close>

text \<open>
  Both maps of the rule controller promise the same: what was added last under a key is found, a
  deletion removes it, an unknown key is refused, and nothing else changes.  \<open>rest\<close> is the part of
  the state that the table does not touch.
\<close>

locale rule_table =
  fixes add :: "'k \<Rightarrow> 'v \<Rightarrow> 's \<Rightarrow> status \<times> 's"
    and look :: "'k \<Rightarrow> 's \<Rightarrow> 'v option"
    and del :: "'k \<Rightarrow> 's \<Rightarrow> status \<times> 's"
    and rest :: "'s \<Rightarrow> 'r"
  assumes add_ok: "fst (add k v s) = OK"
    and look_add: "look k' (snd (add k v s)) = (if k' = k then Some v else look k' s)"
    and del_status: "fst (del k s) = (if look k s = None then INTERNAL_ERROR else OK)"
    and look_del: "look k' (snd (del k s)) = (if k' = k then None else look k' s)"
    and rest_add: "rest (snd (add k v s)) = rest s"
    and rest_del: "rest (snd (del k s)) = rest s"
begin

text \<open>A sequence of additions behaves as the list of bindings, the latest first.\<close>

lemma look_adds:
  "look k (fold (\<lambda>(k, v) s. snd (add k v s)) kvs s) =
   (case map_of (rev kvs) k of None \<Rightarrow> look k s | Some v \<Rightarrow> Some v)"
  by (induction kvs rule: rev_induct) (auto simp: look_add split: prod.splits)

lemma rest_adds: "rest (fold (\<lambda>(k, v) s. snd (add k v s)) kvs s) = rest s"
  by (induction kvs arbitrary: s) (auto simp: rest_add split: prod.splits)

lemma look_dels: "look k (fold (\<lambda>k s. snd (del k s)) ks s) = (if k \<in> set ks then None else look k s)"
  by (induction ks arbitrary: s) (auto simp: look_del)

lemma rest_dels: "rest (fold (\<lambda>k s. snd (del k s)) ks s) = rest s"
  by (induction ks arbitrary: s) (auto simp: rest_del)

end

lemmas rule_controller_defs = add_balancing_rule_def lookup_balancing_rule_def del_balancing_rule_def
  add_d_index_rule_def lookup_backend_server_info_def del_d_index_rule_def

interpretation rules_tab: rule_table add_balancing_rule lookup_balancing_rule del_balancing_rule
    "\<lambda>rc. (d_index_map rc, virtual_server_info rc)"
  by unfold_locales (auto simp: rule_controller_defs split: option.splits)

interpretation d_index_tab: rule_table add_d_index_rule lookup_backend_server_info del_d_index_rule
    "\<lambda>rc. (rule_map rc, virtual_server_info rc)"
  by unfold_locales (auto simp: rule_controller_defs split: option.splits)

end
