(* ===== verification/Entry_Controller.thy ===== *)
theory Entry_Controller
  imports Rule_Controller "HOL-Library.Multiset"
begin

text \<open>
  \<open>src/Frontend/subprojects/entry_controller\<close>: what the workers of the front end want added to and deleted
  from the offload table of the switch is taken from two queues in batches, held back in two arrays,
  and written into the send buffer as offload messages of at most 40 additions and 40 deletions.
\<close>

section \<open>The queues\<close>

text \<open>
  The queues are \<open>moodycamel::ConcurrentQueue\<close>s, which are not part of the repository: \<open>try_dequeue_bulk\<close> is
  a parameter, for each of the two queues, on the state behind them.
\<close>

record 's offload_queues =
  add_dequeue_bulk :: "nat \<Rightarrow> 's \<Rightarrow> my_pair list \<times> 's"
  del_dequeue_bulk :: "nat \<Rightarrow> 's \<Rightarrow> my_key list \<times> 's"

section \<open>Operations\<close>

definition BATCH_SIZE :: nat where "BATCH_SIZE = 40"
definition THRESHOLD :: nat where "THRESHOLD = 20"

record entry_controller =
  add_pairs :: "my_pair list"
  del_keys :: "my_key list"
  remain_add_size :: nat
  remain_del_size :: nat
  ec_status :: status
  ec_exit_flag :: bool

text \<open>
  The constructor; \<open>ps\<close> and \<open>ks\<close> are what the fresh arrays of \<open>2 * BATCH_SIZE\<close> elements hold.  (\<open>new\<close> throws
  rather than returning a null pointer, so the error branch is never taken.)
\<close>

definition entry_controller_new :: "(nat \<Rightarrow> my_pair) \<Rightarrow> (nat \<Rightarrow> my_key) \<Rightarrow> entry_controller" where
  "entry_controller_new ps ks = \<lparr>add_pairs = map ps [0..<BATCH_SIZE * 2], del_keys = map ks [0..<BATCH_SIZE * 2],
     remain_add_size = 0, remain_del_size = 0, ec_status = OK, ec_exit_flag = True\<rparr>"

text \<open>Writing a run of elements into an array, and \<open>memcpy\<close> within one, which must not overlap.\<close>

definition store_run :: "'a list \<Rightarrow> nat \<Rightarrow> 'a list \<Rightarrow> 'a list option" where
  "store_run arr i xs = (if i + length xs \<le> length arr then Some (take i arr @ xs @ drop (i + length xs) arr) else None)"

definition move_down :: "'a list \<Rightarrow> nat \<Rightarrow> nat \<Rightarrow> 'a list option" where
  "move_down arr from n =
     (if from + n \<le> length arr \<and> n \<le> from then store_run arr 0 (take n (drop from arr)) else None)"

text \<open>The images of a run of elements; \<open>pad i\<close> is the padding of the \<open>i\<close>-th.\<close>

definition images :: "((nat \<Rightarrow> u8) \<Rightarrow> 'a \<Rightarrow> bytes) \<Rightarrow> (nat \<Rightarrow> nat \<Rightarrow> u8) \<Rightarrow> 'a list \<Rightarrow> bytes list" where
  "images f pad xs = map (\<lambda>(i, x). f (pad i) x) (enumerate 0 xs)"

text \<open>
  The part of \<open>get_offloaded_entries\<close> that fills the arrays: when both hold at most \<open>THRESHOLD\<close> elements, up
  to \<open>BATCH_SIZE\<close> elements of each queue are written behind them.
\<close>

definition refill :: "'s offload_queues \<Rightarrow> entry_controller \<Rightarrow> (entry_controller, 's) prog" where
  "refill Q ec s =
     (if remain_add_size ec \<le> THRESHOLD \<and> remain_del_size ec \<le> THRESHOLD then
        (let (ps, s) = add_dequeue_bulk Q BATCH_SIZE s;
             (ks, s) = del_dequeue_bulk Q BATCH_SIZE s
         in (case (store_run (add_pairs ec) (remain_add_size ec) ps, store_run (del_keys ec) (remain_del_size ec) ks) of
               (Some arr, Some arr') \<Rightarrow>
                 (Ret (ec\<lparr>add_pairs := arr, del_keys := arr', remain_add_size := remain_add_size ec + length ps,
                    remain_del_size := remain_del_size ec + length ks\<rparr>), s)
             | _ \<Rightarrow> (Crash, s)))
      else (Ret ec, s))"

text \<open>
  The part that writes one message.  The arrays are copied by the byte; the shift of \<open>add_pairs\<close> counts in
  elements of \<open>my_hash_pair_t\<close>, which has the size of \<open>my_pair_t\<close>.
\<close>

definition shift_pairs :: "my_pair list \<Rightarrow> nat \<Rightarrow> nat \<Rightarrow> my_pair list option" where
  "shift_pairs arr need remain =
     (if need < remain then move_down arr need (sizeof_my_hash_pair * (remain - need) div sizeof_my_pair) else Some arr)"

definition shift_keys :: "my_key list \<Rightarrow> nat \<Rightarrow> nat \<Rightarrow> my_key list option" where
  "shift_keys arr need remain = (if need < remain then move_down arr need (remain - need) else Some arr)"

definition write_batch ::
  "(nat \<Rightarrow> nat \<Rightarrow> u8) \<Rightarrow> (nat \<Rightarrow> nat \<Rightarrow> u8) \<Rightarrow> bytes \<Rightarrow> entry_controller \<Rightarrow> (out_buf \<times> entry_controller) option" where
  "write_batch pad pad' send_buffer ec = do {
     let need_add_size = (if remain_add_size ec > BATCH_SIZE then BATCH_SIZE else remain_add_size ec);
     let need_del_size = (if remain_del_size ec > BATCH_SIZE then BATCH_SIZE else remain_del_size ec);
     ob \<leftarrow> put [op_code OFFLOAD_ENTRIES] (send_buffer, 0);
     ob \<leftarrow> put [word_of_nat need_add_size] ob;
     ob \<leftarrow> put [word_of_nat need_del_size] ob;
     ob \<leftarrow> put (concat (images my_pair_bytes pad (take need_add_size (add_pairs ec)))) ob;
     ob \<leftarrow> put (concat (images my_key_bytes pad' (take need_del_size (del_keys ec)))) ob;
     arr \<leftarrow> shift_pairs (add_pairs ec) need_add_size (remain_add_size ec);
     arr' \<leftarrow> shift_keys (del_keys ec) need_del_size (remain_del_size ec);
     Some (ob, ec\<lparr>add_pairs := arr, del_keys := arr', remain_add_size := remain_add_size ec - need_add_size,
       remain_del_size := remain_del_size ec - need_del_size\<rparr>)
   }"

text \<open>The number returned is the length of the message, 0 when there is nothing to send.\<close>

definition get_offloaded_entries ::
  "'s offload_queues \<Rightarrow> (nat \<Rightarrow> nat \<Rightarrow> u8) \<Rightarrow> (nat \<Rightarrow> nat \<Rightarrow> u8) \<Rightarrow> bytes \<Rightarrow> entry_controller \<Rightarrow> (out_buf \<times> entry_controller, 's) prog" where
  "get_offloaded_entries Q pad pad' send_buffer ec =
     seq (refill Q ec) (\<lambda>ec.
     if remain_add_size ec = 0 \<and> remain_del_size ec = 0 then ret ((send_buffer, 0), ec)
     else (case write_batch pad pad' send_buffer ec of
         None \<Rightarrow> crash
       | Some r \<Rightarrow> ret r))"

section \<open>What is held back\<close>

definition pending_adds :: "entry_controller \<Rightarrow> my_pair list" where
  "pending_adds ec = take (remain_add_size ec) (add_pairs ec)"

definition pending_dels :: "entry_controller \<Rightarrow> my_key list" where
  "pending_dels ec = take (remain_del_size ec) (del_keys ec)"

text \<open>
  Between two calls at most \<open>THRESHOLD\<close> elements are held back, which is why the arrays never overflow; in
  the middle of a call there are at most \<open>THRESHOLD + BATCH_SIZE\<close>.
\<close>

definition arrays_hold :: "nat \<Rightarrow> entry_controller \<Rightarrow> bool" where
  "arrays_hold n ec \<longleftrightarrow> length (add_pairs ec) = BATCH_SIZE * 2 \<and> length (del_keys ec) = BATCH_SIZE * 2 \<and>
     remain_add_size ec \<le> n \<and> remain_del_size ec \<le> n"

definition ec_ok :: "entry_controller \<Rightarrow> bool" where
  "ec_ok ec \<longleftrightarrow> arrays_hold THRESHOLD ec"

lemmas ec_simps = arrays_hold_def pending_adds_def pending_dels_def BATCH_SIZE_def THRESHOLD_def

lemma store_run_in: "i + length xs \<le> length arr \<Longrightarrow>
    \<exists>arr'. store_run arr i xs = Some arr' \<and> length arr' = length arr \<and> take (i + length xs) arr' = take i arr @ xs"
  by (simp add: store_run_def)

lemma move_down_in: "from + n \<le> length arr \<Longrightarrow> n \<le> from \<Longrightarrow>
    \<exists>arr'. move_down arr from n = Some arr' \<and> length arr' = length arr \<and> take n arr' = take n (drop from arr)"
  using store_run_in [of 0 "take n (drop from arr)" arr] by (simp add: move_down_def)

lemma length_pending: "arrays_hold n ec \<Longrightarrow> n \<le> BATCH_SIZE * 2 \<Longrightarrow> length (pending_adds ec) = remain_add_size ec"
    "arrays_hold n ec \<Longrightarrow> n \<le> BATCH_SIZE * 2 \<Longrightarrow> length (pending_dels ec) = remain_del_size ec"
  by (simp_all add: ec_simps)

lemma entry_controller_new_ok:
  "ec_ok (entry_controller_new ps ks)" "pending_adds (entry_controller_new ps ks) = []" "pending_dels (entry_controller_new ps ks) = []"
  by (simp_all add: ec_ok_def ec_simps entry_controller_new_def del: upt_rec_numeral)

text \<open>A shift keeps the array and leaves what was not sent; when nothing is left, the array is not touched.\<close>

lemma shift_pairs_ok:
  assumes "length arr = BATCH_SIZE * 2" "n \<le> THRESHOLD + BATCH_SIZE" "need = min BATCH_SIZE n"
  shows "\<exists>arr'. shift_pairs arr need n = Some arr' \<and> length arr' = length arr \<and> take (n - need) arr' = drop need (take n arr)"
  using assms move_down_in [of need "n - need" arr]
  by (auto simp: shift_pairs_def sizeof_my_hash_pair_def sizeof_my_pair_def ec_simps drop_take)

lemma shift_keys_ok:
  assumes "length arr = BATCH_SIZE * 2" "n \<le> THRESHOLD + BATCH_SIZE" "need = min BATCH_SIZE n"
  shows "\<exists>arr'. shift_keys arr need n = Some arr' \<and> length arr' = length arr \<and> take (n - need) arr' = drop need (take n arr)"
  using assms move_down_in [of need "n - need" arr]
  by (auto simp: shift_keys_def ec_simps drop_take)

section \<open>The messages\<close>

text \<open>A message carries the given additions and deletions, whatever the padding holds.\<close>

definition batch_of :: "(nat \<Rightarrow> nat \<Rightarrow> u8) \<Rightarrow> (nat \<Rightarrow> nat \<Rightarrow> u8) \<Rightarrow> my_pair list \<times> my_key list \<Rightarrow> batch" where
  "batch_of pad pad' b = (images my_pair_bytes pad (fst b), images my_key_bytes pad' (snd b))"

definition carries :: "bytes \<Rightarrow> my_pair list \<times> my_key list \<Rightarrow> bool" where
  "carries m b \<longleftrightarrow> (\<exists>pad pad'. m = batch_bytes (batch_of pad pad' b))"

lemma map_images: "(\<And>p x. g (f p x) = h x) \<Longrightarrow> map g (images f pad xs) = map h xs"
  using map_map [of h snd "enumerate 0 xs"] by (simp add: images_def comp_def case_prod_beta)

lemma length_images [simp]: "length (images f pad xs) = length xs"
  by (simp add: images_def)

lemma images_length: "(\<And>p x. length (f p x) = n) \<Longrightarrow> \<forall>y \<in> set (images f pad xs). length y = n"
  by (auto simp: images_def)

lemma batch_of_ok: "length (fst b) \<le> BATCH_SIZE \<Longrightarrow> length (snd b) \<le> BATCH_SIZE \<Longrightarrow> batch_ok (batch_of pad pad' b)"
  using images_length [of my_pair_bytes 16 pad "fst b"] images_length [of my_key_bytes 12 pad' "snd b"]
  by (simp add: batch_ok_def batch_of_def BATCH_SIZE_def sizeof_my_pair_def sizeof_my_key_def)

lemma batch_of_size: "batch_size (batch_of pad pad' b) = length (fst b) + length (snd b)"
  by (simp add: batch_size_def batch_of_def)

text \<open>
  The operations that such a message asks for, and the effect that they have on the offload table when all
  additions fit.
\<close>

definition ops_of :: "my_pair list \<times> my_key list \<Rightarrow> oft_op list" where
  "ops_of b = map (\<lambda>p. case pair_value p of (ip, port, d_index) \<Rightarrow> OAdd ip port d_index) (fst b) @
     map (\<lambda>k. case key_value k of (ip, port) \<Rightarrow> ODel ip port) (snd b)"

definition ops_apply :: "offload_connection_table_info \<Rightarrow> my_pair list \<times> my_key list \<Rightarrow> (match \<rightharpoonup> action) \<Rightarrow> match \<rightharpoonup> action" where
  "ops_apply i b T = fold (oft_del i) (map key_value (snd b)) (fold (oft_add i) (map pair_value (fst b)) T)"

lemma batch_of_ops: "batch_ops (batch_of pad pad' b) = ops_of b"
  by (simp add: batch_ops_def batch_of_def ops_of_def map_images [where h = "\<lambda>p. case pair_value p of (ip, port, d_index) \<Rightarrow> OAdd ip port d_index"]
    map_images [where h = "\<lambda>k. case key_value k of (ip, port) \<Rightarrow> ODel ip port"] add_op_def del_op_def key_of_my_key_bytes pair_of_my_pair_bytes)

lemma ops_of_apply: "fold (op_apply i) (ops_of b) = ops_apply i b"
proof -
  have "fold (op_apply i) (map (\<lambda>p. case pair_value p of (ip, port, d_index) \<Rightarrow> OAdd ip port d_index) ps) = fold (oft_add i) (map pair_value ps)" for ps
    by (induction ps) (auto split: prod.split)
  moreover have "fold (op_apply i) (map (\<lambda>k. case key_value k of (ip, port) \<Rightarrow> ODel ip port) ks) = fold (oft_del i) (map key_value ks)" for ks
    by (induction ks) (auto split: prod.split)
  ultimately show ?thesis by (auto simp: ops_of_def ops_apply_def)
qed

lemma ops_of_adds: "length (filter is_add (ops_of b)) = length (fst b)"
proof -
  have "filter is_add (map (\<lambda>p. case pair_value p of (ip, port, d_index) \<Rightarrow> OAdd ip port d_index) ps) =
      map (\<lambda>p. case pair_value p of (ip, port, d_index) \<Rightarrow> OAdd ip port d_index) ps" for ps
    by (induction ps) (auto split: prod.split)
  moreover have "filter is_add (map (\<lambda>k. case key_value k of (ip, port) \<Rightarrow> ODel ip port) ks) = []" for ks
    by (induction ks) (auto split: prod.split)
  ultimately show ?thesis by (simp add: ops_of_def)
qed

lemma carries_length:
  assumes "carries m b" "length (fst b) \<le> BATCH_SIZE" "length (snd b) \<le> BATCH_SIZE"
  shows "length m = 3 + 16 * length (fst b) + 12 * length (snd b)"
  using assms batch_bytes_length [OF batch_of_ok [of b]] by (auto simp: carries_def batch_of_def)

text \<open>The next message: the first elements of what is held back.\<close>

definition next_batch :: "entry_controller \<Rightarrow> my_pair list \<times> my_key list" where
  "next_batch ec = (take BATCH_SIZE (pending_adds ec), take BATCH_SIZE (pending_dels ec))"

definition after_batch :: "entry_controller \<Rightarrow> entry_controller \<Rightarrow> bool" where
  "after_batch ec ec' \<longleftrightarrow> ec_ok ec' \<and> pending_adds ec' = drop BATCH_SIZE (pending_adds ec) \<and>
     pending_dels ec' = drop BATCH_SIZE (pending_dels ec)"

lemma next_batch_length: "length (fst (next_batch ec)) \<le> BATCH_SIZE" "length (snd (next_batch ec)) \<le> BATCH_SIZE"
  by (simp_all add: next_batch_def)

text \<open>One message is written in full: it carries the next batch, and the rest stays in the arrays.\<close>

lemma write_batch_ok:
  assumes h: "arrays_hold (THRESHOLD + BATCH_SIZE) ec" and len: "length buf = 1514"
  shows "\<exists>ec'. write_batch pad pad' buf ec =
      Some ((patch buf 0 (batch_bytes (batch_of pad pad' (next_batch ec))), length (batch_bytes (batch_of pad pad' (next_batch ec)))), ec') \<and>
    after_batch ec ec'"
proof -
  let ?a = "min BATCH_SIZE (remain_add_size ec)" and ?d = "min BATCH_SIZE (remain_del_size ec)"
  let ?ps = "concat (images my_pair_bytes pad (fst (next_batch ec)))" and ?ks = "concat (images my_key_bytes pad' (snd (next_batch ec)))"
  have nb: "next_batch ec = (take ?a (add_pairs ec), take ?d (del_keys ec))"
    by (simp add: next_batch_def pending_adds_def pending_dels_def min.commute)
  have al: "length (fst (next_batch ec)) = ?a" "length (snd (next_batch ec)) = ?d"
    using h by (simp_all add: nb ec_simps)
  have need: "(if BATCH_SIZE < n then BATCH_SIZE else n) = min BATCH_SIZE n" for n by auto
  have msg: "batch_bytes (batch_of pad pad' (next_batch ec)) = [3, word_of_nat ?a, word_of_nat ?d] @ ?ps @ ?ks"
    by (simp add: batch_bytes_def batch_of_def al)
  have "3 + length ?ps + length ?ks \<le> length buf"
    using batch_bytes_length [OF batch_of_ok [OF next_batch_length, of pad pad' ec]] al len msg
    by (simp add: batch_of_def BATCH_SIZE_def)
  moreover obtain arr where arr: "shift_pairs (add_pairs ec) ?a (remain_add_size ec) = Some arr" "length arr = length (add_pairs ec)"
      "take (remain_add_size ec - ?a) arr = drop ?a (take (remain_add_size ec) (add_pairs ec))"
    using shift_pairs_ok [of "add_pairs ec" "remain_add_size ec" ?a] h by (auto simp: arrays_hold_def)
  moreover obtain arr' where arr': "shift_keys (del_keys ec) ?d (remain_del_size ec) = Some arr'" "length arr' = length (del_keys ec)"
      "take (remain_del_size ec - ?d) arr' = drop ?d (take (remain_del_size ec) (del_keys ec))"
    using shift_keys_ok [of "del_keys ec" "remain_del_size ec" ?d] h by (auto simp: arrays_hold_def)
  ultimately have "write_batch pad pad' buf ec = Some ((patch buf 0 ([3, word_of_nat ?a, word_of_nat ?d] @ ?ps @ ?ks),
      length ([3, word_of_nat ?a, word_of_nat ?d] @ ?ps @ ?ks)), ec\<lparr>add_pairs := arr, del_keys := arr',
      remain_add_size := remain_add_size ec - ?a, remain_del_size := remain_del_size ec - ?d\<rparr>)"
    using len unfolding write_batch_def Let_def need by (simp add: nb put_eq patch_patch_append)
  moreover have "after_batch ec (ec\<lparr>add_pairs := arr, del_keys := arr',
      remain_add_size := remain_add_size ec - ?a, remain_del_size := remain_del_size ec - ?d\<rparr>)"
    using h arr arr' by (auto simp: after_batch_def ec_ok_def ec_simps min_def)
  ultimately show ?thesis unfolding msg by blast
qed

section \<open>The contract of the queues\<close>

text \<open>
  What the queue documents of \<open>try_dequeue_bulk\<close>: it removes at most the given number of elements and
  returns them, and it returns some when the queue holds some.  Nothing is promised of the order in
  which elements of different producers come out, so the contents are a multiset.
\<close>

locale offload_source =
  fixes Q :: "'s offload_queues" and qa :: "'s \<Rightarrow> my_pair multiset" and qd :: "'s \<Rightarrow> my_key multiset"
  assumes add_deq: "add_dequeue_bulk Q n s = (ps, s') \<Longrightarrow>
      length ps \<le> n \<and> qa s = mset ps + qa s' \<and> qd s' = qd s \<and> (0 < n \<and> qa s \<noteq> {#} \<longrightarrow> ps \<noteq> [])"
    and del_deq: "del_dequeue_bulk Q n s = (ks, s') \<Longrightarrow>
      length ks \<le> n \<and> qd s = mset ks + qd s' \<and> qa s' = qa s \<and> (0 < n \<and> qd s \<noteq> {#} \<longrightarrow> ks \<noteq> [])"

text \<open>Everything not sent yet: in the queues or in the arrays.\<close>

definition unsent_adds :: "('s \<Rightarrow> my_pair multiset) \<Rightarrow> entry_controller \<Rightarrow> 's \<Rightarrow> my_pair multiset" where
  "unsent_adds qa ec s = mset (pending_adds ec) + qa s"

definition unsent_dels :: "('s \<Rightarrow> my_key multiset) \<Rightarrow> entry_controller \<Rightarrow> 's \<Rightarrow> my_key multiset" where
  "unsent_dels qd ec s = mset (pending_dels ec) + qd s"

text \<open>What one call that ends in \<open>((buf, n), ec')\<close> and \<open>s'\<close> has done, \<open>b\<close> being what it wrote.\<close>

definition tick_ok ::
  "('s \<Rightarrow> my_pair multiset) \<Rightarrow> ('s \<Rightarrow> my_key multiset) \<Rightarrow> entry_controller \<Rightarrow> 's \<Rightarrow> my_pair list \<times> my_key list \<Rightarrow> bytes \<Rightarrow> nat \<Rightarrow>
   entry_controller \<Rightarrow> 's \<Rightarrow> bool" where
  "tick_ok qa qd ec s b buf n ec' s' \<longleftrightarrow> ec_ok ec' \<and> length buf = 1514 \<and>
     unsent_adds qa ec s = mset (fst b) + unsent_adds qa ec' s' \<and>
     unsent_dels qd ec s = mset (snd b) + unsent_dels qd ec' s' \<and>
     length (fst b) \<le> BATCH_SIZE \<and> length (snd b) \<le> BATCH_SIZE \<and>
     (if n = 0 then b = ([], []) \<and> unsent_adds qa ec' s' = {#} \<and> unsent_dels qd ec' s' = {#}
      else b \<noteq> ([], []) \<and> n \<le> length buf \<and> carries (take n buf) b)"

context offload_source begin

lemma refill_ok:
  assumes "ec_ok ec"
  shows "\<exists>ec' s' ps ks. refill Q ec s = (Ret ec', s') \<and> arrays_hold (THRESHOLD + BATCH_SIZE) ec' \<and>
    pending_adds ec' = pending_adds ec @ ps \<and> pending_dels ec' = pending_dels ec @ ks \<and>
    qa s = mset ps + qa s' \<and> qd s = mset ks + qd s' \<and> (qa s \<noteq> {#} \<longrightarrow> ps \<noteq> []) \<and> (qd s \<noteq> {#} \<longrightarrow> ks \<noteq> [])"
proof -
  obtain ps s1 where a: "add_dequeue_bulk Q BATCH_SIZE s = (ps, s1)" by (cases "add_dequeue_bulk Q BATCH_SIZE s")
  obtain ks s2 where d: "del_dequeue_bulk Q BATCH_SIZE s1 = (ks, s2)" by (cases "del_dequeue_bulk Q BATCH_SIZE s1")
  note q = add_deq [OF a] del_deq [OF d]
  have B: "0 < BATCH_SIZE" by (simp add: BATCH_SIZE_def)
  obtain arr where arr: "store_run (add_pairs ec) (remain_add_size ec) ps = Some arr" "length arr = length (add_pairs ec)"
      "take (remain_add_size ec + length ps) arr = take (remain_add_size ec) (add_pairs ec) @ ps"
    using store_run_in [of "remain_add_size ec" ps "add_pairs ec"] assms q by (auto simp: ec_ok_def ec_simps)
  obtain arr' where arr': "store_run (del_keys ec) (remain_del_size ec) ks = Some arr'" "length arr' = length (del_keys ec)"
      "take (remain_del_size ec + length ks) arr' = take (remain_del_size ec) (del_keys ec) @ ks"
    using store_run_in [of "remain_del_size ec" ks "del_keys ec"] assms q by (auto simp: ec_ok_def ec_simps)
  let ?ec = "ec\<lparr>add_pairs := arr, del_keys := arr', remain_add_size := remain_add_size ec + length ps,
      remain_del_size := remain_del_size ec + length ks\<rparr>"
  have "refill Q ec s = (Ret ?ec, s2)"
    using a d arr(1) arr'(1) assms by (simp add: refill_def ec_ok_def arrays_hold_def)
  moreover have "arrays_hold (THRESHOLD + BATCH_SIZE) ?ec" "pending_adds ?ec = pending_adds ec @ ps" "pending_dels ?ec = pending_dels ec @ ks"
    using arr arr' assms q by (simp_all add: ec_ok_def arrays_hold_def pending_adds_def pending_dels_def)
  moreover have "qa s = mset ps + qa s2" "qd s = mset ks + qd s2" "qa s \<noteq> {#} \<longrightarrow> ps \<noteq> []" "qd s \<noteq> {#} \<longrightarrow> ks \<noteq> []"
    using q B by metis+
  ultimately show ?thesis by blast
qed

lemma tick:
  assumes "ec_ok ec" "length buf = 1514"
  shows "\<exists>b buf' n ec' s'. get_offloaded_entries Q pad pad' buf ec s = (Ret ((buf', n), ec'), s') \<and> tick_ok qa qd ec s b buf' n ec' s'"
proof -
  obtain ec1 s1 ps ks where r: "refill Q ec s = (Ret ec1, s1)" and h: "arrays_hold (THRESHOLD + BATCH_SIZE) ec1"
    and pend: "pending_adds ec1 = pending_adds ec @ ps" "pending_dels ec1 = pending_dels ec @ ks"
    and q: "qa s = mset ps + qa s1" "qd s = mset ks + qd s1" "qa s \<noteq> {#} \<longrightarrow> ps \<noteq> []" "qd s \<noteq> {#} \<longrightarrow> ks \<noteq> []"
    using refill_ok [OF assms(1)] by blast
  have len: "length (pending_adds ec1) = remain_add_size ec1" "length (pending_dels ec1) = remain_del_size ec1"
    using length_pending [OF h] by (simp_all add: THRESHOLD_def BATCH_SIZE_def)
  have un: "unsent_adds qa ec s = mset (pending_adds ec1) + qa s1" "unsent_dels qd ec s = mset (pending_dels ec1) + qd s1"
    using q pend by (simp_all add: unsent_adds_def unsent_dels_def)
  show ?thesis
  proof (cases "remain_add_size ec1 = 0 \<and> remain_del_size ec1 = 0")
    case True
    then have e: "pending_adds ec1 = []" "pending_dels ec1 = []" using len by auto
    have "qa s = {#}" "qd s = {#}" using q(3,4) pend e by auto
    then have z: "qa s1 = {#}" "qd s1 = {#}" using q(1,2) by simp_all
    have "get_offloaded_entries Q pad pad' buf ec s = (Ret ((buf, 0), ec1), s1)"
      using r True by (simp add: get_offloaded_entries_def seq_def ret_def)
    moreover have "tick_ok qa qd ec s ([], []) buf 0 ec1 s1"
      using h True assms(2) un e z by (simp add: tick_ok_def ec_ok_def arrays_hold_def unsent_adds_def unsent_dels_def)
    ultimately show ?thesis by blast
  next
    case False
    obtain ec2 where w: "write_batch pad pad' buf ec1 = Some ((patch buf 0 (batch_bytes (batch_of pad pad' (next_batch ec1))),
        length (batch_bytes (batch_of pad pad' (next_batch ec1)))), ec2)" and af: "after_batch ec1 ec2"
      using write_batch_ok [OF h assms(2)] by blast
    let ?m = "batch_bytes (batch_of pad pad' (next_batch ec1))"
    have m: "length ?m \<le> length buf" "?m \<noteq> []"
      using batch_bytes_length [OF batch_of_ok [OF next_batch_length, of pad pad' ec1]] next_batch_length [of ec1] assms(2)
      by (auto simp: batch_of_def BATCH_SIZE_def batch_bytes_def)
    have "next_batch ec1 \<noteq> ([], [])" using False len by (auto simp: next_batch_def BATCH_SIZE_def)
    moreover have "carries (take (length ?m) (patch buf 0 ?m)) (next_batch ec1)"
      by (auto simp: carries_def patch_def)
    moreover have "mset (pending_adds ec1) = mset (fst (next_batch ec1)) + mset (pending_adds ec2)"
        "mset (pending_dels ec1) = mset (snd (next_batch ec1)) + mset (pending_dels ec2)"
      using af by (simp_all add: after_batch_def next_batch_def flip: mset_append)
    ultimately have "tick_ok qa qd ec s (next_batch ec1) (patch buf 0 ?m) (length ?m) ec2 s1"
      using m af un assms(2) next_batch_length [of ec1]
      by (auto simp: tick_ok_def after_batch_def unsent_adds_def unsent_dels_def)
    moreover have "get_offloaded_entries Q pad pad' buf ec s = (Ret ((patch buf 0 ?m, length ?m), ec2), s1)"
      using r w False by (auto simp: get_offloaded_entries_def seq_def ret_def)
    ultimately show ?thesis by blast
  qed
qed

end

section \<open>The timer\<close>

text \<open>
  The timer of \<open>main\<close> calls \<open>get_offloaded_entries\<close> every 100 microseconds and sends a message that is not
  empty: \<open>n\<close> such ticks with nothing enqueued in between, and the messages they send.
\<close>

fun offload_ticks ::
  "'s offload_queues \<Rightarrow> (nat \<Rightarrow> nat \<Rightarrow> nat \<Rightarrow> u8) \<Rightarrow> nat \<Rightarrow> bytes list \<Rightarrow> bytes \<Rightarrow> entry_controller \<Rightarrow>
   (bytes list \<times> bytes \<times> entry_controller, 's) prog" where
  "offload_ticks Q pad 0 sent buf ec = ret (sent, buf, ec)"
| "offload_ticks Q pad (Suc n) sent buf ec =
     seq (get_offloaded_entries Q (pad n) (pad n) buf ec) (\<lambda>((buf, send_size), ec).
     offload_ticks Q pad n (if send_size = 0 then sent else sent @ [take send_size buf]) buf ec)"

definition unsent :: "('s \<Rightarrow> my_pair multiset) \<Rightarrow> ('s \<Rightarrow> my_key multiset) \<Rightarrow> entry_controller \<Rightarrow> 's \<Rightarrow> nat" where
  "unsent qa qd ec s = size (unsent_adds qa ec s) + size (unsent_dels qd ec s)"

lemma tick_ok_unsent:
  "tick_ok qa qd ec s b buf n ec' s' \<Longrightarrow> unsent qa qd ec s = length (fst b) + length (snd b) + unsent qa qd ec' s'"
  by (simp add: tick_ok_def unsent_def)

lemma tick_ok_progress:
  assumes "tick_ok qa qd ec s b buf n ec' s'"
  shows "unsent qa qd ec' s' = 0 \<or> unsent qa qd ec' s' < unsent qa qd ec s"
proof (cases "n = 0")
  case False
  then have "b \<noteq> ([], [])" using assms by (simp add: tick_ok_def)
  then have "0 < length (fst b) + length (snd b)" by (cases b) auto
  then show ?thesis using tick_ok_unsent [OF assms] by simp
qed (use assms in \<open>simp add: tick_ok_def unsent_def\<close>)

context offload_source begin

lemma ticks:
  assumes "ec_ok ec" "length buf = 1514"
  shows "\<exists>bs ms buf' ec' s'. offload_ticks Q pad n sent buf ec s = (Ret (sent @ ms, buf', ec'), s') \<and> ec_ok ec' \<and>
    list_all2 carries ms bs \<and>
    unsent_adds qa ec s = mset (concat (map fst bs)) + unsent_adds qa ec' s' \<and>
    unsent_dels qd ec s = mset (concat (map snd bs)) + unsent_dels qd ec' s' \<and>
    (unsent qa qd ec' s' = 0 \<or> unsent qa qd ec' s' + n \<le> unsent qa qd ec s)"
  using assms
proof (induction n arbitrary: sent buf ec s)
  case 0
  then show ?case by (intro exI [of _ "[] :: (my_pair list \<times> my_key list) list"] exI [of _ "[] :: bytes list"]) (simp add: ret_def)
next
  case (Suc n)
  obtain b buf1 k ec1 s1 where t: "get_offloaded_entries Q (pad n) (pad n) buf ec s = (Ret ((buf1, k), ec1), s1)"
    and ok: "tick_ok qa qd ec s b buf1 k ec1 s1"
    using tick [OF Suc.prems] by blast
  let ?ms = "if k = 0 then [] else [take k buf1]" and ?bs = "if k = 0 then [] else [b]"
  obtain bs ms buf' ec' s' where r: "offload_ticks Q pad n (sent @ ?ms) buf1 ec1 s1 = (Ret ((sent @ ?ms) @ ms, buf', ec'), s')" "ec_ok ec'"
      "list_all2 carries ms bs" "unsent_adds qa ec1 s1 = mset (concat (map fst bs)) + unsent_adds qa ec' s'"
      "unsent_dels qd ec1 s1 = mset (concat (map snd bs)) + unsent_dels qd ec' s'"
      "unsent qa qd ec' s' = 0 \<or> unsent qa qd ec' s' + n \<le> unsent qa qd ec1 s1"
    using Suc.IH [of ec1 buf1 "sent @ ?ms" s1] ok unfolding tick_ok_def by blast
  have "offload_ticks Q pad (Suc n) sent buf ec s = (Ret (sent @ (?ms @ ms), buf', ec'), s')"
    using t r(1) by (simp add: seq_def split: if_splits)
  moreover have "list_all2 carries (?ms @ ms) (?bs @ bs)" "mset (fst b) = mset (concat (map fst ?bs))" "mset (snd b) = mset (concat (map snd ?bs))"
    using r(3) ok by (auto simp: tick_ok_def)
  moreover have "unsent qa qd ec' s' = 0 \<or> unsent qa qd ec' s' + Suc n \<le> unsent qa qd ec s"
    using r(6) tick_ok_progress [OF ok] r(4,5) by (auto simp: unsent_def)
  ultimately show ?case
    using r(2,4,5) ok unfolding tick_ok_def
    by (intro exI [of _ "?bs @ bs"] exI [of _ "?ms @ ms"] exI [of _ buf'] exI [of _ ec'] exI [of _ s']) (simp add: ac_simps)
qed

end

section \<open>A queue that meets the contract\<close>

definition ref_queues :: "(my_pair list \<times> my_key list) offload_queues" where
  "ref_queues = \<lparr>add_dequeue_bulk = (\<lambda>n (ps, ks). (take n ps, (drop n ps, ks))), del_dequeue_bulk = (\<lambda>n (ps, ks). (take n ks, (ps, drop n ks)))\<rparr>"

interpretation ref_q: offload_source ref_queues "\<lambda>s. mset (fst s)" "\<lambda>s. mset (snd s)"
  by unfold_locales (auto simp: ref_queues_def simp flip: mset_append)

section \<open>Properties\<close>

text \<open>
  (C18) A call of \<open>get_offloaded_entries\<close> never leaves its arrays, the send buffer or the message limit: it
  returns, holds back at most 20 elements of each kind again, loses and duplicates nothing, writes a
  message of at most 1123 bytes that carries what it took, and writes none only when nothing is left.
\<close>

theorem offload_tick_safe:
  assumes "offload_source Q qa qd" "ec_ok ec" "length buf = 1514"
  shows "\<exists>b buf' n ec' s'. get_offloaded_entries Q pad pad' buf ec s = (Ret ((buf', n), ec'), s') \<and>
    tick_ok qa qd ec s b buf' n ec' s' \<and> n \<le> 1123"
proof -
  obtain b buf' n ec' s' where t: "get_offloaded_entries Q pad pad' buf ec s = (Ret ((buf', n), ec'), s')" "tick_ok qa qd ec s b buf' n ec' s'"
    using offload_source.tick [OF assms] by blast
  have "n \<le> 1123"
  proof (cases "n = 0")
    case False
    then have "length (take n buf') = n" "carries (take n buf') b" "length (fst b) \<le> 40" "length (snd b) \<le> 40"
      using t(2) by (simp_all add: tick_ok_def BATCH_SIZE_def)
    then show ?thesis using carries_length [of "take n buf'" b] by (simp add: BATCH_SIZE_def)
  qed simp
  then show ?thesis using t by blast
qed

text \<open>
  (C16) Everything that was enqueued is sent: after as many ticks as there are elements in the queues and
  arrays, all of them have been written into messages, each exactly once, and nothing is left.
\<close>

theorem offload_drains:
  assumes "offload_source Q qa qd" "ec_ok ec" "length buf = 1514" "unsent qa qd ec s \<le> n"
  shows "\<exists>bs ms buf' ec' s'. offload_ticks Q pad n [] buf ec s = (Ret (ms, buf', ec'), s') \<and> list_all2 carries ms bs \<and>
    mset (concat (map fst bs)) = unsent_adds qa ec s \<and> mset (concat (map snd bs)) = unsent_dels qd ec s \<and>
    unsent qa qd ec' s' = 0"
proof -
  obtain bs ms buf' ec' s' where r: "offload_ticks Q pad n [] buf ec s = (Ret ([] @ ms, buf', ec'), s')" "list_all2 carries ms bs"
      "unsent_adds qa ec s = mset (concat (map fst bs)) + unsent_adds qa ec' s'"
      "unsent_dels qd ec s = mset (concat (map snd bs)) + unsent_dels qd ec' s'"
      "unsent qa qd ec' s' = 0 \<or> unsent qa qd ec' s' + n \<le> unsent qa qd ec s"
    using offload_source.ticks [OF assms(1-3)] by blast
  then have z: "unsent qa qd ec' s' = 0" using assms(4) by auto
  then have "unsent_adds qa ec' s' = {#}" "unsent_dels qd ec' s' = {#}" by (simp_all add: unsent_def)
  then show ?thesis using r z by (intro exI [of _ bs] exI [of _ ms] exI [of _ buf'] exI [of _ ec'] exI [of _ s']) simp
qed

lemma tick_at_switch:
  assumes "offload_source Q qa qd" "ec_ok ec" "length sbuf = 1514"
    and tick: "get_offloaded_entries Q pad pad' sbuf ec q = (Ret ((sbuf', n), ec'), q')" "0 < n" "n < 1024"
    and "bf_rt_sized D view room" "oft_ready i (view s1)" "sys_recv S fd 1024 s = (Some (take n sbuf'), s1)"
    and "fst (bf_rt_begin_batch D ses s1) = Some ()" "length rbuf = 1024" "idx + 80 \<le> 256" "rbuf ! n \<noteq> 3"
  shows "\<exists>b rbuf' idx' s'. tick_ok qa qd ec q b sbuf' n ec' q' \<and>
    handle_recv D S ses tgt i fd (rbuf, idx) s = (Ret (rbuf', idx'), s') \<and> oft_step view room i (ops_of b) s1 s'"
proof -
  obtain b where ok: "tick_ok qa qd ec q b sbuf' n ec' q'"
    using offload_source.tick [OF assms(1-3), of pad pad' q] tick(1) by auto
  then have len: "length (take n sbuf') = n" "length (fst b) \<le> BATCH_SIZE" "length (snd b) \<le> BATCH_SIZE"
    using tick(2) by (simp_all add: tick_ok_def)
  obtain pad1 pad2 where m: "take n sbuf' = batch_bytes (batch_of pad1 pad2 b)"
    using ok tick(2) by (auto simp: tick_ok_def carries_def)
  have "\<exists>s'. handle_recv D S ses tgt i fd (rbuf, idx) s =
      (Ret (patch rbuf 0 (take n sbuf'), idx + sum_list (map batch_size [batch_of pad1 pad2 b])), s') \<and>
      oft_step view room i (concat (map batch_ops [batch_of pad1 pad2 b])) s1 s'"
  proof (rule bf_rt_sized.recv_stops [OF assms(7-10)])
    show "take n sbuf' = concat (map batch_bytes [batch_of pad1 pad2 b])" using m by simp
    show "\<forall>b \<in> set [batch_of pad1 pad2 b]. batch_ok b" using batch_of_ok [OF len(2,3)] by simp
    show "idx + sum_list (map batch_size [batch_of pad1 pad2 b]) \<le> 256"
      using len assms(12) by (simp add: batch_of_size BATCH_SIZE_def)
  qed (use len tick(3) assms(11,13) in simp_all)
  then obtain s' where "handle_recv D S ses tgt i fd (rbuf, idx) s =
      (Ret (patch rbuf 0 (take n sbuf'), idx + sum_list (map batch_size [batch_of pad1 pad2 b])), s')" "oft_step view room i (ops_of b) s1 s'"
    by (auto simp: batch_of_ops)
  then show ?thesis using ok by blast
qed

text \<open>
  (C7) From the queues of the front end to the table of the switch.  A tick has written a message of fewer than
  1024 bytes, and the controller of the switch receives it in one piece; the batch is opened, there are
  80 slots left in this round, and the byte behind the message in its buffer is not an opcode left over from an
  earlier \<open>recv\<close>.  Then the controller performs exactly the additions and then the deletions that the tick took from
  the queues, in order, and changes no other table.  An addition may be refused only for want of room; if all
  of them fit, the offload table is exactly the one that these operations ask for.
\<close>

theorem offload_tick_reaches_switch:
  assumes "offload_source Q qa qd" "ec_ok ec" "length sbuf = 1514"
    and tick: "get_offloaded_entries Q pad pad' sbuf ec q = (Ret ((sbuf', n), ec'), q')" "0 < n" "n < 1024"
    and "bf_rt_sized D view room" "oft_ready i (view s1)" "sys_recv S fd 1024 s = (Some (take n sbuf'), s1)"
    and "fst (bf_rt_begin_batch D ses s1) = Some ()" "length rbuf = 1024" "idx + 80 \<le> 256" "rbuf ! n \<noteq> 3"
    and "T = d_table (view s1) (oft_table_hdl i)"
  shows "\<exists>b rbuf' idx' s'. tick_ok qa qd ec q b sbuf' n ec' q' \<and>
    handle_recv D S ses tgt i fd (rbuf, idx) s = (Ret (rbuf', idx'), s') \<and> oft_step view room i (ops_of b) s1 s' \<and>
    (fits room i (ops_of b) T \<longrightarrow> d_table (view s') = (d_table (view s1))(oft_table_hdl i := ops_apply i b T))"
proof -
  obtain b rbuf' idx' s' where b: "tick_ok qa qd ec q b sbuf' n ec' q'"
      "handle_recv D S ses tgt i fd (rbuf, idx) s = (Ret (rbuf', idx'), s')" "oft_step view room i (ops_of b) s1 s'"
    using tick_at_switch [OF assms(1-13)] by blast
  have "fits room i (ops_of b) T \<longrightarrow> d_table (view s') = (d_table (view s1))(oft_table_hdl i := ops_apply i b T)"
    using oft_step_fits [OF b(3)] by (simp add: assms(14) ops_of_apply)
  then show ?thesis using b by blast
qed

text \<open>
  The controller's receive buffer has 1024 bytes, so a message with more than 1024 arrives cut off, and
  the loop over the deletions runs past the end of the buffer.
\<close>

lemma del_entries_past_end:
  "off \<le> length buf + 2 \<Longrightarrow> length buf + 2 < off + 12 * k \<Longrightarrow>
   fst (del_entries D ses tgt i buf k (n, off) s) = Crash"
proof (induction k arbitrary: n off s)
  case (Suc k)
  show ?case
  proof (cases "read_key buf off")
    case (Some key)
    then have "off + 10 \<le> length buf" by (auto simp: read_key_def ld16_def split: if_splits Option.bind_splits)
    obtain r s1 where d: "del_entry_op D ses tgt i n key s = (r, s1)" by fastforce
    have "fst (del_entries D ses tgt i buf k (n + 1, off + 12) s1) = Crash" using Suc.prems \<open>off + 10 \<le> length buf\<close> by (intro Suc.IH) auto
    then show ?thesis using Some d del_entry_op_cases [of D ses tgt i n key s] by (auto simp: seq_def sizeof_my_key_def)
  qed (simp add: crash_def)
qed simp

lemma add_entries_outcome: "fst (add_entries D ses tgt i buf k (n, off) s) = Crash \<or> (\<exists>x. fst (add_entries D ses tgt i buf k (n, off) s) = Ret x)"
proof (induction k arbitrary: n off s)
  case (Suc k)
  show ?case
  proof (cases "read_pair buf off")
    case (Some p)
    obtain r s1 where "add_entry D ses tgt i n p s = (r, s1)" by fastforce
    then show ?thesis
      using Some Suc.IH [of "n + 1" "off + sizeof_my_pair" s1] add_entry_cases [of D ses tgt i n p s] by (auto simp: seq_def)
  qed (simp add: crash_def)
qed (simp add: ret_def)

lemma handle_message_cut:
  assumes m: "carries m b" "length (fst b) \<le> BATCH_SIZE" "length (snd b) \<le> BATCH_SIZE" "1026 < length m" and n: "n + 80 \<le> 256"
  shows "ld8 (take 1024 m) 0 = Some 3" "fst (handle_message D ses tgt i (take 1024 m) (n, 0) s) = Crash"
proof -
  let ?a = "length (fst b)" and ?d = "length (snd b)" and ?buf = "take 1024 m"
  have L: "length m = 3 + 16 * ?a + 12 * ?d" and le: "?a \<le> 40" "?d \<le> 40" using carries_length [OF m(1-3)] m by (simp_all add: BATCH_SIZE_def)
  have hd: "m ! 0 = 3" "m ! 1 = word_of_nat ?a" "m ! 2 = word_of_nat ?d"
    using m(1) by (auto simp: carries_def batch_bytes_def batch_of_def)
  show op: "ld8 ?buf 0 = Some 3" using hd L m(4) by (simp add: ld8_def)
  have h: "ld8 ?buf 1 = Some (word_of_nat ?a)" "ld8 ?buf 2 = Some (word_of_nat ?d)"
    using hd L m(4) by (simp_all add: ld8_def)
  have u: "unat (word_of_nat ?a :: u8) = ?a" "unat (word_of_nat ?d :: u8) = ?d"
    using le by (intro unat_word_of_nat_small; simp)+
  obtain r s1 where s1: "add_entries D ses tgt i ?buf ?a (n, 3) s = (r, s1)" by fastforce
  have "r = Crash \<or> (\<exists>x. r = Ret x)" using add_entries_outcome [of D ses tgt i ?buf ?a n 3 s] s1 by simp
  then consider "r = Crash" | n' where "r = Ret (n', 3 + 16 * ?a)"
  proof (elim disjE exE)
    fix x assume "r = Ret x"
    moreover obtain n' o' where "x = (n', o')" by (cases x)
    moreover have "o' = 3 + 16 * ?a" using calculation s1 by (blast intro: add_entries_off)
    ultimately show thesis using that by blast
  qed
  then show "fst (handle_message D ses tgt i ?buf (n, 0) s) = Crash"
  proof cases
    case 2
    have "fst (del_entries D ses tgt i ?buf ?d (n', 3 + 16 * ?a) s1) = Crash"
      using L m(4) le by (intro del_entries_past_end) auto
    then show ?thesis using h u s1 2 by (simp add: handle_message_def seq_def numeral_2_eq_2)
  qed (use h u s1 in \<open>simp add: handle_message_def seq_def numeral_2_eq_2\<close>)
qed

text \<open>
  (C32) A tick may write up to 1123 bytes but the controller of the switch receives at most 1024 at a time:
  a message of more than 1026 bytes, which arrives cut off, makes it read past the end of its receive buffer.
\<close>

theorem long_offload_message_crashes:
  assumes "carries m b" "length (fst b) \<le> BATCH_SIZE" "length (snd b) \<le> BATCH_SIZE" "1026 < length m"
    and "sys_recv S fd 1024 s = (Some (take 1024 m), s1)" "fst (bf_rt_begin_batch D ses s1) = Some ()"
    and "length rbuf = 1024" "idx + 80 \<le> 256"
  shows "fst (handle_recv D S ses tgt i fd (rbuf, idx) s) = Crash"
proof -
  have st: "stn rbuf 0 (take 1024 m) = Some (take 1024 m)" "length (take 1024 m) = 1024" "take 1024 m \<noteq> []"
    using assms(4,7) by (auto simp: stn_def patch_def)
  obtain s2 where b: "bf_rt_begin_batch D ses s1 = (Some (), s2)" using assms(6) by (cases "bf_rt_begin_batch D ses s1") auto
  have "fst (handle_messages (Suc f) D ses tgt i (take 1024 m) 1024 (idx, 0) s2) = Crash" for f
    using handle_message_cut(1) [OF assms(1-4,8)] handle_message_cut(2) [OF assms(1-4,8), of D ses tgt i s2]
    by (auto simp: seq_def split: prod.splits outcome.splits)
  from this [of 1024] show ?thesis
    using assms(5) st b by (auto simp: handle_recv_def check_def seq_def split: prod.splits outcome.splits)
qed

section \<open>Concrete runs\<close>

definition ex_pair :: my_pair where
  "ex_pair = \<lparr>mp_key = \<lparr>mk_crc = 77, mk_client_ip = 0x0A000164, mk_client_port = 1234\<rparr>, mp_data = \<lparr>md_offload_flag = 1, md_d_index = 5\<rparr>\<rparr>"

definition ex_ec :: entry_controller where
  "ex_ec = entry_controller_new (\<lambda>i. ex_pair) (\<lambda>i. mp_key ex_pair)"

definition ex_pad :: "nat \<Rightarrow> nat \<Rightarrow> u8" where
  "ex_pad i j = 0"

lemma ex_ec_ok: "ec_ok ex_ec" "pending_adds ex_ec = []" "pending_dels ex_ec = []"
  unfolding ex_ec_def by (rule entry_controller_new_ok)+

text \<open>With 41 additions queued, the first message carries 40 of them, and a second tick the last one.\<close>

theorem offload_tick_safe_witness:
  "\<exists>b buf n ec s. get_offloaded_entries ref_queues ex_pad ex_pad (replicate 1514 0) ex_ec (replicate 41 ex_pair, []) = (Ret ((buf, n), ec), s) \<and>
     0 < n \<and> carries (take n buf) b \<and> mset (fst b) + unsent_adds (\<lambda>s. mset (fst s)) ec s = replicate_mset 41 ex_pair"
proof -
  obtain b buf n ec s where
    t: "get_offloaded_entries ref_queues ex_pad ex_pad (replicate 1514 0) ex_ec (replicate 41 ex_pair, []) = (Ret ((buf, n), ec), s)"
    and ok: "tick_ok (\<lambda>s. mset (fst s)) (\<lambda>s. mset (snd s)) ex_ec (replicate 41 ex_pair, []) b buf n ec s"
    using offload_tick_safe [OF ref_q.offload_source_axioms ex_ec_ok(1), of "replicate 1514 0" ex_pad ex_pad "(replicate 41 ex_pair, [])"]
    by auto
  have u: "unsent_adds (\<lambda>s. mset (fst s)) ex_ec (replicate 41 ex_pair, [] :: my_key list) = replicate_mset 41 ex_pair"
    by (simp add: unsent_adds_def ex_ec_ok)
  have "n \<noteq> 0"
  proof
    assume "n = 0"
    then have "unsent_adds (\<lambda>s. mset (fst s)) ex_ec (replicate 41 ex_pair, [] :: my_key list) = {#}"
      using ok by (auto simp: tick_ok_def)
    then show False using u by simp
  qed
  then show ?thesis using t ok u by (intro exI [of _ b] exI [of _ buf] exI [of _ n] exI [of _ ec] exI [of _ s]) (simp add: tick_ok_def)
qed

theorem offload_drains_witness:
  "\<exists>bs ms buf ec s. offload_ticks ref_queues (\<lambda>n. ex_pad) 42 [] (replicate 1514 0) ex_ec (replicate 41 ex_pair, [mp_key ex_pair]) = (Ret (ms, buf, ec), s) \<and>
     list_all2 carries ms bs \<and> mset (concat (map fst bs)) = replicate_mset 41 ex_pair \<and> mset (concat (map snd bs)) = {#mp_key ex_pair#}"
  using offload_drains [OF ref_q.offload_source_axioms ex_ec_ok(1), of "replicate 1514 0" "(replicate 41 ex_pair, [mp_key ex_pair])" 42 "\<lambda>n. ex_pad"]
  by (auto simp: unsent_def unsent_adds_def unsent_dels_def ex_ec_ok)

text \<open>One addition goes all the way from the queue into the offload table of the reference driver.\<close>

lemma ex_tick:
  "\<exists>ec'. get_offloaded_entries ref_queues ex_pad ex_pad (replicate 1514 0) ex_ec ([p], []) =
    (Ret ((patch (replicate 1514 0) 0 (batch_bytes (batch_of ex_pad ex_pad ([p], []))), 19), ec'), ([], []))"
proof -
  obtain ec1 where r: "refill ref_queues ex_ec ([p], []) = (Ret ec1, ([], []))"
    and h: "arrays_hold (THRESHOLD + BATCH_SIZE) ec1" "pending_adds ec1 = [p]" "pending_dels ec1 = []"
  proof
    show "refill ref_queues ex_ec ([p], []) = (Ret (ex_ec\<lparr>add_pairs := p # drop 1 (add_pairs ex_ec), remain_add_size := 1\<rparr>), ([], []))"
      by (simp add: refill_def ex_ec_def entry_controller_new_def ref_queues_def store_run_def BATCH_SIZE_def del: upt_rec_numeral)
  qed (simp_all add: ec_simps ex_ec_def entry_controller_new_def del: upt_rec_numeral)
  have nb: "next_batch ec1 = ([p], [])" "remain_add_size ec1 \<noteq> 0"
    using h length_pending(1) [OF h(1)] by (simp_all add: next_batch_def BATCH_SIZE_def THRESHOLD_def)
  have "length (batch_bytes (batch_of ex_pad ex_pad ([p], []))) = 19"
    by (simp add: batch_bytes_def batch_of_def images_def sizeof_my_pair_def)
  then show ?thesis
    using r nb write_batch_ok [OF h(1), of "replicate 1514 0" ex_pad ex_pad]
    by (auto simp: get_offloaded_entries_def seq_def ret_def)
qed

theorem offload_tick_reaches_switch_witness:
  "\<exists>buf n ec' q' rbuf' idx' s'. get_offloaded_entries ref_queues ex_pad ex_pad (replicate 1514 0) ex_ec ([ex_pair], []) = (Ret ((buf, n), ec'), q') \<and>
     handle_recv ref_bf_rt (ex_sys (take n buf)) 0 \<lparr>dev_id = 0, pipe_id = 65535\<rparr> ex_oft_info 5 (replicate 1024 0, 0) rd_init = (Ret (rbuf', idx'), s')"
proof -
  let ?m = "batch_bytes (batch_of ex_pad ex_pad ([ex_pair], []))"
  obtain ec' where t: "get_offloaded_entries ref_queues ex_pad ex_pad (replicate 1514 0) ex_ec ([ex_pair], []) =
      (Ret ((patch (replicate 1514 0) 0 ?m, 19), ec'), ([], []))"
    using ex_tick by blast
  have r: "sys_recv (ex_sys (take 19 (patch (replicate 1514 0) 0 ?m))) 5 1024 rd_init = (Some (take 19 (patch (replicate 1514 0) 0 ?m)), rd_init)"
    and b: "fst (bf_rt_begin_batch ref_bf_rt 0 rd_init) = Some ()"
    by (simp_all add: ex_sys_def ref_bf_rt_def)
  from offload_tick_reaches_switch [OF ref_q.offload_source_axioms ex_ec_ok(1) _ t _ _ ref_rel.bf_rt_sized_axioms ex_oft_ready r b,
      of "replicate 1024 0" 0 _ "\<lparr>dev_id = 0, pipe_id = 65535\<rparr>"]
  show ?thesis using t by auto
qed

text \<open>A full message of 40 additions and 40 deletions has 1123 bytes.\<close>

theorem long_offload_message_crashes_witness:
  "fst (handle_recv ref_bf_rt (ex_sys (take 1024 (batch_bytes (batch_of ex_pad ex_pad (replicate 40 ex_pair, replicate 40 (mp_key ex_pair))))))
     0 \<lparr>dev_id = 0, pipe_id = 65535\<rparr> ex_oft_info 5 (replicate 1024 0, 0) rd_init) = Crash"
proof -
  let ?b = "(replicate 40 ex_pair, replicate 40 (mp_key ex_pair))"
  let ?m = "batch_bytes (batch_of ex_pad ex_pad ?b)"
  have c: "carries ?m ?b" by (auto simp: carries_def)
  have l: "length (fst ?b) \<le> BATCH_SIZE" "length (snd ?b) \<le> BATCH_SIZE" by (simp_all add: BATCH_SIZE_def)
  have L: "1026 < length ?m" using carries_length [OF c l] by simp
  have r: "sys_recv (ex_sys (take 1024 ?m)) 5 1024 rd_init = (Some (take 1024 ?m), rd_init)"
    and b: "fst (bf_rt_begin_batch ref_bf_rt 0 rd_init) = Some ()"
    by (simp_all add: ex_sys_def ref_bf_rt_def)
  show ?thesis by (rule long_offload_message_crashes [OF c l L r b]) simp_all
qed

end
