(* ===== verification/Frontend_Msg.thy ===== *)
theory Frontend_Msg
  imports Entry_Controller
begin

text \<open>
  The event loop of \<open>src/Frontend/main.cpp\<close>, without the start-up: messages from the switch are decoded into
  the rule controller, and the timer sends the offload messages.  The receive buffer has its C size and
  keeps its old contents behind the received bytes; an access outside it is the value \<open>None\<close>.
\<close>

section \<open>Decoding\<close>

text \<open>A C string in the buffer; \<open>strlen\<close> looks for the terminating zero up to the end of the buffer and beyond.\<close>

definition c_str :: "bytes \<Rightarrow> nat \<Rightarrow> bytes option" where
  "c_str buf now_bytes = (if 0 \<in> set (drop now_bytes buf) then Some (takeWhile (\<lambda>b. b \<noteq> 0) (drop now_bytes buf)) else None)"

text \<open>The bodies of the four loops: what is read at \<open>now_bytes\<close>, and where the next element stands.\<close>

definition read_rule :: "bytes \<Rightarrow> nat \<Rightarrow> ((bytes \<times> my_data) \<times> nat) option" where
  "read_rule buf now_bytes = do {
     key \<leftarrow> c_str buf now_bytes;
     let now_bytes = now_bytes + length key + 1;
     d_index \<leftarrow> ld8 buf now_bytes;
     let now_bytes = now_bytes + 1;
     offload_flag \<leftarrow> ld8 buf now_bytes;
     let now_bytes = now_bytes + 1;
     Some ((key, \<lparr>md_offload_flag = offload_flag, md_d_index = d_index\<rparr>), now_bytes)
   }"

definition read_rule_key :: "bytes \<Rightarrow> nat \<Rightarrow> (bytes \<times> nat) option" where
  "read_rule_key buf now_bytes = do {
     key \<leftarrow> c_str buf now_bytes;
     Some (key, now_bytes + length key + 1)
   }"

text \<open>\<open>memcpy\<close> of a \<open>server_info_t\<close>, whose 16 bytes have padding at 6, 7, 14 and 15.\<close>

definition read_server_info :: "bytes \<Rightarrow> nat \<Rightarrow> server_info option" where
  "read_server_info buf now_bytes = do {
     _ \<leftarrow> ldn buf now_bytes 16;
     mac \<leftarrow> ldn buf now_bytes 6;
     ip \<leftarrow> ld32 buf (now_bytes + 8);
     port \<leftarrow> ld16 buf (now_bytes + 12);
     Some (server_info_new mac ip port)
   }"

definition read_d_index :: "bytes \<Rightarrow> nat \<Rightarrow> ((u8 \<times> server_info) \<times> nat) option" where
  "read_d_index buf now_bytes = do {
     index \<leftarrow> ld8 buf now_bytes;
     let now_bytes = now_bytes + 1;
     server_info \<leftarrow> read_server_info buf now_bytes;
     Some ((index, server_info), now_bytes + 16)
   }"

definition read_index :: "bytes \<Rightarrow> nat \<Rightarrow> (u8 \<times> nat) option" where
  "read_index buf now_bytes = do {
     index \<leftarrow> ld8 buf now_bytes;
     Some (index, now_bytes + 1)
   }"

fun read_each ::
  "(bytes \<Rightarrow> nat \<Rightarrow> ('b \<times> nat) option) \<Rightarrow> ('b \<Rightarrow> 's \<Rightarrow> status \<times> 's) \<Rightarrow> nat \<Rightarrow> bytes \<Rightarrow> nat \<times> 's \<Rightarrow> (nat \<times> 's) option" where
  "read_each rd act 0 buf st = Some st"
| "read_each rd act (Suc n) buf (now_bytes, s) = do {
     (x, now_bytes) \<leftarrow> rd buf now_bytes;
     read_each rd act n buf (now_bytes, snd (act x s))
   }"

definition update_rule :: "bytes \<Rightarrow> rule_controller \<Rightarrow> rule_controller option" where
  "update_rule buf rc = do {
     add_size \<leftarrow> ld8 buf 1;
     del_size \<leftarrow> ld8 buf 2;
     st \<leftarrow> read_each read_rule (\<lambda>(key, data). add_balancing_rule key data) (unat add_size) buf (3, rc);
     (_, rc) \<leftarrow> read_each read_rule_key del_balancing_rule (unat del_size) buf st;
     Some rc
   }"

definition update_d_index :: "bytes \<Rightarrow> rule_controller \<Rightarrow> rule_controller option" where
  "update_d_index buf rc = do {
     add_size \<leftarrow> ld8 buf 1;
     del_size \<leftarrow> ld8 buf 2;
     st \<leftarrow> read_each read_d_index (\<lambda>(index, server_info). add_d_index_rule index server_info) (unat add_size) buf (3, rc);
     (_, rc) \<leftarrow> read_each read_index del_d_index_rule (unat del_size) buf st;
     Some rc
   }"

text \<open>One message is handled per \<open>recv\<close>; an unknown operation is reported and skipped.\<close>

definition handle_switch_message :: "bytes \<Rightarrow> rule_controller \<Rightarrow> rule_controller option" where
  "handle_switch_message buf rc = do {
     op \<leftarrow> ld8 buf 0;
     if op = op_code UPDATE_RULE then update_rule buf rc
     else if op = op_code UPDATE_V_INFO then
       do { v \<leftarrow> read_server_info buf 1; Some (snd (update_virtual_server_info v rc)) }
     else if op = op_code UPDATE_D_INDEX then update_d_index buf rc
     else Some rc
   }"

section \<open>Events\<close>

definition ETH_FRAME_LEN :: nat where "ETH_FRAME_LEN = 1514"

record frontend =
  fe_recv_buffer :: bytes
  fe_send_buffer :: bytes
  fe_rules :: rule_controller
  fe_entries :: entry_controller

text \<open>The received bytes go to the start of the receive buffer.\<close>

definition receive :: "bytes \<Rightarrow> frontend \<Rightarrow> frontend option" where
  "receive data f = do {
     buf \<leftarrow> stn (fe_recv_buffer f) 0 data;
     rc \<leftarrow> handle_switch_message buf (fe_rules f);
     Some (f\<lparr>fe_recv_buffer := buf, fe_rules := rc\<rparr>)
   }"

definition handle_switch_event :: "'s sys \<Rightarrow> hdl \<Rightarrow> frontend \<Rightarrow> (frontend, 's) prog" where
  "handle_switch_event S switch_fd f =
     check ''recv'' (sys_recv S switch_fd ETH_FRAME_LEN) (\<lambda>data.
     if data = [] then exit ''Connection closed by switch''
     else (case receive data f of None \<Rightarrow> crash | Some f \<Rightarrow> ret f))"

section \<open>The contract of a reader\<close>

text \<open>
  The dual of \<open>record_writer\<close>: where the encoding of a record stands in the buffer, the reader returns its
  value and the position behind it.  \<open>ok\<close> says which records have an encoding that can be read back.
\<close>

locale record_reader =
  fixes rd :: "bytes \<Rightarrow> nat \<Rightarrow> ('b \<times> nat) option" and enc :: "'a \<Rightarrow> bytes" and val :: "'a \<Rightarrow> 'b" and ok :: "'a \<Rightarrow> bool"
  assumes reads: "ok x \<Longrightarrow> stands_at buf off (enc x) \<Longrightarrow> rd buf off = Some (val x, off + length (enc x))"
begin

lemma read_each_at:
  "\<forall>x \<in> set xs. ok x \<Longrightarrow> stands_at buf off (concat (map enc xs)) \<Longrightarrow>
   read_each rd act (length xs) buf (off, s) = Some (off + length (concat (map enc xs)), fold (\<lambda>x s. snd (act x s)) (map val xs) s)"
  by (induction xs arbitrary: off s) (auto simp: reads add.assoc)

end

lemma stands_at_drop: "stands_at buf off bs \<Longrightarrow> \<exists>rest. drop off buf = bs @ rest"
proof -
  assume st: "stands_at buf off bs"
  have "take (length bs) (drop off buf) = bs"
    using st by (intro nth_equalityI) (auto simp: stands_at_iff)
  then show ?thesis by (metis append_take_drop_id)
qed

lemma c_str_at:
  assumes "0 \<notin> set k" "stands_at buf off (k @ [0])"
  shows "c_str buf off = Some k"
proof -
  obtain r where r: "drop off buf = (k @ [0]) @ r" using stands_at_drop [OF assms(2)] by blast
  have "takeWhile (\<lambda>b. b \<noteq> 0) (k @ 0 # r) = k" using assms(1) by (induction k) auto
  then show ?thesis using r by (simp add: c_str_def)
qed

lemma read_server_info_at:
  assumes "stands_at buf off (server_info_bytes v)" "length (si_mac v) = 6"
  shows "read_server_info buf off = Some v"
proof -
  have st: "stands_at buf off (si_mac v)" "stands_at buf (off + 8) (bytes32 (si_ip v))" "stands_at buf (off + 12) (bytes16 (si_port v))"
    and len: "off + 16 \<le> length buf"
    using assms by (simp_all add: server_info_bytes_def ac_simps)
  obtain r where "drop off buf = si_mac v @ r" using stands_at_drop [OF st(1)] by blast
  then have "ldn buf off 6 = Some (si_mac v)" using len assms(2) by (simp add: ldn_in)
  moreover have "ld32 buf (off + 8) = Some (si_ip v)" "ld16 buf (off + 12) = Some (si_port v)"
    using st len by (simp_all add: ld32_in ld16_in bytes32_def bytes16_def)
  ultimately show ?thesis using len by (simp add: read_server_info_def ldn_in server_info_new_def)
qed

text \<open>What a rule and a server of the switch's tables mean to the front end.\<close>

definition rule_binding :: "rule \<Rightarrow> bytes \<times> my_data" where
  "rule_binding r = (r_rule r, \<lparr>md_offload_flag = r_offload_flag r, md_d_index = r_d_index r\<rparr>)"

definition d_index_binding :: "d_index_entry \<Rightarrow> u8 \<times> server_info" where
  "d_index_binding d = (di_d_index d, di_server_info d)"

interpretation rule_rd: record_reader read_rule rule_bytes rule_binding "\<lambda>r. 0 \<notin> set (r_rule r)"
proof
  fix r buf off assume ok: "0 \<notin> set (r_rule r)" and st: "stands_at buf off (rule_bytes r)"
  have "c_str buf off = Some (r_rule r)" using st by (intro c_str_at [OF ok]) (simp add: rule_bytes_def)
  then show "read_rule buf off = Some (rule_binding r, off + length (rule_bytes r))"
    using st by (simp add: read_rule_def rule_bytes_def rule_binding_def ld8_def)
qed

interpretation rule_key_rd: record_reader read_rule_key "\<lambda>k. k @ [0]" id "\<lambda>k. 0 \<notin> set k"
  by unfold_locales (simp add: read_rule_key_def c_str_at)

interpretation d_index_rd: record_reader read_d_index d_index_bytes d_index_binding "\<lambda>d. length (si_mac (di_server_info d)) = 6"
proof
  fix d buf off assume ok: "length (si_mac (di_server_info d)) = 6" and st: "stands_at buf off (d_index_bytes d)"
  have "read_server_info buf (off + 1) = Some (di_server_info d)" using st ok by (intro read_server_info_at) (simp_all add: d_index_bytes_def)
  then show "read_d_index buf off = Some (d_index_binding d, off + length (d_index_bytes d))"
    using st ok by (simp add: read_d_index_def d_index_bytes_def d_index_binding_def ld8_def server_info_bytes_def)
qed

interpretation index_rd: record_reader read_index "\<lambda>i. [i]" id "\<lambda>i. True"
  by unfold_locales (simp add: read_index_def ld8_def)

section \<open>Updates\<close>

text \<open>The update messages, with the keys to delete behind the records to add.\<close>

definition update_rule_bytes :: "rule list \<Rightarrow> bytes list \<Rightarrow> bytes" where
  "update_rule_bytes rs ks = [op_code UPDATE_RULE, word_of_nat (length rs), word_of_nat (length ks)] @
     concat (map rule_bytes rs) @ concat (map (\<lambda>k. k @ [0]) ks)"

definition update_d_index_bytes :: "d_index_entry list \<Rightarrow> u8 list \<Rightarrow> bytes" where
  "update_d_index_bytes ds ks = [op_code UPDATE_D_INDEX, word_of_nat (length ds), word_of_nat (length ks)] @
     concat (map d_index_bytes ds) @ concat (map (\<lambda>k. [k]) ks)"

definition update_v_info_bytes :: "server_info \<Rightarrow> bytes" where
  "update_v_info_bytes v = [op_code UPDATE_V_INFO] @ server_info_bytes v"

definition rules_ok :: "rule list \<Rightarrow> bytes list \<Rightarrow> bool" where
  "rules_ok rs ks \<longleftrightarrow> length rs < 256 \<and> length ks < 256 \<and> (\<forall>r \<in> set rs. 0 \<notin> set (r_rule r)) \<and> (\<forall>k \<in> set ks. 0 \<notin> set k)"

definition d_indexes_ok :: "d_index_entry list \<Rightarrow> u8 list \<Rightarrow> bool" where
  "d_indexes_ok ds ks \<longleftrightarrow> length ds < 256 \<and> length ks < 256 \<and> (\<forall>d \<in> set ds. length (si_mac (di_server_info d)) = 6)"

lemma unat_count: "n < 256 \<Longrightarrow> unat (word_of_nat n :: u8) = n"
  by (intro unat_word_of_nat_small) simp

lemma rule_map_adds:
  "rule_map (fold (\<lambda>x s. snd (case x of (key, data) \<Rightarrow> add_balancing_rule key data s)) kvs rc) = rule_map rc ++ map_of (rev kvs)"
  using rules_tab.look_adds [of _ kvs rc] by (auto simp: lookup_balancing_rule_def map_add_def fun_eq_iff case_prod_unfold split: option.split)

lemma d_index_map_adds:
  "d_index_map (fold (\<lambda>x s. snd (case x of (i, v) \<Rightarrow> add_d_index_rule i v s)) kvs rc) = d_index_map rc ++ map_of (rev kvs)"
  using d_index_tab.look_adds [of _ kvs rc] by (auto simp: lookup_backend_server_info_def map_add_def fun_eq_iff case_prod_unfold split: option.split)

lemma rule_map_dels: "rule_map (fold (\<lambda>k s. snd (del_balancing_rule k s)) ks rc) = rule_map rc |` (- set ks)"
  using rules_tab.look_dels [of _ ks rc] by (auto simp: lookup_balancing_rule_def restrict_map_def fun_eq_iff)

lemma d_index_map_dels: "d_index_map (fold (\<lambda>k s. snd (del_d_index_rule k s)) ks rc) = d_index_map rc |` (- set ks)"
  using d_index_tab.look_dels [of _ ks rc] by (auto simp: lookup_backend_server_info_def restrict_map_def fun_eq_iff)

lemma rule_adds_rest:
  "d_index_map (fold (\<lambda>x s. snd (case x of (key, data) \<Rightarrow> add_balancing_rule key data s)) kvs rc) = d_index_map rc"
  "virtual_server_info (fold (\<lambda>x s. snd (case x of (key, data) \<Rightarrow> add_balancing_rule key data s)) kvs rc) = virtual_server_info rc"
  using rules_tab.rest_adds [of kvs rc] by (simp_all add: case_prod_unfold)

lemma d_index_adds_rest:
  "rule_map (fold (\<lambda>x s. snd (case x of (i, v) \<Rightarrow> add_d_index_rule i v s)) kvs rc) = rule_map rc"
  "virtual_server_info (fold (\<lambda>x s. snd (case x of (i, v) \<Rightarrow> add_d_index_rule i v s)) kvs rc) = virtual_server_info rc"
  using d_index_tab.rest_adds [of kvs rc] by (simp_all add: case_prod_unfold)

lemma rule_dels_rest:
  "d_index_map (fold (\<lambda>k s. snd (del_balancing_rule k s)) ks rc) = d_index_map rc"
  "virtual_server_info (fold (\<lambda>k s. snd (del_balancing_rule k s)) ks rc) = virtual_server_info rc"
  using rules_tab.rest_dels [of ks rc] by simp_all

lemma d_index_dels_rest:
  "rule_map (fold (\<lambda>k s. snd (del_d_index_rule k s)) ks rc) = rule_map rc"
  "virtual_server_info (fold (\<lambda>k s. snd (del_d_index_rule k s)) ks rc) = virtual_server_info rc"
  using d_index_tab.rest_dels [of ks rc] by simp_all

lemmas table_folds = rule_map_adds d_index_map_adds rule_map_dels d_index_map_dels
  rule_adds_rest d_index_adds_rest rule_dels_rest d_index_dels_rest

text \<open>Where an update message stands at the start of the buffer, its decoding is the update.\<close>

lemma update_rule_decoded:
  assumes "stands_at buf 0 (update_rule_bytes rs ks)" "rules_ok rs ks"
  shows "handle_switch_message buf rc =
    Some (rc\<lparr>rule_map := (rule_map rc ++ map_of (rev (map rule_binding rs))) |` (- set ks)\<rparr>)"
proof -
  let ?rc = "fold (\<lambda>x s. snd (case x of (key, data) \<Rightarrow> add_balancing_rule key data s)) (map rule_binding rs) rc"
  have st: "stands_at buf 3 (concat (map rule_bytes rs))" "stands_at buf (3 + length (concat (map rule_bytes rs))) (concat (map (\<lambda>k. k @ [0]) ks))"
    and h: "ld8 buf 0 = Some 0" "ld8 buf 1 = Some (word_of_nat (length rs))" "ld8 buf 2 = Some (word_of_nat (length ks))"
    using assms(1) by (simp_all add: update_rule_bytes_def numeral_3_eq_3 numeral_2_eq_2 ld8_def)
  have "read_each read_rule (\<lambda>(key, data). add_balancing_rule key data) (length rs) buf (3, rc) = Some (3 + length (concat (map rule_bytes rs)), ?rc)"
    using rule_rd.read_each_at [OF _ st(1)] assms(2) by (simp add: rules_ok_def case_prod_unfold)
  moreover have "\<exists>n. read_each read_rule_key del_balancing_rule (length ks) buf (3 + length (concat (map rule_bytes rs)), ?rc) =
      Some (n, fold (\<lambda>k s. snd (del_balancing_rule k s)) ks ?rc)"
    using rule_key_rd.read_each_at [OF _ st(2), of del_balancing_rule ?rc] assms(2) by (simp add: rules_ok_def)
  ultimately have "handle_switch_message buf rc = Some (fold (\<lambda>k s. snd (del_balancing_rule k s)) ks ?rc)"
    using h assms(2) by (auto simp: handle_switch_message_def update_rule_def rules_ok_def unat_count)
  moreover have "fold (\<lambda>k s. snd (del_balancing_rule k s)) ks ?rc =
      rc\<lparr>rule_map := (rule_map rc ++ map_of (rev (map rule_binding rs))) |` (- set ks)\<rparr>"
    by (intro rule_controller.equality) (simp_all add: table_folds)
  ultimately show ?thesis by simp
qed

lemma update_d_index_decoded:
  assumes "stands_at buf 0 (update_d_index_bytes ds ks)" "d_indexes_ok ds ks"
  shows "handle_switch_message buf rc =
    Some (rc\<lparr>d_index_map := (d_index_map rc ++ map_of (rev (map d_index_binding ds))) |` (- set ks)\<rparr>)"
proof -
  let ?rc = "fold (\<lambda>x s. snd (case x of (i, v) \<Rightarrow> add_d_index_rule i v s)) (map d_index_binding ds) rc"
  have st: "stands_at buf 3 (concat (map d_index_bytes ds))" "stands_at buf (3 + length (concat (map d_index_bytes ds))) (concat (map (\<lambda>k. [k]) ks))"
    and h: "ld8 buf 0 = Some 1" "ld8 buf 1 = Some (word_of_nat (length ds))" "ld8 buf 2 = Some (word_of_nat (length ks))"
    using assms(1) by (simp_all add: update_d_index_bytes_def numeral_3_eq_3 numeral_2_eq_2 ld8_def)
  have "read_each read_d_index (\<lambda>(i, v). add_d_index_rule i v) (length ds) buf (3, rc) = Some (3 + length (concat (map d_index_bytes ds)), ?rc)"
    using d_index_rd.read_each_at [OF _ st(1)] assms(2) by (simp add: d_indexes_ok_def case_prod_unfold)
  moreover have "\<exists>n. read_each read_index del_d_index_rule (length ks) buf (3 + length (concat (map d_index_bytes ds)), ?rc) =
      Some (n, fold (\<lambda>k s. snd (del_d_index_rule k s)) ks ?rc)"
    using index_rd.read_each_at [OF _ st(2), of del_d_index_rule ?rc] by simp
  ultimately have "handle_switch_message buf rc = Some (fold (\<lambda>k s. snd (del_d_index_rule k s)) ks ?rc)"
    using h assms(2) by (auto simp: handle_switch_message_def update_d_index_def d_indexes_ok_def unat_count)
  moreover have "fold (\<lambda>k s. snd (del_d_index_rule k s)) ks ?rc =
      rc\<lparr>d_index_map := (d_index_map rc ++ map_of (rev (map d_index_binding ds))) |` (- set ks)\<rparr>"
    by (intro rule_controller.equality) (simp_all add: table_folds)
  ultimately show ?thesis by simp
qed

lemma update_v_info_decoded:
  assumes "stands_at buf 0 (update_v_info_bytes v)" "length (si_mac v) = 6"
  shows "handle_switch_message buf rc = Some (rc\<lparr>virtual_server_info := v\<rparr>)"
proof -
  have "read_server_info buf 1 = Some v" "ld8 buf 0 = Some 2"
    using assms read_server_info_at [of buf 1 v] by (simp_all add: update_v_info_bytes_def ld8_def)
  then show ?thesis by (simp add: handle_switch_message_def update_virtual_server_info_def)
qed

section \<open>The greeting of the switch\<close>

text \<open>The messages of the switch's controller are update messages; the virtual address is followed by three more bytes.\<close>

lemma rules_bytes_update: "rules_bytes rs = update_rule_bytes rs []"
  by (simp add: rules_bytes_def update_rule_bytes_def)

lemma d_index_table_bytes_update: "d_index_table_bytes ds = update_d_index_bytes ds []"
  by (simp add: d_index_table_bytes_def update_d_index_bytes_def)

lemma restrict_map_UNIV [simp]: "m |` UNIV = m"
  by (simp add: restrict_map_def fun_eq_iff)

lemma rules_decoded:
  "rules_ok rs [] \<Longrightarrow> stands_at buf 0 (rules_bytes rs) \<Longrightarrow>
   handle_switch_message buf rc = Some (rc\<lparr>rule_map := rule_map rc ++ map_of (rev (map rule_binding rs))\<rparr>)"
  using update_rule_decoded [of buf rs "[]" rc] by (simp add: rules_bytes_update)

lemma d_index_table_decoded:
  "d_indexes_ok ds [] \<Longrightarrow> stands_at buf 0 (d_index_table_bytes ds) \<Longrightarrow>
   handle_switch_message buf rc = Some (rc\<lparr>d_index_map := d_index_map rc ++ map_of (rev (map d_index_binding ds))\<rparr>)"
  using update_d_index_decoded [of buf ds "[]" rc] by (simp add: d_index_table_bytes_update)

lemma v_info_message_eq:
  assumes "length (si_mac (v_info c)) = 6" "length send_buffer = 1024"
  shows "v_info_message c send_buffer = Some (patch send_buffer 0 (update_v_info_bytes (v_info c) @ [0, 0, 0]), 20)"
  using assms by (simp add: v_info_message_def put_eq patch_patch_append update_v_info_bytes_def server_info_bytes_def)

definition same_but_rules :: "frontend \<Rightarrow> rule_controller \<Rightarrow> frontend \<Rightarrow> bool" where
  "same_but_rules f rc f' \<longleftrightarrow> fe_rules f' = rc \<and> fe_entries f' = fe_entries f \<and> fe_send_buffer f' = fe_send_buffer f \<and>
     length (fe_recv_buffer f') = length (fe_recv_buffer f)"

lemma receive_decoded:
  assumes "\<And>buf. stands_at buf 0 m \<Longrightarrow> handle_switch_message buf (fe_rules f) = Some rc" "length (m @ m') \<le> length (fe_recv_buffer f)"
  shows "\<exists>f'. receive (m @ m') f = Some f' \<and> same_but_rules f rc f'"
proof -
  have "stands_at (patch (fe_recv_buffer f) 0 (m @ m')) 0 (m @ m')" using assms(2) by (rule stands_at_patch)
  then have "handle_switch_message (patch (fe_recv_buffer f) 0 (m @ m')) (fe_rules f) = Some rc"
    by (intro assms(1)) (simp only: stands_at_append)
  then show ?thesis using assms(2) by (simp add: receive_def stn_def same_but_rules_def)
qed

lemma receive_rules:
  "rules_ok rs [] \<Longrightarrow> length (rules_bytes rs @ m') \<le> length (fe_recv_buffer f) \<Longrightarrow>
   \<exists>f'. receive (rules_bytes rs @ m') f = Some f' \<and>
     same_but_rules f ((fe_rules f)\<lparr>rule_map := rule_map (fe_rules f) ++ map_of (rev (map rule_binding rs))\<rparr>) f'"
  by (rule receive_decoded) (auto intro: rules_decoded)

lemma receive_d_index_table:
  "d_indexes_ok ds [] \<Longrightarrow> length (d_index_table_bytes ds @ m') \<le> length (fe_recv_buffer f) \<Longrightarrow>
   \<exists>f'. receive (d_index_table_bytes ds @ m') f = Some f' \<and>
     same_but_rules f ((fe_rules f)\<lparr>d_index_map := d_index_map (fe_rules f) ++ map_of (rev (map d_index_binding ds))\<rparr>) f'"
  by (rule receive_decoded) (auto intro: d_index_table_decoded)

lemma receive_v_info:
  "length (si_mac v) = 6 \<Longrightarrow> length (update_v_info_bytes v @ m') \<le> length (fe_recv_buffer f) \<Longrightarrow>
   \<exists>f'. receive (update_v_info_bytes v @ m') f = Some f' \<and> same_but_rules f ((fe_rules f)\<lparr>virtual_server_info := v\<rparr>) f'"
  by (rule receive_decoded) (auto intro: update_v_info_decoded)

text \<open>What the configuration of the switch's controller means to a front end.\<close>

definition config_of :: "controller \<Rightarrow> rule_controller" where
  "config_of c = \<lparr>rule_map = map_of (rev (map rule_binding (rules c))),
     d_index_map = map_of (rev (map d_index_binding (d_index_table c))), virtual_server_info = v_info c\<rparr>"

definition config_ok :: "controller \<Rightarrow> bool" where
  "config_ok c \<longleftrightarrow> rules_ok (rules c) [] \<and> d_indexes_ok (d_index_table c) [] \<and> length (si_mac (v_info c)) = 6"

fun receive_all :: "bytes list \<Rightarrow> frontend \<Rightarrow> frontend option" where
  "receive_all [] f = Some f"
| "receive_all (m # ms) f = do { f \<leftarrow> receive m f; receive_all ms f }"

lemma greeting_received:
  assumes "config_ok c" "length (fe_recv_buffer f) = ETH_FRAME_LEN" "fe_rules f = rule_controller_new"
    and "length (rules_bytes (rules c)) \<le> 1024" "length (d_index_table_bytes (d_index_table c)) \<le> 1024"
  shows "\<exists>f'. receive_all [rules_bytes (rules c), d_index_table_bytes (d_index_table c), update_v_info_bytes (v_info c) @ [0, 0, 0]] f = Some f' \<and>
    same_but_rules f (config_of c) f'"
proof -
  let ?rc1 = "rule_controller_new\<lparr>rule_map := map_of (rev (map rule_binding (rules c)))\<rparr>"
  let ?rc2 = "?rc1\<lparr>d_index_map := map_of (rev (map d_index_binding (d_index_table c)))\<rparr>"
  have ok: "rules_ok (rules c) []" "d_indexes_ok (d_index_table c) []" "length (si_mac (v_info c)) = 6"
    using assms(1) by (simp_all add: config_ok_def)
  obtain f1 where f1: "receive (rules_bytes (rules c) @ []) f = Some f1" "same_but_rules f ?rc1 f1"
    using receive_rules [OF ok(1), of "[]" f] assms by (auto simp: ETH_FRAME_LEN_def rule_controller_new_def)
  obtain f2 where f2: "receive (d_index_table_bytes (d_index_table c) @ []) f1 = Some f2" "same_but_rules f1 ?rc2 f2"
    using receive_d_index_table [OF ok(2), of "[]" f1] assms f1(2)
    by (auto simp: ETH_FRAME_LEN_def same_but_rules_def rule_controller_new_def)
  obtain f3 where f3: "receive (update_v_info_bytes (v_info c) @ [0, 0, 0]) f2 = Some f3" "same_but_rules f2 (config_of c) f3"
    using receive_v_info [OF ok(3), of "[0, 0, 0]" f2] assms ok(3) f1(2) f2(2)
    by (auto simp: config_of_def update_v_info_bytes_def server_info_bytes_def ETH_FRAME_LEN_def same_but_rules_def rule_controller_new_def)
  show ?thesis using f1 f2 f3 by (simp add: same_but_rules_def)
qed

section \<open>Properties\<close>

text \<open>
  (C17) Rules survive the wire in both directions of an update: after an \<open>UPDATE_RULE\<close> message with the rules
  \<open>rs\<close> to add and the keys \<open>ks\<close> to delete, whatever stands behind it in the buffer, a key of \<open>ks\<close> is unknown, a
  key of \<open>rs\<close> has the data of its last rule, and every other key and the rest of the state are as before.
\<close>

theorem rule_update_roundtrip:
  assumes "stands_at buf 0 (update_rule_bytes rs ks)" "rules_ok rs ks"
  shows "handle_switch_message buf rc =
    Some (rc\<lparr>rule_map := (rule_map rc ++ map_of (rev (map rule_binding rs))) |` (- set ks)\<rparr>)"
  by (rule update_rule_decoded [OF assms])

text \<open>
  (C12) The greeting is a round trip: the three messages that the switch's controller builds from its
  configuration, each received on its own, leave a fresh front end with exactly this configuration: every
  rule, every back-end server and the virtual address.
\<close>

theorem greeting_roundtrip:
  assumes "config_ok c" "length send_buffer = 1024"
    and "rules_message c send_buffer = Some (b1, n1)" "d_index_message c b1 = Some (b2, n2)" "v_info_message c b2 = Some (b3, n3)"
    and "length (fe_recv_buffer f) = ETH_FRAME_LEN" "fe_rules f = rule_controller_new"
  shows "\<exists>f'. receive_all [take n1 b1, take n2 b2, take n3 b3] f = Some f' \<and> same_but_rules f (config_of c) f'"
proof -
  have 1: "take n1 b1 = rules_bytes (rules c)" "length (rules_bytes (rules c)) \<le> 1024" "length b1 = 1024"
    using assms(2,3) by (auto simp: rules_message_eq patch_def split: if_splits)
  have 2: "take n2 b2 = d_index_table_bytes (d_index_table c)" "length (d_index_table_bytes (d_index_table c)) \<le> 1024" "length b2 = 1024"
    using 1(3) assms(4) by (auto simp: d_index_message_eq patch_def split: if_splits)
  have 3: "take n3 b3 = update_v_info_bytes (v_info c) @ [0, 0, 0]"
    using 2(3) assms(1,5) by (auto simp: config_ok_def v_info_message_eq patch_def update_v_info_bytes_def server_info_bytes_def)
  show ?thesis unfolding 1(1) 2(1) 3 by (rule greeting_received [OF assms(1,6,7) 1(2) 2(2)])
qed

text \<open>
  (C33) The controller sends the rules and the servers one right after the other, and the front end looks at
  one message per \<open>recv\<close>: when the two arrive together, the front end has the rules but no server at all.
\<close>

theorem coalesced_greeting_loses_servers:
  assumes "config_ok c" "length (fe_recv_buffer f) = ETH_FRAME_LEN" "fe_rules f = rule_controller_new"
    and "length (rules_bytes (rules c) @ d_index_table_bytes (d_index_table c)) \<le> ETH_FRAME_LEN"
  shows "\<exists>f'. receive (rules_bytes (rules c) @ d_index_table_bytes (d_index_table c)) f = Some f' \<and>
    rule_map (fe_rules f') = rule_map (config_of c) \<and> (\<forall>i. lookup_backend_server_info i (fe_rules f') = None)"
proof -
  have ok: "rules_ok (rules c) []" using assms(1) by (simp add: config_ok_def)
  show ?thesis
    using receive_rules [OF ok, of "d_index_table_bytes (d_index_table c)" f] assms(2-4)
    by (auto simp: same_but_rules_def config_of_def rule_controller_new_def lookup_backend_server_info_def)
qed

section \<open>Concrete runs\<close>

definition ex_config :: controller where
  "ex_config = \<lparr>server_fd = 3, epoll_fd = 4,
     rules = [\<lparr>r_rule = [97, 98], r_d_index = 5, r_offload_flag = 1\<rparr>, \<lparr>r_rule = [99], r_d_index = 7, r_offload_flag = 0\<rparr>],
     d_index_table = [\<lparr>di_d_index = 5, di_server_info = \<lparr>si_mac = [2, 0, 0, 0, 0, 5], si_ip = 0x0A000005, si_port = 80\<rparr>\<rparr>],
     v_info = \<lparr>si_mac = [2, 0, 0, 0, 0, 1], si_ip = 0x0A000001, si_port = 8080\<rparr>\<rparr>"

definition ex_frontend :: frontend where
  "ex_frontend = \<lparr>fe_recv_buffer = replicate 1514 0, fe_send_buffer = replicate 1514 0, fe_rules = rule_controller_new, fe_entries = ex_ec\<rparr>"

lemma ex_config_ok: "config_ok ex_config"
  by (simp add: config_ok_def rules_ok_def d_indexes_ok_def ex_config_def)

lemma ex_frontend_fresh: "length (fe_recv_buffer ex_frontend) = ETH_FRAME_LEN" "fe_rules ex_frontend = rule_controller_new"
  by (simp_all add: ex_frontend_def ETH_FRAME_LEN_def)

lemma ex_config_learned:
  "lookup_balancing_rule [99] (config_of ex_config) = Some \<lparr>md_offload_flag = 0, md_d_index = 7\<rparr>"
  "map_option si_port (lookup_backend_server_info 5 (config_of ex_config)) = Some 80"
  "si_port (get_virtual_server_info (config_of ex_config)) = 8080"
  by (simp_all add: lookup_balancing_rule_def lookup_backend_server_info_def get_virtual_server_info_def config_of_def
    rule_binding_def d_index_binding_def ex_config_def)

theorem rule_update_roundtrip_witness:
  "\<exists>rc. handle_switch_message (update_rule_bytes (rules ex_config) [[99]]) rule_controller_new = Some rc \<and>
     lookup_balancing_rule [97, 98] rc = Some \<lparr>md_offload_flag = 1, md_d_index = 5\<rparr> \<and> lookup_balancing_rule [99] rc = None"
proof -
  have "stands_at (update_rule_bytes (rules ex_config) [[99]]) 0 (update_rule_bytes (rules ex_config) [[99]])" by (simp add: stands_at_iff)
  moreover have "rules_ok (rules ex_config) [[99]]" by (simp add: rules_ok_def ex_config_def)
  ultimately show ?thesis
    using rule_update_roundtrip [of "update_rule_bytes (rules ex_config) [[99]]" "rules ex_config" "[[99]]" rule_controller_new]
    by (simp add: lookup_balancing_rule_def ex_config_def rule_binding_def rule_controller_new_def)
qed

theorem greeting_roundtrip_witness:
  "\<exists>b1 n1 b2 n2 b3 n3 f. rules_message ex_config (replicate 1024 0) = Some (b1, n1) \<and> d_index_message ex_config b1 = Some (b2, n2) \<and>
     v_info_message ex_config b2 = Some (b3, n3) \<and> receive_all [take n1 b1, take n2 b2, take n3 b3] ex_frontend = Some f \<and>
     lookup_balancing_rule [99] (fe_rules f) = Some \<lparr>md_offload_flag = 0, md_d_index = 7\<rparr> \<and>
     map_option si_port (lookup_backend_server_info 5 (fe_rules f)) = Some 80 \<and> si_port (get_virtual_server_info (fe_rules f)) = 8080"
proof -
  let ?r = "rules_bytes (rules ex_config)" and ?d = "d_index_table_bytes (d_index_table ex_config)"
  have l: "length ?r \<le> 1024" "length ?d \<le> 1024"
    by (simp_all add: rules_bytes_def d_index_table_bytes_def rule_bytes_def d_index_bytes_def server_info_bytes_def ex_config_def)
  have m: "rules_message ex_config (replicate 1024 0) = Some (patch (replicate 1024 0) 0 ?r, length ?r)" (is "_ = Some (?b1, _)")
    using l by (simp add: rules_message_eq)
  have m': "d_index_message ex_config ?b1 = Some (patch ?b1 0 ?d, length ?d)" (is "_ = Some (?b2, _)")
    using l by (simp add: d_index_message_eq)
  have m'': "v_info_message ex_config ?b2 = Some (patch ?b2 0 (update_v_info_bytes (v_info ex_config) @ [0, 0, 0]), 20)" (is "_ = Some (?b3, _)")
    using l ex_config_ok by (intro v_info_message_eq) (simp_all add: config_ok_def)
  obtain f where f: "receive_all [take (length ?r) ?b1, take (length ?d) ?b2, take 20 ?b3] ex_frontend = Some f" "fe_rules f = config_of ex_config"
    using greeting_roundtrip [OF ex_config_ok _ m m' m'' ex_frontend_fresh] by (auto simp: same_but_rules_def)
  show ?thesis
    using m m' m'' f(1) ex_config_learned unfolding f(2) [symmetric] by blast
qed

theorem coalesced_greeting_loses_servers_witness:
  "\<exists>f. receive (rules_bytes (rules ex_config) @ d_index_table_bytes (d_index_table ex_config)) ex_frontend = Some f \<and>
     lookup_backend_server_info 5 (fe_rules f) = None"
  using coalesced_greeting_loses_servers [OF ex_config_ok ex_frontend_fresh]
  by (auto simp: rules_bytes_def d_index_table_bytes_def rule_bytes_def d_index_bytes_def server_info_bytes_def ex_config_def ETH_FRAME_LEN_def)

end
