(* ===== verification/Pkt_Build.thy ===== *)
theory Pkt_Build
  imports Rule_Controller
begin

text \<open>
  The packet-building functions of \<open>src/Frontend/subprojects/pkt_processor/pkt_processor.cpp\<close> and its request
  parser.  A packet buffer (\<open>rte_mbuf\<close>) is its data area, from the first byte of the Ethernet header, with the
  fields the code uses; an access outside the data area is the value \<open>None\<close>.
\<close>

section \<open>Packet buffers\<close>

datatype ol_flag = RTE_MBUF_F_TX_IPV4 | RTE_MBUF_F_TX_IP_CKSUM | RTE_MBUF_F_TX_TCP_CKSUM

record mbuf =
  mb_data :: bytes
  mb_data_len :: u16
  mb_pkt_len :: u32
  mb_ol_flags :: "ol_flag set"
  mb_l2_len :: u32
  mb_l3_len :: u32
  mb_l4_len :: u32

text \<open>TCP flags.\<close>

definition RTE_TCP_FIN_FLAG :: u8 where "RTE_TCP_FIN_FLAG = 0x01"
definition RTE_TCP_SYN_FLAG :: u8 where "RTE_TCP_SYN_FLAG = 0x02"
definition RTE_TCP_RST_FLAG :: u8 where "RTE_TCP_RST_FLAG = 0x04"
definition RTE_TCP_ACK_FLAG :: u8 where "RTE_TCP_ACK_FLAG = 0x10"

lemmas tcp_flag_defs = RTE_TCP_FIN_FLAG_def RTE_TCP_SYN_FLAG_def RTE_TCP_RST_FLAG_def RTE_TCP_ACK_FLAG_def

text \<open>The options of every SYN: MSS 1460, SACK permitted, window scale 9.\<close>

definition option_char :: bytes where
  "option_char = [0x02, 0x04, 0x05, 0xB4, 0x01, 0x01, 0x04, 0x02, 0x01, 0x03, 0x03, 0x09]"

text \<open>The source MAC address that every packet gets; the code writes it byte by byte in each function.\<close>

definition frontend_mac :: bytes where
  "frontend_mac = [0x0c, 0x42, 0xa1, 0xd1, 0xd0, 0xc8]"

text \<open>The last lines of every builder: checksums are left to the network card, and the lengths are set.\<close>

definition tx_fields :: "bytes \<Rightarrow> u32 \<Rightarrow> u16 \<Rightarrow> mbuf \<Rightarrow> mbuf" where
  "tx_fields data l4_len data_len send_buf = send_buf\<lparr>mb_data := data,
     mb_ol_flags := mb_ol_flags send_buf \<union> {RTE_MBUF_F_TX_IPV4, RTE_MBUF_F_TX_IP_CKSUM, RTE_MBUF_F_TX_TCP_CKSUM},
     mb_l2_len := 14, mb_l3_len := 20, mb_l4_len := l4_len, mb_data_len := data_len, mb_pkt_len := ucast data_len\<rparr>"

text \<open>\<open>(tcp_hdr->data_off >> 4) * 4\<close>.\<close>

definition tcp_len :: "u8 \<Rightarrow> u32" where
  "tcp_len data_off = ucast (drop_bit 4 data_off) * 4"

section \<open>Building packets\<close>

text \<open>
  Offsets: Ethernet destination 0, source 6, type 12; IP version 14, total length 16, protocol 23, checksum 24,
  source 26, destination 30; TCP ports 34 and 36, sequence 38, acknowledgement 42, data offset 46, flags 47,
  checksum 50, options 54.
\<close>

definition forward_inbound_pkt :: "rule_controller \<Rightarrow> u8 \<Rightarrow> mbuf \<Rightarrow> mbuf \<Rightarrow> (status \<times> mbuf) option" where
  "forward_inbound_pkt rc d_index recv_buf send_buf = do {
     packet \<leftarrow> ldn (mb_data recv_buf) 0 (unat (mb_data_len recv_buf));
     p \<leftarrow> stn (mb_data send_buf) 0 packet;
     (case lookup_backend_server_info d_index rc of
        None \<Rightarrow> Some (INTERNAL_ERROR, send_buf\<lparr>mb_data := p\<rparr>)
      | Some server_info \<Rightarrow> do {
          p \<leftarrow> stn p 6 frontend_mac;
          p \<leftarrow> stn p 0 (si_mac server_info);
          p \<leftarrow> st32 p 30 (bswap32 (si_ip server_info));
          p \<leftarrow> st16 p 24 0;
          p \<leftarrow> st16 p 36 (bswap16 (si_port server_info));
          p \<leftarrow> st16 p 50 0;
          data_off \<leftarrow> ld8 p 46;
          total_length \<leftarrow> ld16 p 16;
          Some (OK, tx_fields p (tcp_len data_off) (bswap16 total_length + 14) send_buf)
        })
   }"

text \<open>The virtual server always exists, so this one cannot fail.\<close>

definition forward_outbound_pkt :: "rule_controller \<Rightarrow> mbuf \<Rightarrow> mbuf \<Rightarrow> (status \<times> mbuf) option" where
  "forward_outbound_pkt rc recv_buf send_buf = do {
     packet \<leftarrow> ldn (mb_data recv_buf) 0 (unat (mb_data_len recv_buf));
     p \<leftarrow> stn (mb_data send_buf) 0 packet;
     let server_info = get_virtual_server_info rc;
     p \<leftarrow> stn p 6 frontend_mac;
     p \<leftarrow> stn p 0 (si_mac server_info);
     p \<leftarrow> st32 p 26 (bswap32 (si_ip server_info));
     p \<leftarrow> st16 p 24 0;
     p \<leftarrow> st16 p 34 (bswap16 (si_port server_info));
     p \<leftarrow> st16 p 50 0;
     data_off \<leftarrow> ld8 p 46;
     total_length \<leftarrow> ld16 p 16;
     Some (OK, tx_fields p (tcp_len data_off) (bswap16 total_length + 14) send_buf)
   }"

definition reply_rst_pkt :: "mbuf \<Rightarrow> mbuf \<Rightarrow> (status \<times> mbuf) option" where
  "reply_rst_pkt recv_buf send_buf = do {
     packet \<leftarrow> ldn (mb_data recv_buf) 0 54;
     p \<leftarrow> stn (mb_data send_buf) 0 packet;
     src_addr \<leftarrow> ldn p 6 6;
     p \<leftarrow> stn p 0 src_addr;
     p \<leftarrow> stn p 6 frontend_mac;
     tmp_ip \<leftarrow> ld32 p 26;
     dst_ip \<leftarrow> ld32 p 30;
     p \<leftarrow> st32 p 26 dst_ip;
     p \<leftarrow> st32 p 30 tmp_ip;
     p \<leftarrow> st16 p 24 0;
     version_ihl \<leftarrow> ld8 p 14;
     p \<leftarrow> stn p 14 [5 + (version_ihl AND 0xf0)];
     p \<leftarrow> st16 p 16 (bswap16 40);
     tmp_port \<leftarrow> ld16 p 34;
     dst_port \<leftarrow> ld16 p 36;
     p \<leftarrow> st16 p 34 dst_port;
     p \<leftarrow> st16 p 36 tmp_port;
     sent_seq \<leftarrow> ld32 p 38;
     recv_ack \<leftarrow> ld32 p 42;
     let seq_num = bswap32 sent_seq;
     let ack_num = bswap32 recv_ack;
     p \<leftarrow> st32 p 42 (bswap32 (seq_num + ucast (mb_data_len recv_buf) - mb_l2_len recv_buf - mb_l3_len recv_buf - mb_l4_len recv_buf));
     p \<leftarrow> st32 p 38 (bswap32 ack_num);
     p \<leftarrow> stn p 46 [push_bit 4 5];
     p \<leftarrow> stn p 47 [RTE_TCP_RST_FLAG];
     p \<leftarrow> st16 p 50 0;
     total_length \<leftarrow> ld16 p 16;
     Some (OK, tx_fields p 20 (bswap16 total_length + 14) send_buf)
   }"

text \<open>
  Address and port of the server are stored without a change of byte order here, and the pointer that the
  lookup returns is not checked: an unknown index is a null-pointer access.
\<close>

definition send_rst_pkt :: "rule_controller \<Rightarrow> u8 \<Rightarrow> mbuf \<Rightarrow> mbuf \<Rightarrow> (status \<times> mbuf) option" where
  "send_rst_pkt rc d_index recv_buf send_buf = do {
     packet \<leftarrow> ldn (mb_data recv_buf) 0 54;
     p \<leftarrow> stn (mb_data send_buf) 0 packet;
     server_info \<leftarrow> lookup_backend_server_info d_index rc;
     p \<leftarrow> stn p 0 (si_mac server_info);
     p \<leftarrow> stn p 6 frontend_mac;
     p \<leftarrow> st32 p 30 (si_ip server_info);
     version_ihl \<leftarrow> ld8 p 14;
     p \<leftarrow> stn p 14 [5 + (version_ihl AND 0xf0)];
     p \<leftarrow> st16 p 16 (bswap16 40);
     p \<leftarrow> st16 p 24 0;
     p \<leftarrow> st16 p 36 (si_port server_info);
     p \<leftarrow> stn p 47 [RTE_TCP_RST_FLAG];
     p \<leftarrow> stn p 46 [push_bit 4 5];
     p \<leftarrow> st16 p 50 0;
     Some (OK, tx_fields p 20 54 send_buf)
   }"

definition send_cached_pkt :: "rule_controller \<Rightarrow> u8 \<Rightarrow> bytes \<Rightarrow> nat \<Rightarrow> mbuf \<Rightarrow> (status \<times> mbuf) option" where
  "send_cached_pkt rc d_index cached_pkt pkt_size send_buf = do {
     packet \<leftarrow> ldn cached_pkt 0 pkt_size;
     p \<leftarrow> stn (mb_data send_buf) 0 packet;
     server_info \<leftarrow> lookup_backend_server_info d_index rc;
     p \<leftarrow> stn p 0 (si_mac server_info);
     p \<leftarrow> stn p 6 frontend_mac;
     p \<leftarrow> st32 p 30 (bswap32 (si_ip server_info));
     p \<leftarrow> st16 p 24 0;
     p \<leftarrow> st16 p 36 (bswap16 (si_port server_info));
     p \<leftarrow> st16 p 50 0;
     data_off \<leftarrow> ld8 p 46;
     total_length \<leftarrow> ld16 p 16;
     Some (OK, tx_fields p (tcp_len data_off) (bswap16 total_length + 14) send_buf)
   }"

text \<open>The source MAC address is the only one that is not replaced, and 66 bytes are copied whatever the packet's length.\<close>

definition send_syn_pkt :: "rule_controller \<Rightarrow> u8 \<Rightarrow> mbuf \<Rightarrow> mbuf \<Rightarrow> (status \<times> mbuf) option" where
  "send_syn_pkt rc d_index recv_buf send_buf = do {
     packet \<leftarrow> ldn (mb_data recv_buf) 0 66;
     p \<leftarrow> stn (mb_data send_buf) 0 packet;
     server_info \<leftarrow> lookup_backend_server_info d_index rc;
     p \<leftarrow> stn p 0 (si_mac server_info);
     p \<leftarrow> st32 p 30 (bswap32 (si_ip server_info));
     version_ihl \<leftarrow> ld8 p 14;
     p \<leftarrow> stn p 14 [5 + (version_ihl AND 0xf0)];
     p \<leftarrow> st16 p 16 (bswap16 52);
     p \<leftarrow> st16 p 24 0;
     p \<leftarrow> st16 p 36 (bswap16 (si_port server_info));
     p \<leftarrow> stn p 47 [RTE_TCP_SYN_FLAG];
     p \<leftarrow> stn p 46 [push_bit 4 8];
     sent_seq \<leftarrow> ld32 p 38;
     p \<leftarrow> st32 p 38 (bswap32 (bswap32 sent_seq - 1));
     recv_ack \<leftarrow> ld32 p 42;
     p \<leftarrow> st32 p 42 (bswap32 (bswap32 recv_ack - 1));
     p \<leftarrow> st16 p 50 0;
     p \<leftarrow> stn p 54 option_char;
     total_length \<leftarrow> ld16 p 16;
     Some (OK, tx_fields p 32 (bswap16 total_length + 14) send_buf)
   }"

section \<open>Parsing a request\<close>

text \<open>A loop that advances \<open>i\<close> up to \<open>n\<close> until a byte of the payload (which starts at \<open>base\<close>) stops it.\<close>

function scan :: "(u8 \<Rightarrow> bool) \<Rightarrow> bytes \<Rightarrow> nat \<Rightarrow> nat \<Rightarrow> nat \<Rightarrow> nat option" where
  "scan stop buf base n i =
     (if i < n then do { b \<leftarrow> ld8 buf (base + i); if stop b then Some i else scan stop buf base n (i + 1) }
      else Some i)"
  by pat_completeness auto
termination by (relation "measure (\<lambda>(stop, buf, base, n, i). n - i)") auto

declare scan.simps [simp del]

text \<open>
  What stands between the first slash and the next space or carriage return: where it starts, and its length.
  Without a slash the result is empty and starts behind the payload.
\<close>

definition parse_payload :: "bytes \<Rightarrow> nat \<Rightarrow> nat \<Rightarrow> (nat \<times> nat) option" where
  "parse_payload buf payload payload_size = do {
     i \<leftarrow> scan (\<lambda>b. b = 0x2F) buf payload payload_size 0;
     let i = i + 1;
     j \<leftarrow> scan (\<lambda>b. b = 0x20 \<or> b = 0x0D) buf payload payload_size i;
     Some (payload + i, j - i)
   }"

text \<open>The request as the key of a rule: the copy into \<open>url_copy[20]\<close>, read back as a C string.\<close>

definition request_key :: "bytes \<Rightarrow> nat \<Rightarrow> nat \<Rightarrow> bytes option" where
  "request_key buf payload payload_size = do {
     (url, url_size) \<leftarrow> parse_payload buf payload payload_size;
     url_copy \<leftarrow> (if url_size = 0 then Some [] else ldn buf url url_size);
     if url_size < 20 then Some (takeWhile (\<lambda>b. b \<noteq> 0) url_copy) else None
   }"

subsection \<open>What is parsed\<close>

definition payload_of :: "bytes \<Rightarrow> nat \<Rightarrow> nat \<Rightarrow> bytes" where
  "payload_of buf payload payload_size = take payload_size (drop payload buf)"

text \<open>The request in a payload: behind the first slash, up to a space or carriage return.\<close>

definition request_of :: "bytes \<Rightarrow> bytes" where
  "request_of pl = takeWhile (\<lambda>b. b \<noteq> 0x20 \<and> b \<noteq> 0x0D) (drop 1 (dropWhile (\<lambda>b. b \<noteq> 0x2F) pl))"

lemma scan_eq:
  assumes "base + n \<le> length buf"
  shows "i \<le> n \<Longrightarrow> scan stop buf base n i = Some (i + length (takeWhile (\<lambda>b. \<not> stop b) (drop i (payload_of buf base n))))"
proof (induction "n - i" arbitrary: i)
  case 0
  then show ?case using assms by (simp add: scan.simps payload_of_def)
next
  case (Suc k)
  then have "i < n" by simp
  then have d: "drop i (payload_of buf base n) = buf ! (base + i) # drop (Suc i) (payload_of buf base n)"
    using assms by (subst Cons_nth_drop_Suc [symmetric]) (simp_all add: payload_of_def)
  have "scan stop buf base n (Suc i) = Some (Suc i + length (takeWhile (\<lambda>b. \<not> stop b) (drop (Suc i) (payload_of buf base n))))"
    using Suc \<open>i < n\<close> by (intro Suc.hyps(1)) simp_all
  then show ?case using \<open>i < n\<close> assms by (subst scan.simps) (simp add: ld8_def d)
qed

lemma dropWhile_eq_drop: "dropWhile P xs = drop (length (takeWhile P xs)) xs"
  by (induction xs) auto

lemma parse_payload_eq:
  assumes "payload + n \<le> length buf"
  shows "parse_payload buf payload n = Some (payload + (length (takeWhile (\<lambda>b. b \<noteq> 0x2F) (payload_of buf payload n)) + 1),
    length (request_of (payload_of buf payload n)))"
proof -
  let ?pl = "payload_of buf payload n"
  let ?i = "length (takeWhile (\<lambda>b. b \<noteq> 0x2F) ?pl)"
  have l: "length ?pl = n" using assms by (simp add: payload_of_def)
  have i: "?i \<le> n" using length_takeWhile_le [of _ ?pl] l by metis
  have 1: "scan (\<lambda>b. b = 0x2F) buf payload n 0 = Some ?i" using scan_eq [OF assms, of 0] by simp
  have r: "request_of ?pl = takeWhile (\<lambda>b. b \<noteq> 0x20 \<and> b \<noteq> 0x0D) (drop (?i + 1) ?pl)"
    by (simp add: request_of_def dropWhile_eq_drop)
  show ?thesis
  proof (cases "?i < n")
    case True
    then have "scan (\<lambda>b. b = 0x20 \<or> b = 0x0D) buf payload n (?i + 1) = Some (?i + 1 + length (request_of ?pl))"
      using scan_eq [OF assms, of "?i + 1" "\<lambda>b. b = 0x20 \<or> b = 0x0D"] by (simp add: r)
    then show ?thesis using 1 by (simp add: parse_payload_def)
  next
    case False
    then have "scan (\<lambda>b. b = 0x20 \<or> b = 0x0D) buf payload n (?i + 1) = Some (?i + 1)" "request_of ?pl = []"
      using l by (simp_all add: scan.simps r)
    then show ?thesis using 1 by (simp add: parse_payload_def)
  qed
qed

lemma payload_sub: "i + m \<le> n \<Longrightarrow> take m (drop i (payload_of buf base n)) = take m (drop (base + i) buf)"
  by (simp add: payload_of_def drop_take min_absorb1 add.commute)

lemma request_place:
  assumes "payload + n \<le> length buf" "request_of (payload_of buf payload n) \<noteq> []"
  shows "ldn buf (payload + (length (takeWhile (\<lambda>b. b \<noteq> 0x2F) (payload_of buf payload n)) + 1)) (length (request_of (payload_of buf payload n))) =
    Some (request_of (payload_of buf payload n))"
proof -
  let ?pl = "payload_of buf payload n"
  let ?i = "length (takeWhile (\<lambda>b. b \<noteq> 0x2F) ?pl) + 1"
  have l: "length ?pl = n" using assms by (simp add: payload_of_def)
  have r: "request_of ?pl = takeWhile (\<lambda>b. b \<noteq> 0x20 \<and> b \<noteq> 0x0D) (drop ?i ?pl)"
    by (simp add: request_of_def dropWhile_eq_drop)
  have t: "take (length (request_of ?pl)) (drop ?i ?pl) = request_of ?pl"
    unfolding r by (rule takeWhile_eq_take [symmetric])
  have "length (request_of ?pl) \<le> length (drop ?i ?pl)" unfolding r by (rule length_takeWhile_le)
  moreover have "0 < length (request_of ?pl)" using assms(2) by simp
  ultimately have k: "?i + length (request_of ?pl) \<le> n" using l unfolding length_drop by linarith
  have "take (length (request_of ?pl)) (drop (payload + ?i) buf) = request_of ?pl"
    using t payload_sub [OF k, of buf payload] by simp
  then show ?thesis using k assms(1) by (simp add: ldn_def)
qed

lemma request_key_eq:
  assumes "payload + payload_size \<le> length buf"
  shows "request_key buf payload payload_size =
    (let url = request_of (payload_of buf payload payload_size)
     in if length url < 20 then Some (takeWhile (\<lambda>b. b \<noteq> 0) url) else None)"
  using parse_payload_eq [OF assms] request_place [OF assms]
  by (cases "request_of (payload_of buf payload payload_size) = []") (simp_all add: request_key_def Let_def)

text \<open>
  (C26) What the front end looks a request up with: of a payload inside the packet, the bytes between the first
  slash and the next space or carriage return (all of the rest without one, nothing without a slash), up to
  a zero byte.  With 20 bytes or more of it, the copy leaves \<open>url_copy\<close>, whatever the rules are.
\<close>

theorem request_key_spec:
  assumes "payload + payload_size \<le> length buf"
  shows "request_key buf payload payload_size =
    (let url = request_of (payload_of buf payload payload_size)
     in if length url < 20 then Some (takeWhile (\<lambda>b. b \<noteq> 0) url) else None)"
  by (rule request_key_eq [OF assms])

text \<open>\<open>GET /ab HTTP\<close> at offset 2 of a buffer.\<close>

theorem request_key_spec_witness:
  "request_key [0, 0, 71, 69, 84, 32, 47, 97, 98, 32, 72, 84, 84, 80] 2 12 = Some [97, 98]"
  using request_key_spec [of 2 12 "[0, 0, 71, 69, 84, 32, 47, 97, 98, 32, 72, 84, 84, 80]"]
  by (simp add: payload_of_def request_of_def)

section \<open>What is built\<close>

lemma length_option_char [simp]: "length option_char = 12"
  by (simp add: option_char_def)

lemma length_frontend_mac [simp]: "length frontend_mac = 6"
  by (simp add: frontend_mac_def)

text \<open>
  A chain of stores into a buffer of at least \<open>N\<close> bytes, all of them below \<open>N\<close>: the rules look at one store at a
  time, so that a long chain is evaluated in few steps.
\<close>

lemma long_patch: "N \<le> length p \<Longrightarrow> i + length bs \<le> N \<Longrightarrow> N \<le> length (patch p i bs)"
  by simp

lemma long_copy: "N \<le> length s \<Longrightarrow> length bs \<le> length s \<Longrightarrow> N \<le> length (patch s 0 bs)"
  by simp

lemma store_in:
  assumes "N \<le> length p"
  shows "i + length bs \<le> N \<Longrightarrow> stn p i bs = Some (patch p i bs)"
    "i + 2 \<le> N \<Longrightarrow> st16 p i v = Some (patch p i (bytes16 v))" "i + 4 \<le> N \<Longrightarrow> st32 p i w = Some (patch p i (bytes32 w))"
  using assms by (simp_all add: mem_simps)

lemma load_other:
  assumes "N \<le> length p" "i + length bs \<le> N"
  shows "j < i \<or> i + length bs \<le> j \<Longrightarrow> ld8 (patch p i bs) j = ld8 p j"
    "j + 2 \<le> i \<or> i + length bs \<le> j \<Longrightarrow> ld16 (patch p i bs) j = ld16 p j"
    "j + 4 \<le> i \<or> i + length bs \<le> j \<Longrightarrow> ld32 (patch p i bs) j = ld32 p j"
  using assms ld8_patch_other [of i bs p j] ld16_patch_other [of i bs p j] ld32_patch_other [of i bs p j] by simp_all

lemma load_same:
  assumes "N \<le> length p"
  shows "i + 2 \<le> N \<Longrightarrow> ld16 (patch p i (bytes16 v)) i = Some v" "i + 4 \<le> N \<Longrightarrow> ld32 (patch p i (bytes32 w)) i = Some w"
  using assms by (simp_all add: ld16_patch_same ld32_patch_same)

lemma load_copy:
  assumes "n \<le> length r" "n \<le> length s"
  shows "i < n \<Longrightarrow> ld8 (patch s 0 (take n r)) i = Some (r ! i)"
    "i + 2 \<le> n \<Longrightarrow> ld16 (patch s 0 (take n r)) i = Some (le16 (r ! i) (r ! (i + 1)))"
    "i + 4 \<le> n \<Longrightarrow> ld32 (patch s 0 (take n r)) i = Some (bswap32 (be32 r i))"
  using assms by (simp_all add: ld8_def ld16_def ld32_def nth_patch be32_def)

lemmas chain54 = long_patch [where N = 54] long_copy [where N = 54] store_in [where N = 54] load_other [where N = 54] load_same [where N = 54] load_copy
lemmas chain66 = long_patch [where N = 66] long_copy [where N = 66] store_in [where N = 66] load_other [where N = 66] load_same [where N = 66] load_copy

text \<open>The data of a SYN, from the received packet \<open>r\<close> and the send buffer \<open>s\<close>.\<close>

definition syn_data :: "server_info \<Rightarrow> bytes \<Rightarrow> bytes \<Rightarrow> bytes" where
  "syn_data si r s = foldl (\<lambda>p (i, bs). patch p i bs) s
     [(0, take 66 r), (0, si_mac si), (30, bytes32 (bswap32 (si_ip si))), (14, [5 + (r ! 14 AND 0xf0)]), (16, bytes16 (bswap16 52)),
      (24, bytes16 0), (36, bytes16 (bswap16 (si_port si))), (47, [RTE_TCP_SYN_FLAG]), (46, [push_bit 4 8]),
      (38, bytes32 (bswap32 (be32 r 38 - 1))), (42, bytes32 (bswap32 (be32 r 42 - 1))), (50, bytes16 0), (54, option_char)]"

lemma send_syn_pkt_eq:
  assumes "66 \<le> length (mb_data m)" "66 \<le> length (mb_data m')" "lookup_backend_server_info i rc = Some si" "length (si_mac si) = 6"
  shows "send_syn_pkt rc i m m' = Some (OK, tx_fields (syn_data si (mb_data m) (mb_data m')) 32 66 m')"
  using assms by (simp add: send_syn_pkt_def chain66 syn_data_def ldn_in del: length_patch)

text \<open>With buffers of the right size and a known server, every builder succeeds and the buffer stays as large as needed.\<close>

definition builds :: "nat \<Rightarrow> (mbuf \<Rightarrow> (status \<times> mbuf) option) \<Rightarrow> bool" where
  "builds R build \<longleftrightarrow> (\<forall>s. R \<le> length (mb_data s) \<longrightarrow> (\<exists>s'. build s = Some (OK, s') \<and> R \<le> length (mb_data s')))"

lemma tx_fields_data [simp]: "mb_data (tx_fields p l n s) = p"
  by (simp add: tx_fields_def)

definition built :: "nat \<Rightarrow> mbuf \<Rightarrow> (status \<times> mbuf) option \<Rightarrow> bool" where
  "built R s x \<longleftrightarrow> (\<exists>p l n. x = Some (OK, tx_fields p l n s) \<and> R \<le> length p)"

lemma buildsI: "(\<And>s. R \<le> length (mb_data s) \<Longrightarrow> built R s (build s)) \<Longrightarrow> builds R build"
  unfolding builds_def built_def by fastforce

lemma built_done: "R \<le> length p \<Longrightarrow> built R s (Some (OK, tx_fields p l n s))"
  by (auto simp: built_def)

lemma built_store:
  assumes "R \<le> length p" "i + length bs \<le> length p" "\<And>q. R \<le> length q \<Longrightarrow> built R s (f q)"
  shows "built R s (Option.bind (stn p i bs) f)"
  using assms by (simp add: stn_in)

lemma built_st:
  assumes "R \<le> length p" "\<And>q. R \<le> length q \<Longrightarrow> built R s (f q)"
  shows "i + 2 \<le> R \<Longrightarrow> built R s (Option.bind (st16 p i v) f)" "i + 4 \<le> R \<Longrightarrow> built R s (Option.bind (st32 p i w) f)"
  using assms by (simp_all add: mem_simps)

lemma built_ld:
  assumes "R \<le> length p"
  shows "i < R \<Longrightarrow> (\<And>v. built R s (f8 v)) \<Longrightarrow> built R s (Option.bind (ld8 p i) f8)"
    "i + 2 \<le> R \<Longrightarrow> (\<And>v. built R s (f16 v)) \<Longrightarrow> built R s (Option.bind (ld16 p i) f16)"
    "i + 4 \<le> R \<Longrightarrow> (\<And>v. built R s (f32 v)) \<Longrightarrow> built R s (Option.bind (ld32 p i) f32)"
  using assms by (simp_all add: mem_simps)

lemma built_ldn: "i + n \<le> length p \<Longrightarrow> (\<And>bs. length bs = n \<Longrightarrow> built R s (f bs)) \<Longrightarrow> built R s (Option.bind (ldn p i n) f)"
  by (simp add: ldn_in)

lemmas built_intros = built_done built_store built_st built_ld built_ldn

definition server_ok :: "rule_controller \<Rightarrow> u8 \<Rightarrow> bool" where
  "server_ok rc i \<longleftrightarrow> (\<exists>si. lookup_backend_server_info i rc = Some si \<and> length (si_mac si) = 6)"

text \<open>A received packet with all its headers, that fits into the buffers.\<close>

definition recv_ok :: "nat \<Rightarrow> mbuf \<Rightarrow> bool" where
  "recv_ok R m \<longleftrightarrow> 54 \<le> unat (mb_data_len m) \<and> unat (mb_data_len m) \<le> R \<and> unat (mb_data_len m) \<le> length (mb_data m)"

lemma server_okE:
  assumes "server_ok rc i" obtains si where "lookup_backend_server_info i rc = Some si" "length (si_mac si) = 6"
  using assms by (auto simp: server_ok_def)

lemma builds_forward_inbound:
  assumes "recv_ok R m" "server_ok rc i"
  shows "builds R (forward_inbound_pkt rc i m)"
proof (rule buildsI)
  fix s :: mbuf assume R: "R \<le> length (mb_data s)"
  obtain si where "lookup_backend_server_info i rc = Some si" "length (si_mac si) = 6" using assms(2) by (rule server_okE)
  then show "built R s (forward_inbound_pkt rc i m s)"
    using assms(1) R unfolding forward_inbound_pkt_def recv_ok_def by (auto intro!: built_intros)
qed

lemma builds_forward_outbound:
  assumes "recv_ok R m" "length (si_mac (get_virtual_server_info rc)) = 6"
  shows "builds R (forward_outbound_pkt rc m)"
  using assms unfolding forward_outbound_pkt_def recv_ok_def Let_def by (auto intro!: buildsI built_intros)

lemma builds_reply_rst: "54 \<le> R \<Longrightarrow> 54 \<le> length (mb_data m) \<Longrightarrow> builds R (reply_rst_pkt m)"
  unfolding reply_rst_pkt_def Let_def by (auto intro!: buildsI built_intros)

lemma builds_send_rst:
  assumes "54 \<le> R" "54 \<le> length (mb_data m)" "server_ok rc i"
  shows "builds R (send_rst_pkt rc i m)"
proof (rule buildsI)
  fix s :: mbuf assume R: "R \<le> length (mb_data s)"
  obtain si where "lookup_backend_server_info i rc = Some si" "length (si_mac si) = 6" using assms(3) by (rule server_okE)
  then show "built R s (send_rst_pkt rc i m s)"
    using assms(1,2) R unfolding send_rst_pkt_def by (auto intro!: built_intros)
qed

lemma builds_send_cached:
  assumes "54 \<le> length b" "length b \<le> R" "server_ok rc i"
  shows "builds R (send_cached_pkt rc i b (length b))"
proof (rule buildsI)
  fix s :: mbuf assume R: "R \<le> length (mb_data s)"
  obtain si where "lookup_backend_server_info i rc = Some si" "length (si_mac si) = 6" using assms(3) by (rule server_okE)
  then show "built R s (send_cached_pkt rc i b (length b) s)"
    using assms(1,2) R unfolding send_cached_pkt_def by (auto intro!: built_intros)
qed

lemma builds_send_syn:
  assumes "66 \<le> R" "66 \<le> length (mb_data m)" "server_ok rc i"
  shows "builds R (send_syn_pkt rc i m)"
proof (rule buildsI)
  fix s :: mbuf assume R: "R \<le> length (mb_data s)"
  obtain si where "lookup_backend_server_info i rc = Some si" "length (si_mac si) = 6" using assms(3) by (rule server_okE)
  then show "built R s (send_syn_pkt rc i m s)"
    using assms(1,2) R unfolding send_syn_pkt_def by (auto intro!: built_intros)
qed

end
