(* ===== verification/Pkt_Crc.thy ===== *)
theory Pkt_Crc
  imports Miresga_Prelude
begin

text \<open>
  The CRC-8 of \<open>src/Frontend/subprojects/pkt_processor/pkt_processor.cpp\<close>: the table that
  \<open>init_static_variable\<close> fills and \<open>calculate_crc8\<close>, which selects the hash map of a connection with it;
  and the CRC as the shift register of the polynomial \<open>x^8 + x^2 + x + 1\<close> that the table stands for.
\<close>

section \<open>The code\<close>

text \<open>One round of the inner loop over \<open>j\<close>, on an 8-bit \<open>crc\<close>.\<close>

definition crc8_shift :: "u8 \<Rightarrow> u8" where
  "crc8_shift crc = (if crc AND 0x80 \<noteq> 0 then push_bit 1 crc XOR 0x07 else push_bit 1 crc)"

fun crc8_loop :: "nat \<Rightarrow> u8 \<Rightarrow> u8" where
  "crc8_loop 0 crc = crc"
| "crc8_loop (Suc j) crc = crc8_loop j (crc8_shift crc)"

definition crc8_table :: "u8 list" where
  "crc8_table = map (\<lambda>i. crc8_loop 8 (word_of_nat i)) [0..<256]"

definition calculate_crc8 :: "u8 list \<Rightarrow> u32 \<Rightarrow> u16 \<Rightarrow> u8" where
  "calculate_crc8 tab ip port =
     (let crc = 0;
          crc = tab ! unat (crc XOR ucast (ip AND 0xff) :: u8);
          crc = tab ! unat (crc XOR ucast (drop_bit 8 ip AND 0xff) :: u8);
          crc = tab ! unat (crc XOR ucast (drop_bit 16 ip AND 0xff) :: u8);
          crc = tab ! unat (crc XOR ucast (drop_bit 24 ip AND 0xff) :: u8);
          crc = tab ! unat (crc XOR ucast (port AND 0xff) :: u8);
          crc = tab ! unat (crc XOR ucast (drop_bit 8 port) :: u8)
      in crc)"

section \<open>The shift register\<close>

text \<open>One bit of the message enters at the top of the register; the bits of a byte come highest first.\<close>

definition crc8_bit :: "u8 \<Rightarrow> bool \<Rightarrow> u8" where
  "crc8_bit reg b = push_bit 1 reg XOR (if bit reg 7 \<noteq> b then 0x07 else 0)"

definition crc8_bits :: "u8 \<Rightarrow> bool list" where
  "crc8_bits d = map (bit d) [7, 6, 5, 4, 3, 2, 1, 0]"

definition crc8 :: "bytes \<Rightarrow> u8" where
  "crc8 bs = fold (\<lambda>b reg. crc8_bit reg b) (concat (map crc8_bits bs)) 0"

lemma and_0x80: "(crc AND 0x80 \<noteq> 0) = bit crc 7" for crc :: u8
proof -
  have "(0x80 :: u8) = push_bit 7 1" by simp
  then show ?thesis by (metis and_exp_eq_0_iff_not_bit push_bit_of_1)
qed

lemma crc8_shift_eq: "crc8_shift crc = crc8_bit crc False"
  by (simp add: crc8_shift_def crc8_bit_def and_0x80)

text \<open>The table works on the register with a whole byte added to it; the part not shifted in yet stays on top.\<close>

lemma crc8_shift_xor:
  assumes "k \<le> 7"
  shows "crc8_shift (reg XOR push_bit k d) = crc8_bit reg (bit d (7 - k)) XOR push_bit (Suc k) d"
proof -
  have "bit (reg XOR push_bit k d) 7 = (bit reg 7 \<noteq> bit d (7 - k))"
    using assms by (auto simp: bit_xor_iff bit_push_bit_iff)
  then show ?thesis
    by (auto simp: crc8_shift_eq crc8_bit_def push_bit_xor xor.assoc xor.left_commute xor.commute)
qed

lemma crc8_loop_xor:
  "k + j = 8 \<Longrightarrow> crc8_loop j (reg XOR push_bit k d) = fold (\<lambda>b reg. crc8_bit reg b) (map (bit d) (rev [0..<j])) reg XOR push_bit 8 d"
proof (induction j arbitrary: k reg)
  case (Suc j)
  then have "7 - k = j" "k \<le> 7" by simp_all
  then show ?case using Suc.IH [of "Suc k" "crc8_bit reg (bit d j)"] Suc.prems by (simp add: crc8_shift_xor)
qed simp

lemma crc8_byte: "crc8_loop 8 (reg XOR d) = fold (\<lambda>b reg. crc8_bit reg b) (crc8_bits d) reg"
proof -
  have "push_bit 8 d = 0" by (rule bit_eqI) (auto simp: bit_push_bit_iff dest: bit_imp_le_length)
  moreover have "rev [0..<8] = [7, 6, 5, 4, 3, 2, 1, 0 :: nat]" by (simp add: upt_rec)
  ultimately show ?thesis using crc8_loop_xor [of 0 8 reg d] by (simp add: crc8_bits_def del: upt_rec_numeral)
qed

lemma crc8_table_nth: "crc8_table ! unat x = crc8_loop 8 x"
  by (simp add: crc8_table_def del: upt_rec_numeral)

lemma unat_drop_bit: "unat (drop_bit n w) = unat w div 2 ^ n"
  by (simp add: unsigned_drop_bit_eq take_bit_nat_eq_self flip: drop_bit_eq_div)

lemma byte_at_drop_bit: "ucast (drop_bit (8 * k) w AND 0xff) = byte_at k w" for w :: "'a::len word"
proof -
  have "unat (ucast (drop_bit (8 * k) w AND 0xff) :: u8) = unat w div 256 ^ k mod 256"
  proof -
    have m: "(0xff :: 'a word) = mask 8" by (simp add: mask_eq_exp_minus_1)
    show ?thesis
      by (simp add: m unsigned_ucast_eq unsigned_take_bit_eq flip: take_bit_eq_mask) (simp only: unat_drop_bit take_bit_eq_mod power_mult, simp)
  qed
  then show ?thesis by (simp add: word_unat_eq_iff unat_byte_at)
qed

text \<open>
  (C24) The table-driven \<open>calculate_crc8\<close> is the CRC-8 with polynomial 0x07 of the six bytes of address and port,
  in the order in which they stand in the packet.
\<close>

theorem calculate_crc8_spec: "calculate_crc8 crc8_table ip port = crc8 (bytes32 ip @ bytes16 port)"
proof -
  have ip: "ucast (ip AND 0xff) = byte_at 0 ip" "ucast (drop_bit 8 ip AND 0xff) = byte_at 1 ip"
      "ucast (drop_bit 16 ip AND 0xff) = byte_at 2 ip" "ucast (drop_bit 24 ip AND 0xff) = byte_at 3 ip"
      "ucast (port AND 0xff) = byte_at 0 port"
    using byte_at_drop_bit [of 0 ip] byte_at_drop_bit [of 1 ip] byte_at_drop_bit [of 2 ip] byte_at_drop_bit [of 3 ip]
      byte_at_drop_bit [of 0 port] by simp_all
  have "unat port div 256 < 256" using unat_u16_lt [of port] by linarith
  then have "unat (ucast (drop_bit 8 port) :: u8) = unat (byte_at 1 port)"
    by (simp only: unat_byte_at unsigned_ucast_eq unat_drop_bit take_bit_eq_mod) simp
  then have "ucast (drop_bit 8 port) = byte_at 1 port" by (rule word_unat_eq_iff [THEN iffD2])
  then show ?thesis
    unfolding calculate_crc8_def Let_def ip crc8_table_nth crc8_byte by (simp add: crc8_def bytes32_def bytes16_def)
qed

end
