(* ===== verification/Pkt_Processor.thy ===== *)
theory Pkt_Processor
  imports Pkt_Build Pkt_Crc
begin

text \<open>
  \<open>process_pkts\<close> of \<open>src/Frontend/subprojects/pkt_processor/pkt_processor.cpp\<close>: the state machine of a
  client connection.  The first request of a client is answered with a SYN to the server that its rule names;
  when the server answers, the cached request is sent and the connection is offloaded to the switch or kept;
  a request for another server moves the connection there; FIN and RST end it.
\<close>

section \<open>State\<close>

datatype flow_state = INIT | BACKEND_SYN | OFFLOAD | COMPLETE

text \<open>The buffer behind \<open>recv_pkt\<close> belongs to one object, so it is part of it.\<close>

record flow_data =
  fd_state :: flow_state
  fd_entry_data :: my_data
  fd_recv_pkt :: "bytes option"
  fd_pkt_size :: nat

text \<open>
  What is not part of the repository, as a parameter: the 256 hash maps of connections (\<open>libcuckoo\<close>), which hold
  pointers; the two queues to the entry controller; the allocator and the packet buffers of DPDK.  A failed
  allocation is \<open>None\<close>.  The calls that \<open>process_pkts\<close> makes act on an abstract state.
\<close>

record 's fe_env =
  flow_find :: "u8 \<Rightarrow> u64 \<Rightarrow> 's \<Rightarrow> nat option"
  flow_insert :: "u8 \<Rightarrow> u64 \<Rightarrow> nat \<Rightarrow> 's \<Rightarrow> 's"
  flow_erase :: "u8 \<Rightarrow> u64 \<Rightarrow> 's \<Rightarrow> 's"
  add_enqueue :: "my_pair \<Rightarrow> 's \<Rightarrow> 's"
  del_enqueue :: "my_key \<Rightarrow> 's \<Rightarrow> 's"
  rte_malloc_flow :: "(nat, 's) call"
  rte_free_flow :: "nat \<Rightarrow> 's \<Rightarrow> 's"
  rte_malloc_buf :: "nat \<Rightarrow> (unit, 's) call"
  rte_free_buf :: "bytes \<Rightarrow> 's \<Rightarrow> 's"
  rte_pktmbuf_alloc_bulk :: "nat \<Rightarrow> (mbuf list, 's) call"
  rte_pktmbuf_free_bulk :: "mbuf list \<Rightarrow> 's \<Rightarrow> 's"
  rte_eth_rx_burst :: "nat \<Rightarrow> nat \<Rightarrow> 's \<Rightarrow> mbuf list \<times> 's"
  rte_eth_tx_burst :: "nat \<Rightarrow> mbuf list \<Rightarrow> 's \<Rightarrow> nat \<times> 's"

text \<open>The state: the \<open>flow_data_t\<close> objects by address, and the state behind the calls.\<close>

record 's proc =
  flows :: "nat \<rightharpoonup> flow_data"
  dev :: 's

definition on_dev :: "('s \<Rightarrow> 's) \<Rightarrow> 's proc \<Rightarrow> 's proc" where
  "on_dev f st = st\<lparr>dev := f (dev st)\<rparr>"

text \<open>The packets to be sent: the allocated buffers and the number already filled.\<close>

type_synonym send_bufs = "mbuf list \<times> nat"

text \<open>An iteration ends the function (\<open>return status\<close>) or goes on with the send buffers.\<close>

type_synonym 's iteration = "(status + send_bufs, 's proc) prog"

section \<open>One packet\<close>

text \<open>The fields of the headers that the code looks at; addresses, ports and the sequence number as they stand in memory.\<close>

record pkt_hdr =
  h_src_addr :: u32
  h_dst_addr :: u32
  h_src_port :: u16
  h_dst_port :: u16
  h_sent_seq :: u32
  h_data_off :: u8
  h_flags :: u8
  h_total_length :: u16

text \<open>\<open>None\<close> is an access outside the packet, \<open>Some None\<close> a packet that is not TCP over IPv4.\<close>

definition parse_hdr :: "mbuf \<Rightarrow> pkt_hdr option option" where
  "parse_hdr m = do {
     ether_type \<leftarrow> ld16 (mb_data m) 12;
     if ether_type \<noteq> bswap16 0x0800 then Some None
     else do {
       next_proto_id \<leftarrow> ld8 (mb_data m) 23;
       if next_proto_id \<noteq> 6 then Some None
       else do {
         data_off \<leftarrow> ld8 (mb_data m) 46;
         total_length \<leftarrow> ld16 (mb_data m) 16;
         src_addr \<leftarrow> ld32 (mb_data m) 26;
         src_port \<leftarrow> ld16 (mb_data m) 34;
         dst_addr \<leftarrow> ld32 (mb_data m) 30;
         dst_port \<leftarrow> ld16 (mb_data m) 36;
         tcp_flags \<leftarrow> ld8 (mb_data m) 47;
         sent_seq \<leftarrow> ld32 (mb_data m) 38;
         Some (Some \<lparr>h_src_addr = src_addr, h_dst_addr = dst_addr, h_src_port = src_port, h_dst_port = dst_port,
           h_sent_seq = sent_seq, h_data_off = data_off, h_flags = tcp_flags, h_total_length = bswap16 total_length\<rparr>)
       }
     }
   }"

definition header_size :: "pkt_hdr \<Rightarrow> u16" where
  "header_size h = 20 + ucast (drop_bit 4 (h_data_off h)) * 4"

definition payload_flag :: "pkt_hdr \<Rightarrow> bool" where
  "payload_flag h \<longleftrightarrow> header_size h < h_total_length h"

definition has_flag :: "u8 \<Rightarrow> pkt_hdr \<Rightarrow> bool" where
  "has_flag fl h \<longleftrightarrow> h_flags h AND fl \<noteq> 0"

text \<open>The keys of an endpoint: of the hash map, and of the offload table (in host byte order).\<close>

definition conn_key :: "u32 \<Rightarrow> u16 \<Rightarrow> u64" where
  "conn_key ip port = push_bit 32 (ucast ip) + ucast port"

definition conn_my_key :: "u8 \<Rightarrow> u32 \<Rightarrow> u16 \<Rightarrow> my_key" where
  "conn_my_key crc ip port = \<lparr>mk_crc = crc, mk_client_ip = bswap32 ip, mk_client_port = bswap16 port\<rparr>"

text \<open>Filling \<open>send_pkts[send_size]\<close>: a status other than \<open>OK\<close> ends the function.\<close>

definition send_one :: "(mbuf \<Rightarrow> (status \<times> mbuf) option) \<Rightarrow> send_bufs \<Rightarrow> (send_bufs \<Rightarrow> 's iteration) \<Rightarrow> 's iteration" where
  "send_one build = (\<lambda>(send_pkts, send_size) k.
     if send_size < length send_pkts then
       (case build (send_pkts ! send_size) of
          None \<Rightarrow> crash
        | Some (status, m) \<Rightarrow>
            if status = OK then k (send_pkts[send_size := m], send_size + 1) else ret (Inl status))
     else crash)"

definition next_pkt :: "send_bufs \<Rightarrow> 's iteration" where
  "next_pkt sb = ret (Inr sb)"

text \<open>The end of a connection: \<open>erase\<close>, and both objects are freed.\<close>

definition free_flow :: "'s fe_env \<Rightarrow> nat \<Rightarrow> flow_data \<Rightarrow> 's proc \<Rightarrow> 's proc" where
  "free_flow E p fd st =
     (let st = (case fd_recv_pkt fd of None \<Rightarrow> st | Some b \<Rightarrow> on_dev (rte_free_buf E b) st)
      in on_dev (rte_free_flow E p) (st\<lparr>flows := (flows st)(p := None)\<rparr>))"

definition close_flow :: "'s fe_env \<Rightarrow> u8 \<Rightarrow> u64 \<Rightarrow> my_key \<Rightarrow> nat \<Rightarrow> flow_data \<Rightarrow> 's proc \<Rightarrow> 's proc" where
  "close_flow E crc key my_key p fd st =
     (let st = (if fd_state fd = OFFLOAD then on_dev (del_enqueue E my_key) st else st);
          st = on_dev (flow_erase E crc key) st
      in free_flow E p fd st)"

definition modify :: "('s proc \<Rightarrow> 's proc) \<Rightarrow> 's iteration \<Rightarrow> 's iteration" where
  "modify f k st = k (f st)"

definition set_flow :: "nat \<Rightarrow> flow_data \<Rightarrow> 's proc \<Rightarrow> 's proc" where
  "set_flow p fd st = st\<lparr>flows := (flows st)(p \<mapsto> fd)\<rparr>"

text \<open>A copy of the received packet in a buffer of its own (\<open>memcpy\<close> into a null pointer if there is no memory).\<close>

definition cache_pkt :: "'s fe_env \<Rightarrow> mbuf \<Rightarrow> (bytes \<Rightarrow> 's iteration) \<Rightarrow> 's iteration" where
  "cache_pkt E m k st =
     (case rte_malloc_buf E (unat (mb_data_len m)) (dev st) of
        (None, d) \<Rightarrow> (Crash, st\<lparr>dev := d\<rparr>)
      | (Some _, d) \<Rightarrow>
          (case ldn (mb_data m) 0 (unat (mb_data_len m)) of
             None \<Rightarrow> (Crash, st\<lparr>dev := d\<rparr>)
           | Some b \<Rightarrow> k b (st\<lparr>dev := d\<rparr>)))"

text \<open>The received packet with its TCP flags overwritten by RST.\<close>

definition as_rst :: "mbuf \<Rightarrow> mbuf" where
  "as_rst m = m\<lparr>mb_data := patch (mb_data m) 47 [RTE_TCP_RST_FLAG]\<rparr>"

text \<open>The request of a packet with payload; \<open>url_copy\<close> is the key it is looked up with.\<close>

definition with_request :: "mbuf \<Rightarrow> pkt_hdr \<Rightarrow> (bytes \<Rightarrow> 's iteration) \<Rightarrow> 's iteration" where
  "with_request m h k =
     (case request_key (mb_data m) (34 + unat (drop_bit 4 (h_data_off h)) * 4) (unat (h_total_length h) - unat (header_size h)) of
        None \<Rightarrow> crash
      | Some url_copy \<Rightarrow> k url_copy)"

subsection \<open>From a known client\<close>

text \<open>States \<open>COMPLETE\<close> and \<open>OFFLOAD\<close>.\<close>

definition src_established ::
  "'s fe_env \<Rightarrow> rule_controller \<Rightarrow> mbuf \<Rightarrow> pkt_hdr \<Rightarrow> u8 \<Rightarrow> u64 \<Rightarrow> my_key \<Rightarrow> nat \<Rightarrow> flow_data \<Rightarrow> send_bufs \<Rightarrow> 's iteration" where
  "src_established E rc m h src_crc src_hkey src_my_key p fd sb =
     (if has_flag RTE_TCP_RST_FLAG h then
        send_one (forward_inbound_pkt rc (md_d_index (fd_entry_data fd)) m) sb (\<lambda>sb.
        modify (close_flow E src_crc src_hkey src_my_key p fd) (next_pkt sb))
      else if has_flag RTE_TCP_FIN_FLAG h then
        send_one (reply_rst_pkt m) sb (\<lambda>sb.
        send_one (forward_inbound_pkt rc (md_d_index (fd_entry_data fd)) (as_rst m)) sb (\<lambda>sb.
        modify (close_flow E src_crc src_hkey src_my_key p fd) (next_pkt sb)))
      else if payload_flag h then
        with_request m h (\<lambda>url_copy.
        case lookup_balancing_rule url_copy rc of
          None \<Rightarrow> next_pkt sb
        | Some data \<Rightarrow>
            if md_d_index data \<noteq> md_d_index (fd_entry_data fd) then
              send_one (send_rst_pkt rc (md_d_index (fd_entry_data fd)) m) sb (\<lambda>sb.
              modify (if fd_state fd = OFFLOAD then on_dev (del_enqueue E src_my_key) else id) (
              send_one (send_syn_pkt rc (md_d_index data) m) sb (\<lambda>sb.
              modify (case fd_recv_pkt fd of None \<Rightarrow> id | Some b \<Rightarrow> on_dev (rte_free_buf E b)) (
              cache_pkt E m (\<lambda>b.
              modify (set_flow p (fd\<lparr>fd_state := BACKEND_SYN, fd_entry_data := data, fd_recv_pkt := Some b,
                fd_pkt_size := unat (mb_data_len m)\<rparr>)) (next_pkt sb))))))
            else
              send_one (forward_inbound_pkt rc (md_d_index (fd_entry_data fd)) m) sb (\<lambda>sb.
              if fd_state fd = COMPLETE \<and> md_offload_flag data = 1 then
                modify (set_flow p (fd\<lparr>fd_state := OFFLOAD\<rparr>)) (
                modify (on_dev (add_enqueue E \<lparr>mp_key = src_my_key, mp_data = fd_entry_data fd\<rparr>)) (next_pkt sb))
              else if fd_state fd = OFFLOAD \<and> md_offload_flag data = 0 then
                modify (set_flow p (fd\<lparr>fd_state := COMPLETE\<rparr>)) (
                modify (on_dev (del_enqueue E src_my_key)) (next_pkt sb))
              else next_pkt sb))
      else send_one (forward_inbound_pkt rc (md_d_index (fd_entry_data fd)) m) sb next_pkt)"

text \<open>
  State \<open>BACKEND_SYN\<close>: FIN and RST free the object but leave the pointer in the hash map; the cached request
  seen again makes the SYN be sent again.
\<close>

definition src_connecting ::
  "'s fe_env \<Rightarrow> rule_controller \<Rightarrow> mbuf \<Rightarrow> pkt_hdr \<Rightarrow> nat \<Rightarrow> flow_data \<Rightarrow> send_bufs \<Rightarrow> 's iteration" where
  "src_connecting E rc m h p fd sb =
     (if has_flag RTE_TCP_FIN_FLAG h \<or> has_flag RTE_TCP_RST_FLAG h then
        send_one (reply_rst_pkt m) sb (\<lambda>sb. modify (free_flow E p fd) (next_pkt sb))
      else (case fd_recv_pkt fd of
          None \<Rightarrow> next_pkt sb
        | Some recv_pkt \<Rightarrow>
            (case ld32 recv_pkt 38 of
               None \<Rightarrow> crash
             | Some sent_seq \<Rightarrow>
                 if sent_seq = h_sent_seq h then send_one (send_syn_pkt rc (md_d_index (fd_entry_data fd)) m) sb next_pkt
                 else next_pkt sb)))"

subsection \<open>To a known client\<close>

text \<open>State \<open>BACKEND_SYN\<close>: only the SYN-ACK of the server counts.\<close>

definition dst_connecting ::
  "'s fe_env \<Rightarrow> rule_controller \<Rightarrow> pkt_hdr \<Rightarrow> my_key \<Rightarrow> nat \<Rightarrow> flow_data \<Rightarrow> send_bufs \<Rightarrow> 's iteration" where
  "dst_connecting E rc h dst_my_key p fd sb =
     (if h_flags h \<noteq> RTE_TCP_ACK_FLAG OR RTE_TCP_SYN_FLAG then next_pkt sb
      else
        modify (if md_offload_flag (fd_entry_data fd) = 1
          then on_dev (add_enqueue E \<lparr>mp_key = dst_my_key, mp_data = fd_entry_data fd\<rparr>) \<circ> set_flow p (fd\<lparr>fd_state := OFFLOAD\<rparr>)
          else set_flow p (fd\<lparr>fd_state := COMPLETE\<rparr>)) (
        case fd_recv_pkt fd of
          None \<Rightarrow> crash
        | Some recv_pkt \<Rightarrow> send_one (send_cached_pkt rc (md_d_index (fd_entry_data fd)) recv_pkt (fd_pkt_size fd)) sb next_pkt))"

text \<open>States \<open>COMPLETE\<close> and \<open>OFFLOAD\<close>.\<close>

definition dst_established ::
  "'s fe_env \<Rightarrow> rule_controller \<Rightarrow> mbuf \<Rightarrow> pkt_hdr \<Rightarrow> u8 \<Rightarrow> u64 \<Rightarrow> my_key \<Rightarrow> nat \<Rightarrow> flow_data \<Rightarrow> send_bufs \<Rightarrow> 's iteration" where
  "dst_established E rc m h dst_crc dst_hkey dst_my_key p fd sb =
     (if has_flag RTE_TCP_RST_FLAG h then
        send_one (forward_outbound_pkt rc m) sb (\<lambda>sb.
        modify (close_flow E dst_crc dst_hkey dst_my_key p fd) (next_pkt sb))
      else if has_flag RTE_TCP_FIN_FLAG h then
        send_one (reply_rst_pkt m) sb (\<lambda>sb.
        send_one (forward_outbound_pkt rc (as_rst m)) sb (\<lambda>sb.
        modify (close_flow E dst_crc dst_hkey dst_my_key p fd) (next_pkt sb)))
      else send_one (forward_outbound_pkt rc m) sb next_pkt)"

subsection \<open>From a new client\<close>

definition new_client ::
  "'s fe_env \<Rightarrow> rule_controller \<Rightarrow> mbuf \<Rightarrow> pkt_hdr \<Rightarrow> u8 \<Rightarrow> u64 \<Rightarrow> send_bufs \<Rightarrow> 's iteration" where
  "new_client E rc m h src_crc src_hkey sb =
     (if \<not> payload_flag h then next_pkt sb
      else
        with_request m h (\<lambda>url_copy.
        case lookup_balancing_rule url_copy rc of
          None \<Rightarrow> next_pkt sb
        | Some data \<Rightarrow>
            send_one (send_syn_pkt rc (md_d_index data) m) sb (\<lambda>sb st.
            case rte_malloc_flow E (dev st) of
              (None, d) \<Rightarrow> (Crash, st\<lparr>dev := d\<rparr>)
            | (Some p, d) \<Rightarrow>
                cache_pkt E m (\<lambda>b.
                modify (set_flow p \<lparr>fd_state = BACKEND_SYN, fd_entry_data = data, fd_recv_pkt = Some b,
                  fd_pkt_size = unat (mb_data_len m)\<rparr>) (
                modify (on_dev (flow_insert E src_crc src_hkey p)) (next_pkt sb))) (st\<lparr>dev := d\<rparr>))))"

subsection \<open>Dispatch\<close>

definition deref :: "nat \<Rightarrow> (flow_data \<Rightarrow> 's iteration) \<Rightarrow> 's iteration" where
  "deref p k st = (case flows st p of None \<Rightarrow> (Crash, st) | Some fd \<Rightarrow> k fd st)"

definition to_client ::
  "'s fe_env \<Rightarrow> rule_controller \<Rightarrow> mbuf \<Rightarrow> pkt_hdr \<Rightarrow> u8 \<Rightarrow> u64 \<Rightarrow> my_key \<Rightarrow> send_bufs \<Rightarrow> 's iteration \<Rightarrow> 's iteration" where
  "to_client E rc m h dst_crc dst_hkey dst_my_key sb k st =
     (case flow_find E dst_crc dst_hkey (dev st) of
        None \<Rightarrow> k st
      | Some p \<Rightarrow> deref p (\<lambda>fd.
          case fd_state fd of
            BACKEND_SYN \<Rightarrow> dst_connecting E rc h dst_my_key p fd sb
          | COMPLETE \<Rightarrow> dst_established E rc m h dst_crc dst_hkey dst_my_key p fd sb
          | OFFLOAD \<Rightarrow> dst_established E rc m h dst_crc dst_hkey dst_my_key p fd sb
          | INIT \<Rightarrow> k) st)"

definition from_client ::
  "'s fe_env \<Rightarrow> rule_controller \<Rightarrow> mbuf \<Rightarrow> pkt_hdr \<Rightarrow> u8 \<Rightarrow> u64 \<Rightarrow> my_key \<Rightarrow> send_bufs \<Rightarrow> 's iteration \<Rightarrow> 's iteration" where
  "from_client E rc m h src_crc src_hkey src_my_key sb k st =
     (case flow_find E src_crc src_hkey (dev st) of
        None \<Rightarrow> k st
      | Some p \<Rightarrow> deref p (\<lambda>fd.
          case fd_state fd of
            COMPLETE \<Rightarrow> src_established E rc m h src_crc src_hkey src_my_key p fd sb
          | OFFLOAD \<Rightarrow> src_established E rc m h src_crc src_hkey src_my_key p fd sb
          | BACKEND_SYN \<Rightarrow> src_connecting E rc m h p fd sb
          | INIT \<Rightarrow> k) st)"

text \<open>\<open>tab\<close> is the static \<open>crc8_table\<close>.\<close>

definition process_pkt :: "'s fe_env \<Rightarrow> u8 list \<Rightarrow> rule_controller \<Rightarrow> mbuf \<Rightarrow> send_bufs \<Rightarrow> 's iteration" where
  "process_pkt E tab rc m sb =
     (case parse_hdr m of
        None \<Rightarrow> crash
      | Some None \<Rightarrow> next_pkt sb
      | Some (Some h) \<Rightarrow>
          (let src_crc = calculate_crc8 tab (h_src_addr h) (h_src_port h);
               dst_crc = calculate_crc8 tab (h_dst_addr h) (h_dst_port h);
               src_hkey = conn_key (h_src_addr h) (h_src_port h);
               dst_hkey = conn_key (h_dst_addr h) (h_dst_port h);
               src_my_key = conn_my_key src_crc (h_src_addr h) (h_src_port h);
               dst_my_key = conn_my_key dst_crc (h_dst_addr h) (h_dst_port h)
           in from_client E rc m h src_crc src_hkey src_my_key sb (
              to_client E rc m h dst_crc dst_hkey dst_my_key sb (
              new_client E rc m h src_crc src_hkey sb))))"

section \<open>A burst of packets\<close>

fun process_loop :: "'s fe_env \<Rightarrow> u8 list \<Rightarrow> rule_controller \<Rightarrow> mbuf list \<Rightarrow> send_bufs \<Rightarrow> 's iteration" where
  "process_loop E tab rc [] sb = ret (Inr sb)"
| "process_loop E tab rc (m # ms) sb =
     seq (process_pkt E tab rc m sb) (\<lambda>r.
     case r of Inl status \<Rightarrow> ret (Inl status) | Inr sb \<Rightarrow> process_loop E tab rc ms sb)"

text \<open>An early return leaves the allocated send buffers behind.\<close>

definition process_pkts :: "'s fe_env \<Rightarrow> u8 list \<Rightarrow> nat \<Rightarrow> rule_controller \<Rightarrow> mbuf list \<Rightarrow> (status, 's proc) prog" where
  "process_pkts E tab queue_id rc recv_pkts st =
     (case rte_pktmbuf_alloc_bulk E (2 * length recv_pkts) (dev st) of
        (None, d) \<Rightarrow> (Ret INTERNAL_ERROR, st\<lparr>dev := d\<rparr>)
      | (Some send_pkts, d) \<Rightarrow>
          seq (process_loop E tab rc recv_pkts (send_pkts, 0)) (\<lambda>r.
          case r of
            Inl status \<Rightarrow> ret status
          | Inr (send_pkts, send_size) \<Rightarrow> (\<lambda>st.
              let (sent, d) = rte_eth_tx_burst E queue_id (take send_size send_pkts) (dev st);
                  d = rte_pktmbuf_free_bulk E (drop send_size send_pkts) d
              in (Ret (if sent \<noteq> send_size then INTERNAL_ERROR else OK), st\<lparr>dev := d\<rparr>))) (st\<lparr>dev := d\<rparr>))"

end
