(* ===== verification/Pkt_Worker.thy ===== *)
theory Pkt_Worker
  imports Pkt_Processor "HOL-Library.Sublist"
begin

text \<open>
  The rest of \<open>src/Frontend/subprojects/pkt_processor/pkt_processor.cpp\<close>: the set-up of the network card in
  \<open>init_static_variable\<close>, the objects for the workers, and the loop of a worker.
\<close>

section \<open>The network card\<close>

record dpdk_config =
  dc_pci_addr :: string
  dc_rx_ring_size :: u32
  dc_tx_ring_size :: u32
  dc_num_mbufs :: u32
  dc_mbuf_cache_size :: u32
  dc_mbuf_data_room_size :: u32
  dc_burst_size :: u32
  dc_queue_size :: u32

datatype eth_offload = RTE_ETH_RX_OFFLOAD_CHECKSUM | RTE_ETH_TX_OFFLOAD_IPV4_CKSUM | RTE_ETH_TX_OFFLOAD_TCP_CKSUM
datatype rss_field = RTE_ETH_RSS_IP | RTE_ETH_RSS_TCP
datatype rx_mq_mode = RTE_ETH_MQ_RX_NONE | RTE_ETH_MQ_RX_RSS

record eth_conf =
  rxmode_offloads :: "eth_offload set"
  txmode_offloads :: "eth_offload set"
  rxmode_mq_mode :: rx_mq_mode
  rss_hf :: "rss_field set"

text \<open>Of the configuration of a send queue only the offloads are changed; what else it holds is not looked at.\<close>

record eth_txconf =
  tx_offloads :: "eth_offload set"
  tx_other :: bytes

record dev_info =
  default_rxconf :: bytes
  default_txconf :: eth_txconf

text \<open>The calls of DPDK, as a parameter; a negative result or a null pointer is \<open>None\<close>.\<close>

record 's dpdk =
  rte_eal_init :: "(unit, 's) call"
  rte_pktmbuf_pool_create :: "u32 \<Rightarrow> u32 \<Rightarrow> u16 \<Rightarrow> (hdl, 's) call"
  rte_eth_dev_get_port_by_name :: "string \<Rightarrow> (u16, 's) call"
  rte_eth_dev_configure :: "u16 \<Rightarrow> u16 \<Rightarrow> u16 \<Rightarrow> eth_conf \<Rightarrow> (unit, 's) call"
  rte_eth_dev_info_get :: "u16 \<Rightarrow> (dev_info, 's) call"
  rte_eth_rx_queue_setup :: "u16 \<Rightarrow> u16 \<Rightarrow> u16 \<Rightarrow> bytes \<Rightarrow> hdl \<Rightarrow> (unit, 's) call"
  rte_eth_tx_queue_setup :: "u16 \<Rightarrow> u16 \<Rightarrow> u16 \<Rightarrow> eth_txconf \<Rightarrow> (unit, 's) call"
  rte_eth_promiscuous_enable :: "u16 \<Rightarrow> (unit, 's) call"
  rte_eth_dev_start :: "u16 \<Rightarrow> (unit, 's) call"
  rte_eal_remote_launch :: "nat \<Rightarrow> int \<Rightarrow> 's \<Rightarrow> 's"
  rte_eal_wait_workers :: "'s \<Rightarrow> 's"
  rte_eth_stats_get :: "u16 \<Rightarrow> (unit, 's) call"

text \<open>The static members of \<open>pkt_processor_t\<close>; a pointer to an object that \<open>main\<close> owns is its handle.\<close>

record statics =
  ps_crc8_table :: "u8 list"
  ps_flow_hash_map :: "hdl option"
  ps_mbuf_pool :: "hdl option"
  ps_add_queue :: "hdl option"
  ps_del_queue :: "hdl option"
  ps_port_id :: u16
  ps_rule_controller :: "hdl option"
  ps_dpdk_config :: "dpdk_config option"

definition statics_init :: statics where
  "statics_init = \<lparr>ps_crc8_table = replicate 256 0, ps_flow_hash_map = None, ps_mbuf_pool = None, ps_add_queue = None, ps_del_queue = None,
     ps_port_id = 0, ps_rule_controller = None, ps_dpdk_config = None\<rparr>"

definition port_conf :: eth_conf where
  "port_conf = \<lparr>rxmode_offloads = {RTE_ETH_RX_OFFLOAD_CHECKSUM}, txmode_offloads = {RTE_ETH_TX_OFFLOAD_IPV4_CKSUM, RTE_ETH_TX_OFFLOAD_TCP_CKSUM},
     rxmode_mq_mode = RTE_ETH_MQ_RX_RSS, rss_hf = {RTE_ETH_RSS_IP, RTE_ETH_RSS_TCP}\<rparr>"

text \<open>A failed call ends the function; what has been assigned so far stays.\<close>

definition attempt :: "('a, 's) call \<Rightarrow> statics \<Rightarrow> ('a \<Rightarrow> (status \<times> statics, 's) prog) \<Rightarrow> (status \<times> statics, 's) prog" where
  "attempt c st k s = (case c s of (None, s) \<Rightarrow> (Ret (INTERNAL_ERROR, st), s) | (Some x, s) \<Rightarrow> k x s)"

fun setup_queues ::
  "'s dpdk \<Rightarrow> hdl \<Rightarrow> bytes \<Rightarrow> eth_txconf \<Rightarrow> statics \<Rightarrow> nat list \<Rightarrow> (status \<times> statics, 's) prog \<Rightarrow> (status \<times> statics, 's) prog" where
  "setup_queues D pool rxconf txconf st [] k = k"
| "setup_queues D pool rxconf txconf st (i # is) k =
     attempt (rte_eth_rx_queue_setup D (ps_port_id st) (word_of_nat i) 2048 rxconf pool) st (\<lambda>_.
     attempt (rte_eth_tx_queue_setup D (ps_port_id st) (word_of_nat i) 2048 txconf) st (\<lambda>_.
     setup_queues D pool rxconf txconf st is k))"

text \<open>The configuration of the port, of its queues, and its start.\<close>

definition setup_port :: "'s dpdk \<Rightarrow> dpdk_config \<Rightarrow> hdl \<Rightarrow> statics \<Rightarrow> (status \<times> statics, 's) prog" where
  "setup_port D cfg pool st =
     (let port = ps_port_id st in
      attempt (rte_eth_dev_configure D port (ucast (dc_queue_size cfg)) (ucast (dc_queue_size cfg)) port_conf) st (\<lambda>_.
      attempt (rte_eth_dev_info_get D port) st (\<lambda>dev_info.
      let txconf = default_txconf dev_info;
          txconf = txconf\<lparr>tx_offloads := tx_offloads txconf \<union> {RTE_ETH_TX_OFFLOAD_IPV4_CKSUM, RTE_ETH_TX_OFFLOAD_TCP_CKSUM}\<rparr> in
      setup_queues D pool (default_rxconf dev_info) txconf st [0..<unat (dc_queue_size cfg)] (
      attempt (rte_eth_promiscuous_enable D port) st (\<lambda>_.
      attempt (rte_eth_dev_start D port) st (\<lambda>_.
      ret (OK, st)))))))"

definition init_static_variable ::
  "'s dpdk \<Rightarrow> dpdk_config \<Rightarrow> hdl \<Rightarrow> hdl \<Rightarrow> hdl \<Rightarrow> hdl \<Rightarrow> statics \<Rightarrow> (status \<times> statics, 's) prog" where
  "init_static_variable D cfg rule_controller add_queue del_queue flow_hash_map st =
     (let st = st\<lparr>ps_add_queue := Some add_queue, ps_del_queue := Some del_queue, ps_flow_hash_map := Some flow_hash_map,
            ps_crc8_table := crc8_table, ps_rule_controller := Some rule_controller, ps_dpdk_config := Some cfg\<rparr> in
      attempt (rte_eal_init D) st (\<lambda>_.
      attempt (rte_pktmbuf_pool_create D (dc_num_mbufs cfg) (dc_mbuf_cache_size cfg) (ucast (dc_mbuf_data_room_size cfg))) (st\<lparr>ps_mbuf_pool := None\<rparr>) (\<lambda>pool.
      let st = st\<lparr>ps_mbuf_pool := Some pool\<rparr> in
      attempt (rte_eth_dev_get_port_by_name D (dc_pci_addr cfg)) st (\<lambda>port.
      setup_port D cfg pool (st\<lparr>ps_port_id := port\<rparr>)))))"

section \<open>Workers\<close>

record worker =
  w_queue_id :: nat
  w_exit_flag :: bool
  w_status :: status

text \<open>The constructor makes tokens of the two queues, which must exist.\<close>

definition pkt_processor_new :: "statics \<Rightarrow> nat \<Rightarrow> worker option" where
  "pkt_processor_new st queue_id =
     (if ps_add_queue st = None \<or> ps_del_queue st = None then None
      else Some \<lparr>w_queue_id = queue_id, w_exit_flag = True, w_status = INTERNAL_ERROR\<rparr>)"

text \<open>\<open>run\<close> starts \<open>worker_fun\<close> on a core (by \<open>worker_run_warpper\<close>); the result of the launch is not looked at.\<close>

definition run :: "'s dpdk \<Rightarrow> int \<Rightarrow> worker \<Rightarrow> 's \<Rightarrow> worker \<times> 's" where
  "run D core_id w s = (w\<lparr>w_exit_flag := False\<rparr>, rte_eal_remote_launch D (w_queue_id w) core_id s)"

definition stop :: "'s dpdk \<Rightarrow> worker \<Rightarrow> 's \<Rightarrow> worker \<times> 's" where
  "stop D w s = (w\<lparr>w_exit_flag := True\<rparr>, rte_eal_wait_workers D s)"

text \<open>One turn of the loop: a burst is received, processed, and its buffers are freed; an error is only reported.\<close>

definition worker_turn :: "'s fe_env \<Rightarrow> statics \<Rightarrow> rule_controller \<Rightarrow> nat \<Rightarrow> worker \<Rightarrow> (worker, 's proc) prog" where
  "worker_turn E ss rc burst_size w st =
     (let (recv_pkts, d) = rte_eth_rx_burst E (w_queue_id w) burst_size (dev st); st = st\<lparr>dev := d\<rparr> in
      if recv_pkts = [] then (Ret w, st)
      else seq (process_pkts E (ps_crc8_table ss) (w_queue_id w) rc recv_pkts) (\<lambda>status st.
        (Ret (w\<lparr>w_status := status\<rparr>), on_dev (rte_pktmbuf_free_bulk E recv_pkts) st)) st)"

text \<open>
  The loop, given what it finds in \<open>exit_flag\<close> each time, which another thread sets; with the list used up, the
  loop has not ended yet.
\<close>

fun worker_fun :: "'s fe_env \<Rightarrow> statics \<Rightarrow> rule_controller \<Rightarrow> nat \<Rightarrow> bool list \<Rightarrow> worker \<Rightarrow> (worker, 's proc) prog" where
  "worker_fun E ss rc burst_size [] w = ret w"
| "worker_fun E ss rc burst_size (exit_flag # flags) w =
     (if exit_flag then ret w else seq (worker_turn E ss rc burst_size w) (worker_fun E ss rc burst_size flags))"

section \<open>The end\<close>

text \<open>
  \<open>destroy_static_variable\<close>, which nothing in the program calls.  Its calls are a parameter; no result is looked at.
  \<open>flow_entries\<close> are the pointers that the iteration over one of the 256 maps finds.
\<close>

record 's fe_teardown =
  flow_entries :: "u8 \<Rightarrow> 's \<Rightarrow> nat list"
  flow_clear :: "u8 \<Rightarrow> 's \<Rightarrow> 's"
  rte_mempool_free :: "hdl option \<Rightarrow> 's \<Rightarrow> 's"
  dev_queues :: "u16 \<Rightarrow> 's \<Rightarrow> (u16 \<times> u16) \<times> 's"
  rte_eth_dev_rx_queue_stop :: "u16 \<Rightarrow> u16 \<Rightarrow> 's \<Rightarrow> 's"
  rte_eth_dev_tx_queue_stop :: "u16 \<Rightarrow> u16 \<Rightarrow> 's \<Rightarrow> 's"
  rte_eth_dev_stop :: "u16 \<Rightarrow> 's \<Rightarrow> 's"
  rte_eth_dev_close :: "u16 \<Rightarrow> 's \<Rightarrow> 's"
  rte_eal_cleanup :: "'s \<Rightarrow> 's"

definition destroy_flow :: "'s fe_env \<Rightarrow> nat \<Rightarrow> unit \<Rightarrow> (unit, 's proc) prog" where
  "destroy_flow E p _ st = (case flows st p of None \<Rightarrow> (Crash, st) | Some fd \<Rightarrow> (Ret (), free_flow E p fd st))"

definition destroy_map :: "'s fe_env \<Rightarrow> 's fe_teardown \<Rightarrow> u8 \<Rightarrow> unit \<Rightarrow> (unit, 's proc) prog" where
  "destroy_map E T i _ st =
     seq (for_each (destroy_flow E) (flow_entries T i (dev st)) ()) (\<lambda>_ st. (Ret (), on_dev (flow_clear T i) st)) st"

definition destroy_static_variable :: "'s fe_env \<Rightarrow> 's fe_teardown \<Rightarrow> statics \<Rightarrow> (unit, 's proc) prog" where
  "destroy_static_variable E T ss =
     seq (for_each (destroy_map E T) (map word_of_nat [0..<256]) ()) (\<lambda>_ st.
     let d = rte_mempool_free T (ps_mbuf_pool ss) (dev st);
         ((nb_rx_queues, nb_tx_queues), d) = dev_queues T (ps_port_id ss) d;
         d = fold (\<lambda>q. rte_eth_dev_rx_queue_stop T (ps_port_id ss) (word_of_nat q)) [0..<unat nb_rx_queues] d;
         d = fold (\<lambda>q. rte_eth_dev_tx_queue_stop T (ps_port_id ss) (word_of_nat q)) [0..<unat nb_tx_queues] d;
         d = rte_eth_dev_stop T (ps_port_id ss) d;
         d = rte_eth_dev_close T (ps_port_id ss) d
     in (Ret (), st\<lparr>dev := rte_eal_cleanup T d\<rparr>))"

section \<open>The order of the set-up\<close>

datatype dpdk_call =
    Eal_Init
  | Pool_Create u32 u32 u16
  | Get_Port string
  | Configure u16 u16 u16 eth_conf
  | Info_Get u16
  | Rx_Queue_Setup u16 u16
  | Tx_Queue_Setup u16 u16
  | Promiscuous_Enable u16
  | Dev_Start u16

text \<open>The calls of a whole set-up of the card at \<open>port\<close>.\<close>

definition setup_calls :: "dpdk_config \<Rightarrow> u16 \<Rightarrow> dpdk_call list" where
  "setup_calls cfg port =
     [Eal_Init, Pool_Create (dc_num_mbufs cfg) (dc_mbuf_cache_size cfg) (ucast (dc_mbuf_data_room_size cfg)), Get_Port (dc_pci_addr cfg),
      Configure port (ucast (dc_queue_size cfg)) (ucast (dc_queue_size cfg)) port_conf, Info_Get port] @
     concat (map (\<lambda>i. [Rx_Queue_Setup port (word_of_nat i), Tx_Queue_Setup port (word_of_nat i)]) [0..<unat (dc_queue_size cfg)]) @
     [Promiscuous_Enable port, Dev_Start port]"

text \<open>
  How a part of the set-up ends that is to make the calls of a plan, one that \<open>R\<close> allows: with all of them made and
  all successful, or with some of them made, up to the first that failed.
\<close>

definition ended :: "('s \<Rightarrow> (dpdk_call \<times> bool) list) \<Rightarrow> (dpdk_call list \<Rightarrow> statics \<Rightarrow> bool) \<Rightarrow> 's \<Rightarrow> status \<Rightarrow> statics \<Rightarrow> 's \<Rightarrow> bool" where
  "ended log R s status st' s' \<longleftrightarrow>
     (status = OK \<and> (\<exists>plan. R plan st' \<and> log s' = log s @ map (\<lambda>c. (c, True)) plan)) \<or>
     (status = INTERNAL_ERROR \<and> (\<exists>plan st1 pre c. R plan st1 \<and> prefix (pre @ [c]) plan \<and> log s' = log s @ map (\<lambda>c. (c, True)) pre @ [(c, False)]))"

definition follows :: "('s \<Rightarrow> (dpdk_call \<times> bool) list) \<Rightarrow> (dpdk_call list \<Rightarrow> statics \<Rightarrow> bool) \<Rightarrow> (status \<times> statics, 's) prog \<Rightarrow> bool" where
  "follows log R it \<longleftrightarrow> (\<forall>s. \<exists>status st' s'. it s = (Ret (status, st'), s') \<and> ended log R s status st' s')"

lemma ended_later:
  assumes "ended log R s1 status st' s'" "log s1 = log s @ [(c, True)]" "\<And>plan st'. R plan st' \<Longrightarrow> R' (c # plan) st'"
  shows "ended log R' s status st' s'"
  using assms(1) unfolding ended_def
proof (elim disjE conjE exE)
  fix plan assume "status = OK" "R plan st'" "log s' = log s1 @ map (\<lambda>c. (c, True)) plan"
  then have "status = OK" "R' (c # plan) st'" "log s' = log s @ map (\<lambda>c. (c, True)) (c # plan)" using assms(2,3) by simp_all
  then show "(status = OK \<and> (\<exists>plan. R' plan st' \<and> log s' = log s @ map (\<lambda>c. (c, True)) plan)) \<or>
     (status = INTERNAL_ERROR \<and> (\<exists>plan st1 pre c. R' plan st1 \<and> prefix (pre @ [c]) plan \<and> log s' = log s @ map (\<lambda>c. (c, True)) pre @ [(c, False)]))"
    by blast
next
  fix plan st1 pre d assume "status = INTERNAL_ERROR" "R plan st1" "prefix (pre @ [d]) plan" "log s' = log s1 @ map (\<lambda>c. (c, True)) pre @ [(d, False)]"
  then have "status = INTERNAL_ERROR" "R' (c # plan) st1" "prefix ((c # pre) @ [d]) (c # plan)"
      "log s' = log s @ map (\<lambda>c. (c, True)) (c # pre) @ [(d, False)]"
    using assms(2,3) by simp_all
  then show "(status = OK \<and> (\<exists>plan. R' plan st' \<and> log s' = log s @ map (\<lambda>c. (c, True)) plan)) \<or>
     (status = INTERNAL_ERROR \<and> (\<exists>plan st1 pre c. R' plan st1 \<and> prefix (pre @ [c]) plan \<and> log s' = log s @ map (\<lambda>c. (c, True)) pre @ [(c, False)]))"
    by blast
qed

lemma ended_failed: "log s' = log s @ [(c, False)] \<Longrightarrow> R (c # plan) st1 \<Longrightarrow> ended log R s INTERNAL_ERROR st' s'"
  unfolding ended_def by (intro disjI2 conjI refl exI [of _ "c # plan"] exI [of _ st1] exI [of _ "[]"] exI [of _ c]) simp_all

lemma follows_ret: "R [] st \<Longrightarrow> follows log R (ret (OK, st))"
  unfolding follows_def ended_def by (auto simp: ret_def)

lemma follows_mono: "follows log R it \<Longrightarrow> (\<And>plan st'. R plan st' \<Longrightarrow> R' plan st') \<Longrightarrow> follows log R' it"
  unfolding follows_def ended_def by meson

lemma follows_attempt:
  assumes log: "\<And>s. log (snd (call s)) = log s @ [(c, fst (call s) \<noteq> None)]"
    and k: "\<And>x. follows log (R x) (k x)" and R: "\<And>x plan st'. R x plan st' \<Longrightarrow> R' (c # plan) st'" and ex: "R' (c # plan) st1"
  shows "follows log R' (attempt call st k)"
  unfolding follows_def
proof
  fix s
  obtain r s1 where c: "call s = (r, s1)" by (cases "call s")
  show "\<exists>status st' s'. attempt call st k s = (Ret (status, st'), s') \<and> ended log R' s status st' s'"
  proof (cases r)
    case None
    then have "log s1 = log s @ [(c, False)]" using log [of s] c by simp
    then have "ended log R' s INTERNAL_ERROR st s1" using ex by (rule ended_failed)
    then show ?thesis using c None by (simp add: attempt_def)
  next
    case (Some x)
    then have "log s1 = log s @ [(c, True)]" using log [of s] c by simp
    moreover obtain status st' s' where "k x s1 = (Ret (status, st'), s')" "ended log (R x) s1 status st' s'"
      using k [of x] unfolding follows_def by blast
    ultimately show ?thesis using c Some R ended_later [of log "R x" s1 status st' s' s c R'] by (simp add: attempt_def)
  qed
qed

text \<open>DPDK with a record of the calls that were made and whether they succeeded.\<close>

locale dpdk_log =
  fixes D :: "'s dpdk" and log :: "'s \<Rightarrow> (dpdk_call \<times> bool) list"
  assumes eal: "log (snd (rte_eal_init D s)) = log s @ [(Eal_Init, fst (rte_eal_init D s) \<noteq> None)]"
    and pool: "log (snd (rte_pktmbuf_pool_create D n c r s)) = log s @ [(Pool_Create n c r, fst (rte_pktmbuf_pool_create D n c r s) \<noteq> None)]"
    and get_port: "log (snd (rte_eth_dev_get_port_by_name D name s)) = log s @ [(Get_Port name, fst (rte_eth_dev_get_port_by_name D name s) \<noteq> None)]"
    and configure: "log (snd (rte_eth_dev_configure D p q q' conf s)) = log s @ [(Configure p q q' conf, fst (rte_eth_dev_configure D p q q' conf s) \<noteq> None)]"
    and info: "log (snd (rte_eth_dev_info_get D p s)) = log s @ [(Info_Get p, fst (rte_eth_dev_info_get D p s) \<noteq> None)]"
    and rx_setup: "log (snd (rte_eth_rx_queue_setup D p q k rx h s)) = log s @ [(Rx_Queue_Setup p q, fst (rte_eth_rx_queue_setup D p q k rx h s) \<noteq> None)]"
    and tx_setup: "log (snd (rte_eth_tx_queue_setup D p q k tx s)) = log s @ [(Tx_Queue_Setup p q, fst (rte_eth_tx_queue_setup D p q k tx s) \<noteq> None)]"
    and promiscuous: "log (snd (rte_eth_promiscuous_enable D p s)) = log s @ [(Promiscuous_Enable p, fst (rte_eth_promiscuous_enable D p s) \<noteq> None)]"
    and dev_start: "log (snd (rte_eth_dev_start D p s)) = log s @ [(Dev_Start p, fst (rte_eth_dev_start D p s) \<noteq> None)]"
begin

lemma follows_queues:
  assumes "follows log R k" "R plan st1" "ps_port_id st = port"
  shows "follows log (\<lambda>plan st'. \<exists>tail. plan = concat (map (\<lambda>i. [Rx_Queue_Setup port (word_of_nat i), Tx_Queue_Setup port (word_of_nat i)]) is) @ tail \<and> R tail st')
    (setup_queues D pool rxconf txconf st is k)"
proof (induction "is")
  case Nil
  then show ?case using assms(1) by simp
next
  case (Cons i "is")
  show ?case
    unfolding setup_queues.simps assms(3)
    by (rule follows_attempt [OF rx_setup follows_attempt [OF tx_setup Cons]]) (use assms(2) in auto)
qed

lemma init_follows:
  "follows log (\<lambda>plan st'. plan = setup_calls cfg (ps_port_id st') \<and> ps_mbuf_pool st' \<noteq> None \<and> ps_crc8_table st' = crc8_table)
     (init_static_variable D cfg rc aq dq fm st)"
proof -
  let ?qs = "\<lambda>port. concat (map (\<lambda>i. [Rx_Queue_Setup port (word_of_nat i), Tx_Queue_Setup port (word_of_nat i)]) [0..<unat (dc_queue_size cfg)])"
  let ?q = "ucast (dc_queue_size cfg) :: u16"
  have last: "follows log (\<lambda>plan st'. plan = [Promiscuous_Enable port, Dev_Start port] \<and> st' = st)
      (attempt (rte_eth_promiscuous_enable D port) st (\<lambda>_. attempt (rte_eth_dev_start D port) st (\<lambda>_. ret (OK, st))))" for port st
    by (rule follows_attempt [OF promiscuous follows_attempt [OF dev_start follows_ret [where R = "\<lambda>plan st'. plan = [] \<and> st' = st"],
          where R' = "\<lambda>plan st'. plan = [Dev_Start port] \<and> st' = st"]]) auto
  have queues: "follows log (\<lambda>plan st'. plan = ?qs (ps_port_id st) @ [Promiscuous_Enable (ps_port_id st), Dev_Start (ps_port_id st)] \<and> st' = st)
      (setup_queues D pool rxconf txconf st [0..<unat (dc_queue_size cfg)] (attempt (rte_eth_promiscuous_enable D (ps_port_id st)) st (\<lambda>_.
         attempt (rte_eth_dev_start D (ps_port_id st)) st (\<lambda>_. ret (OK, st)))))" for st pool rxconf txconf
    by (rule follows_mono [OF follows_queues [OF last]]) auto
  let ?card = "\<lambda>port. [Configure port ?q ?q port_conf, Info_Get port] @ ?qs port @ [Promiscuous_Enable port, Dev_Start port]"
  have port: "follows log (\<lambda>plan st'. plan = ?card (ps_port_id st) \<and> st' = st) (setup_port D cfg pool st)" for st pool
    unfolding setup_port_def Let_def
    by (rule follows_attempt [OF configure follows_attempt [OF info queues,
          where R' = "\<lambda>plan st'. plan = tl (?card (ps_port_id st)) \<and> st' = st"]]) auto
  let ?pool = "Pool_Create (dc_num_mbufs cfg) (dc_mbuf_cache_size cfg) (ucast (dc_mbuf_data_room_size cfg))"
  let ?R = "\<lambda>calls plan (st' :: statics). plan = calls @ ?card (ps_port_id st') \<and> ps_mbuf_pool st' \<noteq> None \<and> ps_crc8_table st' = crc8_table"
  have ex: "\<exists>plan st'. ?R calls (calls @ plan) st'" for calls
    by (rule exI [of _ "?card 0"], rule exI [of _ "st\<lparr>ps_mbuf_pool := Some 0, ps_crc8_table := crc8_table, ps_port_id := 0\<rparr>"]) simp
  obtain plan st1 where e1: "?R [Get_Port (dc_pci_addr cfg)] (Get_Port (dc_pci_addr cfg) # plan) st1" using ex [of "[_]"] by auto
  obtain plan2 st2 where e2: "?R [?pool, Get_Port (dc_pci_addr cfg)] (?pool # plan2) st2" using ex [of "[_, _]"] by auto
  obtain plan3 st3 where e3: "?R [Eal_Init, ?pool, Get_Port (dc_pci_addr cfg)] (Eal_Init # plan3) st3" using ex [of "[_, _, _]"] by auto
  have g: "follows log (?R [Get_Port (dc_pci_addr cfg)])
      (attempt (rte_eth_dev_get_port_by_name D (dc_pci_addr cfg)) st0 (\<lambda>port. setup_port D cfg pool (st0\<lparr>ps_port_id := port\<rparr>)))"
    if "ps_mbuf_pool st0 \<noteq> None" "ps_crc8_table st0 = crc8_table" for st0 pool
    by (rule follows_attempt [OF get_port port, rotated], rule e1) (use that in auto)
  have p: "follows log (?R [?pool, Get_Port (dc_pci_addr cfg)])
      (attempt (rte_pktmbuf_pool_create D (dc_num_mbufs cfg) (dc_mbuf_cache_size cfg) (ucast (dc_mbuf_data_room_size cfg))) (st0\<lparr>ps_mbuf_pool := None\<rparr>) (\<lambda>pool.
        attempt (rte_eth_dev_get_port_by_name D (dc_pci_addr cfg)) (st0\<lparr>ps_mbuf_pool := Some pool\<rparr>) (\<lambda>port. setup_port D cfg pool (st0\<lparr>ps_mbuf_pool := Some pool, ps_port_id := port\<rparr>))))"
    if "ps_crc8_table st0 = crc8_table" for st0
    by (rule follows_attempt [OF pool, rotated 2], rule e2, rule g) (use that in auto)
  have "follows log (?R [Eal_Init, ?pool, Get_Port (dc_pci_addr cfg)]) (init_static_variable D cfg rc aq dq fm st)"
    unfolding init_static_variable_def Let_def
    by (rule follows_attempt [OF eal, rotated 2], rule e3, rule p) auto
  then show ?thesis by (simp add: setup_calls_def)
qed

end

section \<open>Properties\<close>

text \<open>
  (C34) The network card is set up in order, and the first failure ends the set-up: \<open>init_static_variable\<close> returns \<open>OK\<close>
  exactly when all calls of \<open>setup_calls\<close> (two for each queue) have been made in this order and have all
  succeeded, with the buffer pool and the CRC table in place; otherwise it returns \<open>INTERNAL_ERROR\<close>, the last
  call that it made has failed, and all calls before have succeeded.
\<close>

theorem init_static_variable_in_order:
  assumes "dpdk_log D log"
  shows "\<exists>status st' s'. init_static_variable D cfg rc aq dq fm st s = (Ret (status, st'), s') \<and>
    (status = OK \<and> log s' = log s @ map (\<lambda>c. (c, True)) (setup_calls cfg (ps_port_id st')) \<and>
       ps_mbuf_pool st' \<noteq> None \<and> ps_crc8_table st' = crc8_table \<or>
     status = INTERNAL_ERROR \<and> (\<exists>port pre c. prefix (pre @ [c]) (setup_calls cfg port) \<and> log s' = log s @ map (\<lambda>c. (c, True)) pre @ [(c, False)]))"
proof -
  obtain status st' s' where "init_static_variable D cfg rc aq dq fm st s = (Ret (status, st'), s')"
      "ended log (\<lambda>plan st'. plan = setup_calls cfg (ps_port_id st') \<and> ps_mbuf_pool st' \<noteq> None \<and> ps_crc8_table st' = crc8_table) s status st' s'"
    using dpdk_log.init_follows [OF assms, of cfg rc aq dq fm st] unfolding follows_def by blast
  then show ?thesis unfolding ended_def by blast
qed

section \<open>A card that records\<close>

text \<open>The state is the record, and \<open>f\<close> says which calls succeed.\<close>

definition note_call :: "(dpdk_call \<Rightarrow> bool) \<Rightarrow> dpdk_call \<Rightarrow> 'a \<Rightarrow> ('a, (dpdk_call \<times> bool) list) call" where
  "note_call f c x s = (if f c then Some x else None, s @ [(c, f c)])"

definition ref_dpdk :: "(dpdk_call \<Rightarrow> bool) \<Rightarrow> (dpdk_call \<times> bool) list dpdk" where
  "ref_dpdk f = \<lparr>rte_eal_init = note_call f Eal_Init (),
     rte_pktmbuf_pool_create = (\<lambda>n c r. note_call f (Pool_Create n c r) 7),
     rte_eth_dev_get_port_by_name = (\<lambda>name. note_call f (Get_Port name) 1),
     rte_eth_dev_configure = (\<lambda>p q q' conf. note_call f (Configure p q q' conf) ()),
     rte_eth_dev_info_get = (\<lambda>p. note_call f (Info_Get p) \<lparr>default_rxconf = [], default_txconf = \<lparr>tx_offloads = {}, tx_other = []\<rparr>\<rparr>),
     rte_eth_rx_queue_setup = (\<lambda>p q n rx h. note_call f (Rx_Queue_Setup p q) ()),
     rte_eth_tx_queue_setup = (\<lambda>p q n tx. note_call f (Tx_Queue_Setup p q) ()),
     rte_eth_promiscuous_enable = (\<lambda>p. note_call f (Promiscuous_Enable p) ()),
     rte_eth_dev_start = (\<lambda>p. note_call f (Dev_Start p) ()),
     rte_eal_remote_launch = (\<lambda>q core s. s), rte_eal_wait_workers = (\<lambda>s. s), rte_eth_stats_get = (\<lambda>p s. (Some (), s))\<rparr>"

interpretation ref_card: dpdk_log "ref_dpdk f" id
  by unfold_locales (simp_all add: ref_dpdk_def note_call_def)

definition ex_dpdk_config :: dpdk_config where
  "ex_dpdk_config = \<lparr>dc_pci_addr = ''0000:01:00.0'', dc_rx_ring_size = 2048, dc_tx_ring_size = 2048, dc_num_mbufs = 8191, dc_mbuf_cache_size = 250,
     dc_mbuf_data_room_size = 2176, dc_burst_size = 32, dc_queue_size = 2\<rparr>"

text \<open>The card of two queues whose second send queue cannot be set up.\<close>

theorem init_static_variable_in_order_witness:
  "\<exists>st' s' pre. init_static_variable (ref_dpdk (\<lambda>c. c \<noteq> Tx_Queue_Setup 1 1)) ex_dpdk_config 1 2 3 4 statics_init [] = (Ret (INTERNAL_ERROR, st'), s') \<and>
     s' = map (\<lambda>c. (c, True)) pre @ [(Tx_Queue_Setup 1 1, False)] \<and> length pre = 8"
proof -
  have q: "unat (dc_queue_size ex_dpdk_config) = 2" "[0..<2] = [0, 1 :: nat]" by (simp_all add: ex_dpdk_config_def upt_rec)
  obtain status st' s' where r: "init_static_variable (ref_dpdk (\<lambda>c. c \<noteq> Tx_Queue_Setup 1 1)) ex_dpdk_config 1 2 3 4 statics_init [] = (Ret (status, st'), s')"
      "status = OK \<and> id s' = id [] @ map (\<lambda>c. (c, True)) (setup_calls ex_dpdk_config (ps_port_id st')) \<and>
         ps_mbuf_pool st' \<noteq> None \<and> ps_crc8_table st' = crc8_table \<or>
       status = INTERNAL_ERROR \<and> (\<exists>port pre c. prefix (pre @ [c]) (setup_calls ex_dpdk_config port) \<and> id s' = id [] @ map (\<lambda>c. (c, True)) pre @ [(c, False)])"
    using init_static_variable_in_order [OF ref_card.dpdk_log_axioms [of "\<lambda>c. c \<noteq> Tx_Queue_Setup 1 1"], of ex_dpdk_config 1 2 3 4 statics_init "[]"] by blast
  have e: "status = INTERNAL_ERROR" "map fst s' = take 9 (setup_calls ex_dpdk_config 1)" "length s' = 9" "s' ! 8 = (Tx_Queue_Setup 1 1, False)"
    using r(1) by (auto simp: init_static_variable_def setup_port_def Let_def q attempt_def ref_dpdk_def note_call_def ret_def setup_calls_def)
  then obtain pre c where p: "s' = map (\<lambda>c. (c, True)) pre @ [(c, False)]" using r(2) by auto
  then have "length pre = 8" "c = Tx_Queue_Setup 1 1" using e by (auto simp: nth_append)
  then show ?thesis using r(1) e(1) p by blast
qed

end
