(* ===== verification/Frontend_Main.thy ===== *)
theory Frontend_Main
  imports Frontend_Msg Pkt_Worker
begin

text \<open>
  \<open>main\<close> of \<open>src/Frontend/main.cpp\<close>: the configuration files, the start of the workers, the connection to the
  switch, and the loop over the events of the connection and of two timers.
\<close>

section \<open>Configuration\<close>

text \<open>
  The accessors of \<open>nlohmann::json\<close>, as a parameter; \<open>None\<close> is an exception.  A missing key is a null value.  No
  exception is caught in \<open>main\<close>.
\<close>

record 'j njson =
  nj_parse :: "string \<Rightarrow> 'j option"
  nj_at :: "'j \<Rightarrow> string \<Rightarrow> 'j option"
  nj_string :: "'j \<Rightarrow> string option"
  nj_uint32 :: "'j \<Rightarrow> u32 option"
  nj_int :: "'j \<Rightarrow> int option"
  nj_array :: "'j \<Rightarrow> 'j list option"
  nj_is_null :: "'j \<Rightarrow> bool"

definition or_throw :: "'a option \<Rightarrow> ('a \<Rightarrow> ('b, 's) prog) \<Rightarrow> ('b, 's) prog" where
  "or_throw x k = (case x of None \<Rightarrow> exit ''uncaught exception'' | Some y \<Rightarrow> k y)"

definition field :: "('j \<Rightarrow> 'a option) \<Rightarrow> 'j njson \<Rightarrow> 'j \<Rightarrow> string \<Rightarrow> 'a option" where
  "field get J j name = Option.bind (nj_at J j name) get"

record fe_config =
  local_ip :: string
  local_listen_port :: u32
  local_switch_port :: u32
  switch_ip :: string
  switch_port :: u32
  pkt_processor_core_ids :: "int list"
  memory_pool_size :: u32

text \<open>Reading a file that does not exist ends in an exception of the parser.\<close>

definition read_json :: "(string \<Rightarrow> string option) \<Rightarrow> 'j njson \<Rightarrow> string \<Rightarrow> 'j option" where
  "read_json fs J path = Option.bind (fs path) (nj_parse J)"

fun get_all :: "('j \<Rightarrow> 'a option) \<Rightarrow> 'j list \<Rightarrow> 'a list option" where
  "get_all get [] = Some []"
| "get_all get (j # js) = do { x \<leftarrow> get j; xs \<leftarrow> get_all get js; Some (x # xs) }"

definition read_core_ids :: "'j njson \<Rightarrow> 'j \<Rightarrow> (int list, 's) prog" where
  "read_core_ids J res =
     (case nj_array J res of
        Some items \<Rightarrow> or_throw (get_all (nj_int J) items) ret
      | None \<Rightarrow>
          if nj_is_null J res then exit ''pkt_processor_core_ids is not an array or an integer''
          else or_throw (nj_int J res) (\<lambda>core_id. ret [core_id]))"

definition CONFIG_PATH :: string where "CONFIG_PATH = ''../config/config.json''"
definition DPDK_CONFIG_PATH :: string where "DPDK_CONFIG_PATH = ''../config/dpdk.json''"

definition read_config :: "(string \<Rightarrow> string option) \<Rightarrow> 'j njson \<Rightarrow> (fe_config, 's) prog" where
  "read_config fs J =
     or_throw (read_json fs J CONFIG_PATH) (\<lambda>config.
     or_throw (field (nj_string J) J config ''local_ip'') (\<lambda>local_ip.
     or_throw (field (nj_uint32 J) J config ''local_listen_port'') (\<lambda>local_listen_port.
     or_throw (field (nj_uint32 J) J config ''local_switch_port'') (\<lambda>local_switch_port.
     or_throw (field (nj_string J) J config ''switch_ip'') (\<lambda>switch_ip.
     or_throw (field (nj_uint32 J) J config ''switch_port'') (\<lambda>switch_port.
     or_throw (nj_at J config ''pkt_processor_core_ids'') (\<lambda>res.
     seq (read_core_ids J res) (\<lambda>core_ids.
     or_throw (field (nj_uint32 J) J config ''memory_pool_size'') (\<lambda>memory_pool_size.
     ret \<lparr>local_ip = local_ip, local_listen_port = local_listen_port, local_switch_port = local_switch_port, switch_ip = switch_ip,
       switch_port = switch_port, pkt_processor_core_ids = core_ids, memory_pool_size = memory_pool_size\<rparr>)))))))))"

text \<open>
  \<open>pci_addr\<close> points into a string that is destroyed at the end of the statement.  \<open>released\<close> gives what this
  memory holds when \<open>init_static_variable\<close> reads it; the language leaves it open.
\<close>

definition read_dpdk_config :: "(string \<Rightarrow> string option) \<Rightarrow> 'j njson \<Rightarrow> (string \<Rightarrow> string) \<Rightarrow> int list \<Rightarrow> (dpdk_config, 's) prog" where
  "read_dpdk_config fs J released core_ids =
     or_throw (read_json fs J DPDK_CONFIG_PATH) (\<lambda>config.
     or_throw (field (nj_string J) J config ''pci_addr'') (\<lambda>pci_addr.
     or_throw (field (nj_uint32 J) J config ''rx_ring_size'') (\<lambda>rx_ring_size.
     or_throw (field (nj_uint32 J) J config ''tx_ring_size'') (\<lambda>tx_ring_size.
     or_throw (field (nj_uint32 J) J config ''num_mbufs'') (\<lambda>num_mbufs.
     or_throw (field (nj_uint32 J) J config ''mbuf_cache_size'') (\<lambda>mbuf_cache_size.
     or_throw (field (nj_uint32 J) J config ''mbuf_data_room_size'') (\<lambda>mbuf_data_room_size.
     or_throw (field (nj_uint32 J) J config ''burst_size'') (\<lambda>burst_size.
     ret \<lparr>dc_pci_addr = released pci_addr, dc_rx_ring_size = rx_ring_size, dc_tx_ring_size = tx_ring_size, dc_num_mbufs = num_mbufs,
       dc_mbuf_cache_size = mbuf_cache_size, dc_mbuf_data_room_size = mbuf_data_room_size, dc_burst_size = burst_size,
       dc_queue_size = word_of_nat (length core_ids)\<rparr>))))))))"

section \<open>Start-up\<close>

text \<open>The system calls that only the front end makes; a timer is set to an interval in nanoseconds.\<close>

record 's fe_os =
  numa_available :: "(unit, 's) call"
  numa_bind :: "string \<Rightarrow> 's \<Rightarrow> 's"
  os_connect :: "hdl \<Rightarrow> string \<Rightarrow> u16 \<Rightarrow> (unit, 's) call"
  os_timerfd_create :: "(hdl, 's) call"
  os_timerfd_settime :: "hdl \<Rightarrow> nat \<Rightarrow> (unit, 's) call"
  os_timer_read :: "hdl \<Rightarrow> (unit, 's) call"

record fe_fds =
  fe_epoll_fd :: hdl
  fe_switch_fd :: hdl
  fe_timer_fd :: hdl
  fe_timer_fd_2 :: hdl

definition setup_timer :: "'s fe_os \<Rightarrow> 's sys \<Rightarrow> hdl \<Rightarrow> nat \<Rightarrow> (hdl, 's) prog" where
  "setup_timer OS S ep interval =
     check ''timerfd_create'' (os_timerfd_create OS) (\<lambda>timer_fd.
     check ''timerfd_settime'' (os_timerfd_settime OS timer_fd interval) (\<lambda>_.
     check ''epoll_ctl'' (sys_epoll_add S ep timer_fd) (\<lambda>_.
     ret timer_fd)))"

text \<open>One object for each queue, and its worker on the core with the same position in the configuration.\<close>

definition new_workers :: "statics \<Rightarrow> nat \<Rightarrow> (worker list, 's) prog" where
  "new_workers st n = for_each (\<lambda>i ws. case pkt_processor_new st i of None \<Rightarrow> crash | Some w \<Rightarrow> ret (ws @ [w])) [0..<n] []"

definition run_workers :: "'s dpdk \<Rightarrow> int list \<Rightarrow> worker list \<Rightarrow> (worker list, 's) prog" where
  "run_workers D core_ids ws = for_each (\<lambda>i ws s.
     if i < length ws then (let (w, s) = run D (core_ids ! i) (ws ! i) s in (Ret (ws[i := w]), s)) else (Crash, s)) [0..<length core_ids] ws"

text \<open>The status of \<open>init_static_variable\<close> is not looked at.  The handles stand for the objects that \<open>main\<close> allocates.\<close>

definition start_frontend ::
  "'s fe_os \<Rightarrow> 's sys \<Rightarrow> 's dpdk \<Rightarrow> (string \<Rightarrow> string option) \<Rightarrow> 'j njson \<Rightarrow> (string \<Rightarrow> string) \<Rightarrow> (fe_fds \<times> statics \<times> worker list, 's) prog" where
  "start_frontend OS S D fs J released =
     check ''NUMA is not available'' (numa_available OS) (\<lambda>_.
     seq (\<lambda>s. (Ret (), numa_bind OS ''3'' s)) (\<lambda>_.
     seq (read_config fs J) (\<lambda>config.
     seq (read_dpdk_config fs J released (pkt_processor_core_ids config)) (\<lambda>dpdk_config_args.
     check ''epoll_create1'' (sys_epoll_create1 S) (\<lambda>epoll_fd.
     seq (init_static_variable D dpdk_config_args 1 2 3 4 statics_init) (\<lambda>(_, st).
     seq (new_workers st (unat (dc_queue_size dpdk_config_args))) (\<lambda>pkt_processors.
     check ''socket'' (sys_socket S) (\<lambda>switch_fd.
     check ''bind'' (sys_bind S switch_fd (local_ip config) (ucast (local_switch_port config))) (\<lambda>_.
     seq (run_workers D (pkt_processor_core_ids config) pkt_processors) (\<lambda>pkt_processors.
     check ''connect'' (os_connect OS switch_fd (switch_ip config) (ucast (switch_port config))) (\<lambda>_.
     check ''epoll_ctl'' (sys_epoll_add S epoll_fd switch_fd) (\<lambda>_.
     seq (setup_timer OS S epoll_fd 100000) (\<lambda>timer_fd.
     seq (setup_timer OS S epoll_fd 1000000000) (\<lambda>timer_fd_2.
     ret (\<lparr>fe_epoll_fd = epoll_fd, fe_switch_fd = switch_fd, fe_timer_fd = timer_fd, fe_timer_fd_2 = timer_fd_2\<rparr>, st, pkt_processors)))))))))))))))"

section \<open>The event loop\<close>

text \<open>Every 100 microseconds the pending operations are sent to the switch; \<open>pad\<close> is the padding in the arrays.\<close>

definition handle_timer_event ::
  "'s fe_os \<Rightarrow> 's sys \<Rightarrow> 's offload_queues \<Rightarrow> (nat \<Rightarrow> nat \<Rightarrow> u8) \<Rightarrow> fe_fds \<Rightarrow> frontend \<Rightarrow> (frontend, 's) prog" where
  "handle_timer_event OS S Q pad fds f =
     check ''read'' (os_timer_read OS (fe_timer_fd fds)) (\<lambda>_.
     seq (get_offloaded_entries Q pad pad (fe_send_buffer f) (fe_entries f)) (\<lambda>((send_buffer, send_size), entries).
     let f = f\<lparr>fe_send_buffer := send_buffer, fe_entries := entries\<rparr> in
     if send_size = 0 then ret f
     else check ''send'' (sys_send S (fe_switch_fd fds) (take send_size send_buffer)) (\<lambda>_. ret f)))"

text \<open>Every second the counters of the card are printed.\<close>

definition handle_stats_event :: "'s fe_os \<Rightarrow> 's dpdk \<Rightarrow> statics \<Rightarrow> fe_fds \<Rightarrow> frontend \<Rightarrow> (frontend, 's) prog" where
  "handle_stats_event OS D st fds f =
     check ''read'' (os_timer_read OS (fe_timer_fd_2 fds)) (\<lambda>_.
     check ''rte_eth_stats_get'' (rte_eth_stats_get D (ps_port_id st)) (\<lambda>_.
     ret f))"

definition handle_fe_event ::
  "'s fe_os \<Rightarrow> 's sys \<Rightarrow> 's dpdk \<Rightarrow> 's offload_queues \<Rightarrow> (nat \<Rightarrow> nat \<Rightarrow> u8) \<Rightarrow> statics \<Rightarrow> fe_fds \<Rightarrow> hdl \<Rightarrow> frontend \<Rightarrow> (frontend, 's) prog" where
  "handle_fe_event OS S D Q pad st fds fd f =
     (if fd = fe_switch_fd fds then handle_switch_event S (fe_switch_fd fds) f
      else if fd = fe_timer_fd fds then handle_timer_event OS S Q pad fds f
      else if fd = fe_timer_fd_2 fds then handle_stats_event OS D st fds f
      else ret f)"

definition frontend_round ::
  "'s fe_os \<Rightarrow> 's sys \<Rightarrow> 's dpdk \<Rightarrow> 's offload_queues \<Rightarrow> (nat \<Rightarrow> nat \<Rightarrow> u8) \<Rightarrow> statics \<Rightarrow> fe_fds \<Rightarrow> frontend \<Rightarrow> (frontend, 's) prog" where
  "frontend_round OS S D Q pad st fds f =
     check ''epoll_wait'' (sys_epoll_wait S (fe_epoll_fd fds) 2) (\<lambda>events.
     for_each (handle_fe_event OS S D Q pad st fds) events f)"

text \<open>\<open>n\<close> rounds of the endless loop.\<close>

fun frontend_loop ::
  "nat \<Rightarrow> 's fe_os \<Rightarrow> 's sys \<Rightarrow> 's dpdk \<Rightarrow> 's offload_queues \<Rightarrow> (nat \<Rightarrow> nat \<Rightarrow> u8) \<Rightarrow> statics \<Rightarrow> fe_fds \<Rightarrow> frontend \<Rightarrow> (frontend, 's) prog" where
  "frontend_loop 0 OS S D Q pad st fds f = ret f"
| "frontend_loop (Suc n) OS S D Q pad st fds f =
     seq (frontend_round OS S D Q pad st fds f) (frontend_loop n OS S D Q pad st fds)"

text \<open>\<open>ps\<close>, \<open>ks\<close>, \<open>b0\<close> and \<open>b1\<close> are what the fresh arrays and buffers hold.\<close>

definition frontend_new :: "(nat \<Rightarrow> my_pair) \<Rightarrow> (nat \<Rightarrow> my_key) \<Rightarrow> (nat \<Rightarrow> u8) \<Rightarrow> (nat \<Rightarrow> u8) \<Rightarrow> frontend" where
  "frontend_new ps ks b0 b1 = \<lparr>fe_recv_buffer = map b0 [0..<ETH_FRAME_LEN], fe_send_buffer = map b1 [0..<ETH_FRAME_LEN],
     fe_rules = rule_controller_new, fe_entries = entry_controller_new ps ks\<rparr>"

definition frontend_main ::
  "nat \<Rightarrow> 's fe_os \<Rightarrow> 's sys \<Rightarrow> 's dpdk \<Rightarrow> 's offload_queues \<Rightarrow> (nat \<Rightarrow> nat \<Rightarrow> u8) \<Rightarrow> (string \<Rightarrow> string option) \<Rightarrow> 'j njson \<Rightarrow> (string \<Rightarrow> string) \<Rightarrow>
   (nat \<Rightarrow> my_pair) \<Rightarrow> (nat \<Rightarrow> my_key) \<Rightarrow> (nat \<Rightarrow> u8) \<Rightarrow> (nat \<Rightarrow> u8) \<Rightarrow> (frontend, 's) prog" where
  "frontend_main n OS S D Q pad fs J released ps ks b0 b1 =
     seq (start_frontend OS S D fs J released) (\<lambda>(fds, st, pkt_processors).
     frontend_loop n OS S D Q pad st fds (frontend_new ps ks b0 b1))"

section \<open>The loop is safe\<close>

definition fe_ok :: "frontend \<Rightarrow> bool" where
  "fe_ok f \<longleftrightarrow> length (fe_recv_buffer f) = ETH_FRAME_LEN \<and> length (fe_send_buffer f) = ETH_FRAME_LEN \<and> ec_ok (fe_entries f)"

text \<open>
  The format of what the switch sends, as bytes: an update of the rules, of the servers or of the virtual address
  with their counts and terminators, or a message with another operation code; more bytes may follow.
\<close>

inductive wf_message :: "bytes \<Rightarrow> bool" where
  rule_update: "rules_ok rs ks \<Longrightarrow> wf_message (update_rule_bytes rs ks @ rest)"
| d_index_update: "d_indexes_ok ds ks \<Longrightarrow> wf_message (update_d_index_bytes ds ks @ rest)"
| v_info_update: "length (si_mac v) = 6 \<Longrightarrow> wf_message (update_v_info_bytes v @ rest)"
| other: "b \<notin> {op_code UPDATE_RULE, op_code UPDATE_D_INDEX, op_code UPDATE_V_INFO} \<Longrightarrow> wf_message (b # rest)"

text \<open>Every \<open>recv\<close> that does not fail returns the end of the stream, or a whole message first.\<close>

definition sends_messages :: "'s sys \<Rightarrow> hdl \<Rightarrow> bool" where
  "sends_messages S fd \<longleftrightarrow> (\<forall>s data s'. sys_recv S fd ETH_FRAME_LEN s = (Some data, s') \<longrightarrow>
     data = [] \<or> length data \<le> ETH_FRAME_LEN \<and> wf_message data)"

text \<open>The program goes on with a good state or ends with a message.\<close>

definition keeps :: "(frontend, 's) prog \<Rightarrow> bool" where
  "keeps it \<longleftrightarrow> (\<forall>s. case fst (it s) of Ret f \<Rightarrow> fe_ok f | Exit msg \<Rightarrow> True | Crash \<Rightarrow> False)"

lemma keeps_ret: "fe_ok f \<Longrightarrow> keeps (ret f)"
  by (simp add: keeps_def ret_def)

lemma keeps_check: "(\<And>x. keeps (k x)) \<Longrightarrow> keeps (check msg c k)"
  by (auto simp: keeps_def check_def split: option.splits prod.splits)

lemma keeps_seq:
  assumes "keeps it" "\<And>f. fe_ok f \<Longrightarrow> keeps (k f)"
  shows "keeps (seq it k)"
  unfolding keeps_def
proof
  fix s
  obtain r s' where r: "it s = (r, s')" by (cases "it s")
  then show "case fst (seq it k s) of Ret f \<Rightarrow> fe_ok f | Exit msg \<Rightarrow> True | Crash \<Rightarrow> False"
    using assms(1) [unfolded keeps_def, rule_format, of s] assms(2) by (cases r) (auto simp: seq_def keeps_def)
qed

lemma keeps_for_each: "(\<And>x f. fe_ok f \<Longrightarrow> keeps (body x f)) \<Longrightarrow> fe_ok f \<Longrightarrow> keeps (for_each body xs f)"
  by (induction xs arbitrary: f) (auto intro: keeps_ret keeps_seq)

text \<open>A message of the format is decoded within the buffer, whatever is left in the buffer behind it.\<close>

lemma receive_keeps:
  assumes "fe_ok f" "wf_message data" "length data \<le> ETH_FRAME_LEN"
  shows "\<exists>f'. receive data f = Some f' \<and> fe_ok f'"
proof -
  have "\<exists>f' rc. receive data f = Some f' \<and> same_but_rules f rc f'"
    using assms(2)
  proof cases
    case (rule_update rs ks rest)
    then show ?thesis using update_rule_decoded [of _ rs ks "fe_rules f"] receive_decoded [of "update_rule_bytes rs ks" f _ rest] assms(1,3)
      by (fastforce simp: fe_ok_def)
  next
    case (d_index_update ds ks rest)
    then show ?thesis using update_d_index_decoded [of _ ds ks "fe_rules f"] receive_decoded [of "update_d_index_bytes ds ks" f _ rest] assms(1,3)
      by (fastforce simp: fe_ok_def)
  next
    case (v_info_update v rest)
    then show ?thesis using receive_v_info [of v rest f] assms(1,3) by (auto simp: fe_ok_def)
  next
    case (other b rest)
    then have "handle_switch_message buf (fe_rules f) = Some (fe_rules f)" if "stands_at buf 0 [b]" for buf
      using that by (auto simp: handle_switch_message_def ld8_def)
    then show ?thesis using receive_decoded [of "[b]" f "fe_rules f" rest] other assms(1,3) by (fastforce simp: fe_ok_def)
  qed
  then show ?thesis using assms(1) by (auto simp: same_but_rules_def fe_ok_def)
qed

lemma handle_timer_keeps:
  assumes "offload_source Q qa qd" "fe_ok f"
  shows "keeps (handle_timer_event OS S Q pad fds f)"
  unfolding handle_timer_event_def
proof (rule keeps_check)
  fix x
  have l: "ec_ok (fe_entries f)" "length (fe_send_buffer f) = 1514" using assms(2) by (simp_all add: fe_ok_def ETH_FRAME_LEN_def)
  let ?k = "\<lambda>((send_buffer, send_size), entries). let f = f\<lparr>fe_send_buffer := send_buffer, fe_entries := entries\<rparr> in
     if send_size = 0 then ret f else check ''send'' (sys_send S (fe_switch_fd fds) (take send_size send_buffer)) (\<lambda>_. ret f)"
  show "keeps (seq (get_offloaded_entries Q pad pad (fe_send_buffer f) (fe_entries f)) ?k)"
    unfolding keeps_def
  proof
    fix s
    obtain b buf n ec s' where t: "get_offloaded_entries Q pad pad (fe_send_buffer f) (fe_entries f) s = (Ret ((buf, n), ec), s')" "ec_ok ec" "length buf = 1514"
      using offload_source.tick [OF assms(1) l, of pad pad s] by (auto simp: tick_ok_def)
    then have "fe_ok (f\<lparr>fe_send_buffer := buf, fe_entries := ec\<rparr>)" using assms(2) by (simp add: fe_ok_def ETH_FRAME_LEN_def)
    then have "keeps (?k ((buf, n), ec))" by (auto simp: Let_def intro: keeps_ret keeps_check)
    then show "case fst (seq (get_offloaded_entries Q pad pad (fe_send_buffer f) (fe_entries f)) ?k s) of Ret f \<Rightarrow> fe_ok f | Exit msg \<Rightarrow> True | Crash \<Rightarrow> False"
      using t(1) unfolding keeps_def seq_def by simp
  qed
qed

lemma handle_switch_keeps:
  assumes "sends_messages S fd" "fe_ok f"
  shows "keeps (handle_switch_event S fd f)"
  unfolding keeps_def handle_switch_event_def check_def
  using assms(1) [unfolded sends_messages_def] receive_keeps [OF assms(2)] by (fastforce simp: exit_def ret_def split: option.splits prod.splits)

lemma frontend_loop_keeps:
  assumes "offload_source Q qa qd" "sends_messages S (fe_switch_fd fds)"
  shows "fe_ok f \<Longrightarrow> keeps (frontend_loop n OS S D Q pad st fds f)"
proof (induction n arbitrary: f)
  case 0
  then show ?case by (simp add: keeps_ret)
next
  case (Suc n)
  have "keeps (handle_fe_event OS S D Q pad st fds fd f)" if "fe_ok f" for fd f
    using that handle_switch_keeps [OF assms(2)] handle_timer_keeps [OF assms(1)]
    by (auto simp: handle_fe_event_def handle_stats_event_def intro: keeps_ret keeps_check)
  then show ?case
    using Suc by (auto simp: frontend_round_def intro!: keeps_seq keeps_check keeps_for_each)
qed

lemma frontend_new_ok: "fe_ok (frontend_new ps ks b0 b1)"
  by (simp add: fe_ok_def frontend_new_def entry_controller_new_ok)

text \<open>
  (C27) The event loop is safe: from the state that \<open>main\<close> sets up, in any number of rounds and whatever events
  come, it never accesses memory outside its buffers and arrays, provided every \<open>recv\<close> from the switch
  delivers at most a buffer's length of bytes that begin with a whole message of the agreed format; the decoder
  then stays within the received message, whatever an earlier one has left in the buffer.  The loop also keeps
  the sizes of the buffers and holds back at most 20 operations of each kind.
\<close>

theorem frontend_loop_safe:
  assumes "offload_source Q qa qd" "sends_messages S (fe_switch_fd fds)"
  shows "(case fst (frontend_loop n OS S D Q pad st fds (frontend_new ps ks b0 b1) s) of Ret f \<Rightarrow> fe_ok f | Exit msg \<Rightarrow> True | Crash \<Rightarrow> False)"
  using frontend_loop_keeps [OF assms frontend_new_ok] unfolding keeps_def by blast

section \<open>A concrete run\<close>

text \<open>The switch sends a rule update again and again, and both timers run out all the time.\<close>

definition ex_fe_sys :: "'s sys" where
  "ex_fe_sys = (ex_sys (update_rule_bytes (rules ex_config) []))\<lparr>sys_epoll_wait := (\<lambda>ep n s. (Some [3, 6], s))\<rparr>"

definition ex_fds :: fe_fds where
  "ex_fds = \<lparr>fe_epoll_fd = 4, fe_switch_fd = 3, fe_timer_fd = 6, fe_timer_fd_2 = 7\<rparr>"

definition ex_fe_os :: "'s fe_os" where
  "ex_fe_os = \<lparr>numa_available = (\<lambda>s. (Some (), s)), numa_bind = (\<lambda>n s. s), os_connect = (\<lambda>fd ip port s. (Some (), s)),
     os_timerfd_create = (\<lambda>s. (Some 6, s)), os_timerfd_settime = (\<lambda>fd i s. (Some (), s)), os_timer_read = (\<lambda>fd s. (Some (), s))\<rparr>"

lemma ex_update_message:
  "wf_message (update_rule_bytes (rules ex_config) [])" "length (update_rule_bytes (rules ex_config) []) \<le> ETH_FRAME_LEN"
proof -
  have "rules_ok (rules ex_config) []" using ex_config_ok by (simp add: config_ok_def)
  from wf_message.rule_update [OF this, of "[]"] show "wf_message (update_rule_bytes (rules ex_config) [])" by simp
qed (simp add: update_rule_bytes_def ex_config_def rule_bytes_def ETH_FRAME_LEN_def)

definition ex_fe_dpdk :: "'s dpdk" where
  "ex_fe_dpdk = \<lparr>rte_eal_init = (\<lambda>s. (Some (), s)), rte_pktmbuf_pool_create = (\<lambda>n c r s. (Some 7, s)),
     rte_eth_dev_get_port_by_name = (\<lambda>name s. (Some 1, s)), rte_eth_dev_configure = (\<lambda>p q q' conf s. (Some (), s)),
     rte_eth_dev_info_get = (\<lambda>p s. (Some \<lparr>default_rxconf = [], default_txconf = \<lparr>tx_offloads = {}, tx_other = []\<rparr>\<rparr>, s)),
     rte_eth_rx_queue_setup = (\<lambda>p q n rx h s. (Some (), s)), rte_eth_tx_queue_setup = (\<lambda>p q n tx s. (Some (), s)),
     rte_eth_promiscuous_enable = (\<lambda>p s. (Some (), s)), rte_eth_dev_start = (\<lambda>p s. (Some (), s)),
     rte_eal_remote_launch = (\<lambda>q core s. s), rte_eal_wait_workers = (\<lambda>s. s), rte_eth_stats_get = (\<lambda>p s. (Some (), s))\<rparr>"

lemma ex_fe_sys_messages: "sends_messages ex_fe_sys (fe_switch_fd ex_fds)"
  using ex_update_message by (auto simp: sends_messages_def ex_fe_sys_def ex_sys_def)

text \<open>No call fails here, so the loop does not end with a message either.\<close>

definition no_exit :: "('a, 's) prog \<Rightarrow> bool" where
  "no_exit it \<longleftrightarrow> (\<forall>s msg. fst (it s) \<noteq> Exit msg)"

lemma no_exit_intros:
  "no_exit (ret x)" "no_exit crash" "no_exit it \<Longrightarrow> (\<And>x. no_exit (k x)) \<Longrightarrow> no_exit (seq it k)"
  "(\<And>s s'. c s \<noteq> (None, s')) \<Longrightarrow> (\<And>x. no_exit (k x)) \<Longrightarrow> no_exit (check msg c k)"
  by (auto simp: no_exit_def ret_def crash_def seq_def check_def split: prod.splits outcome.splits option.splits) (metis fst_conv)+

lemma no_exit_for_each: "(\<And>x b. x \<in> set xs \<Longrightarrow> no_exit (body x b)) \<Longrightarrow> no_exit (for_each body xs b)"
  by (induction xs arbitrary: b) (auto intro: no_exit_intros)

lemma get_offloaded_entries_no_exit: "no_exit (get_offloaded_entries Q pad pad' buf ec)"
proof -
  have "no_exit (refill Q ec)" by (auto simp: no_exit_def refill_def Let_def split: prod.splits option.splits)
  then show ?thesis by (auto simp: get_offloaded_entries_def intro!: no_exit_intros split: option.split)
qed

lemma ex_switch_event_no_exit: "no_exit (handle_switch_event ex_fe_sys fd f)"
  by (auto simp: no_exit_def handle_switch_event_def ex_fe_sys_def ex_sys_def check_def update_rule_bytes_def ret_def crash_def split: option.split)

lemma ex_timer_event_no_exit: "no_exit (handle_timer_event ex_fe_os ex_fe_sys Q pad fds f)"
  unfolding handle_timer_event_def Let_def
  by (intro no_exit_intros get_offloaded_entries_no_exit) (auto simp: ex_fe_os_def ex_fe_sys_def ex_sys_def intro!: no_exit_intros)

lemma ex_fe_sys_wait: "sys_epoll_wait ex_fe_sys ep n s = (Some [3, 6], s)"
  by (simp add: ex_fe_sys_def)

lemma ex_loop_no_exit: "no_exit (frontend_loop n ex_fe_os ex_fe_sys ex_fe_dpdk Q pad st ex_fds f)"
proof (induction n arbitrary: f)
  case (Suc n)
  have "no_exit (handle_fe_event ex_fe_os ex_fe_sys ex_fe_dpdk Q pad st ex_fds fd f)" if "fd \<in> {3, 6}" for fd f
    using that ex_switch_event_no_exit ex_timer_event_no_exit by (auto simp: handle_fe_event_def ex_fds_def)
  then have "no_exit (for_each (handle_fe_event ex_fe_os ex_fe_sys ex_fe_dpdk Q pad st ex_fds) [3, 6] f)" for f
    by (intro no_exit_for_each) simp
  then have "no_exit (frontend_round ex_fe_os ex_fe_sys ex_fe_dpdk Q pad st ex_fds f)" for f
    by (simp add: no_exit_def frontend_round_def check_def ex_fe_sys_wait del: for_each.simps)
  then show ?case using Suc by (auto intro: no_exit_intros)
qed (simp add: no_exit_intros)

theorem frontend_loop_safe_witness:
  "\<exists>f. fst (frontend_loop 5 ex_fe_os ex_fe_sys ex_fe_dpdk ref_queues ex_pad statics_init ex_fds
       (frontend_new (\<lambda>_. ex_pair) (\<lambda>_. mp_key ex_pair) (\<lambda>_. 0) (\<lambda>_. 0)) ([ex_pair], [])) = Ret f \<and> fe_ok f"
  using frontend_loop_safe [OF ref_q.offload_source_axioms ex_fe_sys_messages, where n = 5 and OS = ex_fe_os and D = ex_fe_dpdk and pad = ex_pad and st = statics_init
      and ps = "\<lambda>_. ex_pair" and ks = "\<lambda>_. mp_key ex_pair" and ?b0.0 = "\<lambda>_. 0" and ?b1.0 = "\<lambda>_. 0" and s = "([ex_pair], [])"]
    ex_loop_no_exit unfolding no_exit_def by (fastforce split: outcome.splits)

end
