(* ===== verification/Flow_Machine.thy ===== *)
theory Flow_Machine
  imports Pkt_Processor
begin

text \<open>
  What \<open>process_pkts\<close> promises of connections: an abstract state machine with a table of clients and the two
  queues of offload operations, and the proof that every packet is one step of it.  The invariants of the
  machine are those of the front end.
\<close>

section \<open>The machine\<close>

text \<open>A client is its address and port as they stand in a packet.\<close>

type_synonym client = "u32 \<times> u16"

definition client_crc :: "client \<Rightarrow> u8" where
  "client_crc c = calculate_crc8 crc8_table (fst c) (snd c)"

definition client_hkey :: "client \<Rightarrow> u64" where
  "client_hkey c = conn_key (fst c) (snd c)"

definition client_key :: "client \<Rightarrow> my_key" where
  "client_key c = conn_my_key (client_crc c) (fst c) (snd c)"

record flow_sys =
  fs_tab :: "client \<rightharpoonup> flow_data"
  fs_adds :: "my_pair list"
  fs_dels :: "my_key list"

definition offload_del :: "client \<Rightarrow> flow_data \<Rightarrow> my_key list" where
  "offload_del c fd = (if fd_state fd = OFFLOAD then [client_key c] else [])"

text \<open>A connection in the table is well-formed: it is past \<open>INIT\<close> and has its first packet.\<close>

definition flow_ok :: "flow_data \<Rightarrow> bool" where
  "flow_ok fd \<longleftrightarrow> fd_state fd \<noteq> INIT \<and> (\<exists>b. fd_recv_pkt fd = Some b \<and> length b = fd_pkt_size fd)"

inductive flow_step :: "flow_sys \<Rightarrow> flow_sys \<Rightarrow> bool" where
  stay: "flow_step S S"
| open_flow: "fs_tab S c = None \<Longrightarrow> flow_ok fd \<Longrightarrow> fd_state fd = BACKEND_SYN \<Longrightarrow>
    flow_step S (S\<lparr>fs_tab := (fs_tab S)(c \<mapsto> fd)\<rparr>)"
| establish: "fs_tab S c = Some fd \<Longrightarrow> fd_state fd = BACKEND_SYN \<Longrightarrow> md_offload_flag (fd_entry_data fd) \<noteq> 1 \<Longrightarrow>
    flow_step S (S\<lparr>fs_tab := (fs_tab S)(c \<mapsto> fd\<lparr>fd_state := COMPLETE\<rparr>)\<rparr>)"
| offload: "fs_tab S c = Some fd \<Longrightarrow> fd_state fd \<in> {BACKEND_SYN, COMPLETE} \<Longrightarrow>
    flow_step S (S\<lparr>fs_tab := (fs_tab S)(c \<mapsto> fd\<lparr>fd_state := OFFLOAD\<rparr>),
      fs_adds := fs_adds S @ [\<lparr>mp_key = client_key c, mp_data = fd_entry_data fd\<rparr>]\<rparr>)"
| take_back: "fs_tab S c = Some fd \<Longrightarrow> fd_state fd = OFFLOAD \<Longrightarrow>
    flow_step S (S\<lparr>fs_tab := (fs_tab S)(c \<mapsto> fd\<lparr>fd_state := COMPLETE\<rparr>), fs_dels := fs_dels S @ [client_key c]\<rparr>)"
| move_flow: "fs_tab S c = Some fd \<Longrightarrow> fd_state fd \<in> {COMPLETE, OFFLOAD} \<Longrightarrow> flow_ok fd' \<Longrightarrow> fd_state fd' = BACKEND_SYN \<Longrightarrow>
    md_d_index (fd_entry_data fd') \<noteq> md_d_index (fd_entry_data fd) \<Longrightarrow>
    flow_step S (S\<lparr>fs_tab := (fs_tab S)(c \<mapsto> fd'), fs_dels := fs_dels S @ offload_del c fd\<rparr>)"
| close: "fs_tab S c = Some fd \<Longrightarrow> fd_state fd \<in> {COMPLETE, OFFLOAD} \<Longrightarrow>
    flow_step S (S\<lparr>fs_tab := (fs_tab S)(c := None), fs_dels := fs_dels S @ offload_del c fd\<rparr>)"

inductive_cases flow_stepE: "flow_step S S'"

section \<open>Invariants of the machine\<close>

lemma bswap16_eq_iff [simp]: "bswap16 a = bswap16 b \<longleftrightarrow> a = b"
  by (metis bswap16_bswap16)

lemma client_key_inj [simp]: "client_key c = client_key c' \<longleftrightarrow> c = c'"
  by (cases c; cases c') (auto simp: client_key_def conn_my_key_def)

definition offloaded :: "flow_sys \<Rightarrow> client \<Rightarrow> bool" where
  "offloaded S c \<longleftrightarrow> (\<exists>fd. fs_tab S c = Some fd \<and> fd_state fd = OFFLOAD)"

text \<open>The number of additions of a client that no deletion follows, and the latest addition of a client.\<close>

definition add_count :: "flow_sys \<Rightarrow> client \<Rightarrow> nat" where
  "add_count S c = count_list (map mp_key (fs_adds S)) (client_key c)"

definition del_count :: "flow_sys \<Rightarrow> client \<Rightarrow> nat" where
  "del_count S c = count_list (fs_dels S) (client_key c)"

definition last_add :: "flow_sys \<Rightarrow> client \<Rightarrow> my_data option" where
  "last_add S c = map_option mp_data (find (\<lambda>p. mp_key p = client_key c) (rev (fs_adds S)))"

text \<open>
  Every client has been added as often as deleted, and once more exactly while it is offloaded; then the latest
  addition names the server that the connection has.
\<close>

definition flow_inv :: "flow_sys \<Rightarrow> bool" where
  "flow_inv S \<longleftrightarrow> (\<forall>c fd. fs_tab S c = Some fd \<longrightarrow> flow_ok fd \<and> (fd_state fd = OFFLOAD \<longrightarrow> last_add S c = Some (fd_entry_data fd))) \<and>
     (\<forall>c. add_count S c = del_count S c + (if offloaded S c then 1 else 0))"

lemma flow_inv_init: "flow_inv \<lparr>fs_tab = Map.empty, fs_adds = [], fs_dels = []\<rparr>"
  by (simp add: flow_inv_def add_count_def del_count_def offloaded_def)

lemmas flow_inv_simps = flow_inv_def add_count_def del_count_def last_add_def offloaded_def offload_del_def

lemma flow_step_inv: "flow_step S S' \<Longrightarrow> flow_inv S \<Longrightarrow> flow_inv S'"
proof (induction rule: flow_step.induct)
  case (open_flow S c fd)
  then show ?case by (auto simp: flow_inv_simps)
next
  case (establish S c fd)
  then show ?case by (auto simp: flow_inv_simps flow_ok_def)
next
  case (offload S c fd)
  then show ?case by (auto simp: flow_inv_simps flow_ok_def)
next
  case (take_back S c fd)
  then show ?case by (auto simp: flow_inv_simps flow_ok_def)
next
  case (move_flow S c fd fd')
  then show ?case by (auto simp: flow_inv_simps)
next
  case (close S c fd)
  then show ?case by (auto simp: flow_inv_simps)
qed

section \<open>The state behind the calls\<close>

text \<open>What is seen of it: the pointers in the hash maps, what was enqueued, and the live \<open>flow_data_t\<close> objects.\<close>

record fe_view =
  fv_flows :: "u8 \<Rightarrow> u64 \<rightharpoonup> nat"
  fv_adds :: "my_pair list"
  fv_dels :: "my_key list"
  fv_live :: "nat set"

definition put_flow :: "u8 \<Rightarrow> u64 \<Rightarrow> nat option \<Rightarrow> fe_view \<Rightarrow> fe_view" where
  "put_flow crc key r v = v\<lparr>fv_flows := (fv_flows v)(crc := (fv_flows v crc)(key := r))\<rparr>"

text \<open>
  The documented behaviour of the libraries: \<open>insert\<close> keeps an existing entry, an enqueued element is in the
  queue, an allocated object is not one that is still in use, and the packet buffers have nothing to do
  with any of it.
\<close>

locale flow_env =
  fixes E :: "'s fe_env" and view :: "'s \<Rightarrow> fe_view"
  assumes find: "flow_find E crc key s = fv_flows (view s) crc key"
    and insert: "view (flow_insert E crc key p s) = (if fv_flows (view s) crc key = None then put_flow crc key (Some p) (view s) else view s)"
    and erase: "view (flow_erase E crc key s) = put_flow crc key None (view s)"
    and add_enq: "view (add_enqueue E x s) = (view s)\<lparr>fv_adds := fv_adds (view s) @ [x]\<rparr>"
    and del_enq: "view (del_enqueue E k s) = (view s)\<lparr>fv_dels := fv_dels (view s) @ [k]\<rparr>"
    and malloc: "rte_malloc_flow E s = (Some p, s') \<Longrightarrow> p \<notin> fv_live (view s) \<and> view s' = (view s)\<lparr>fv_live := insert p (fv_live (view s))\<rparr>"
    and free: "view (rte_free_flow E p s) = (view s)\<lparr>fv_live := fv_live (view s) - {p}\<rparr>"
    and malloc_buf: "view (snd (rte_malloc_buf E n s)) = view s"
    and free_buf: "view (rte_free_buf E b s) = view s"
    and alloc_bulk: "view (snd (rte_pktmbuf_alloc_bulk E n s)) = view s"
    and free_bulk: "view (rte_pktmbuf_free_bulk E ms s) = view s"
    and tx_burst: "view (snd (rte_eth_tx_burst E q ms s)) = view s"
    and rx_burst: "view (snd (rte_eth_rx_burst E q n s)) = view s"

text \<open>Every pointer in the maps stands under the keys of one client only, and points to a live object.\<close>

definition proc_ok :: "('s \<Rightarrow> fe_view) \<Rightarrow> 's proc \<Rightarrow> bool" where
  "proc_ok view st \<longleftrightarrow>
     (\<forall>crc key p. fv_flows (view (dev st)) crc key = Some p \<longrightarrow>
        (\<exists>c. crc = client_crc c \<and> key = client_hkey c) \<and> (\<exists>fd. flows st p = Some fd \<and> flow_ok fd)) \<and>
     (\<forall>c c' p. fv_flows (view (dev st)) (client_crc c) (client_hkey c) = Some p \<longrightarrow>
        fv_flows (view (dev st)) (client_crc c') (client_hkey c') = Some p \<longrightarrow> c = c') \<and>
     dom (flows st) \<subseteq> fv_live (view (dev st))"

definition flow_ptr :: "('s \<Rightarrow> fe_view) \<Rightarrow> 's proc \<Rightarrow> client \<Rightarrow> nat option" where
  "flow_ptr view st c = fv_flows (view (dev st)) (client_crc c) (client_hkey c)"

definition flow_abs :: "('s \<Rightarrow> fe_view) \<Rightarrow> 's proc \<Rightarrow> flow_sys" where
  "flow_abs view st = \<lparr>fs_tab = (\<lambda>c. Option.bind (flow_ptr view st c) (flows st)),
     fs_adds = fv_adds (view (dev st)), fs_dels = fv_dels (view (dev st))\<rparr>"

lemma unat_conn_key: "unat (conn_key ip port) = unat ip * 4294967296 + unat port"
proof -
  have "unat ip < 2 ^ 32" "unat ip < 2 ^ 64" "unat port < 2 ^ 64"
    by (rule order_less_le_trans [OF unat_u32_lt] order_less_le_trans [OF unat_u16_lt], simp)+
  then have s: "take_bit 32 (unat ip) = unat ip" "take_bit 64 (unat ip) = unat ip" "take_bit 64 (unat port) = unat port"
    by (simp_all only: take_bit_nat_eq_self)
  have "unat ip * 4294967296 < 2 ^ 64" using unat_u32_lt [of ip] by simp
  then have t: "take_bit 64 (unat ip * 4294967296) = unat ip * 4294967296" by (simp only: take_bit_nat_eq_self)
  have a: "unat (push_bit 32 (ucast ip) :: u64) = unat ip * 4294967296"
    by (simp only: unsigned_push_bit_eq unsigned_ucast_eq) (simp add: s t push_bit_eq_mult)
  have b: "unat (ucast port :: u64) = unat port" by (simp only: unsigned_ucast_eq) (simp add: s)
  have "unat ip * 4294967296 + unat port < 18446744073709551616"
    using unat_u32_lt [of ip] unat_u16_lt [of port] by linarith
  then show ?thesis unfolding conn_key_def by (subst unat_plus_if') (simp add: a b)
qed

lemma client_hkey_inj [simp]: "client_hkey c = client_hkey c' \<longleftrightarrow> c = c'"
proof
  assume "client_hkey c = client_hkey c'"
  then have "unat (fst c) * 4294967296 + unat (snd c) = unat (fst c') * 4294967296 + unat (snd c')"
    unfolding client_hkey_def by (metis unat_conn_key)
  moreover have "(a * 4294967296 + b) div 4294967296 = a" "(a * 4294967296 + b) mod 4294967296 = b" if "b < 65536" for a b :: nat
    using that by simp_all
  ultimately have "unat (fst c) = unat (fst c')" "unat (snd c) = unat (snd c')" by (metis unat_u16_lt)+
  then show "c = c'" by (simp add: word_unat_eq_iff prod_eq_iff)
qed simp

section \<open>Changes of the state\<close>

lemma flow_abs_tab: "fs_tab (flow_abs view st) c = Option.bind (flow_ptr view st c) (flows st)"
  by (simp add: flow_abs_def)

lemma flow_ptr_ok:
  assumes "proc_ok view st" "flow_ptr view st c = Some p"
  shows "\<exists>fd. flows st p = Some fd \<and> flow_ok fd" "p \<in> fv_live (view (dev st))"
  using assms by (fastforce simp: proc_ok_def flow_ptr_def)+

lemma flow_ptr_inj: "proc_ok view st \<Longrightarrow> flow_ptr view st c = Some p \<Longrightarrow> flow_ptr view st c' = Some p \<Longrightarrow> c = c'"
  unfolding proc_ok_def flow_ptr_def by blast

lemma flow_ptr_other: "proc_ok view st \<Longrightarrow> flow_ptr view st c = Some p \<Longrightarrow> c' \<noteq> c \<Longrightarrow> flow_ptr view st c' \<noteq> Some p"
  using flow_ptr_inj by blast

lemma proc_okD:
  assumes "proc_ok view st" "fv_flows (view (dev st)) crc key = Some p"
  shows "\<exists>c. crc = client_crc c \<and> key = client_hkey c \<and> flow_ptr view st c = Some p" "\<exists>fd. flows st p = Some fd \<and> flow_ok fd"
  using assms unfolding proc_ok_def flow_ptr_def by blast+

lemma proc_okI:
  assumes "\<And>crc key p. fv_flows (view (dev st)) crc key = Some p \<Longrightarrow> \<exists>c. crc = client_crc c \<and> key = client_hkey c"
    and "\<And>crc key p. fv_flows (view (dev st)) crc key = Some p \<Longrightarrow> \<exists>fd. flows st p = Some fd \<and> flow_ok fd"
    and "\<And>c c' p. flow_ptr view st c = Some p \<Longrightarrow> flow_ptr view st c' = Some p \<Longrightarrow> c = c'"
    and "dom (flows st) \<subseteq> fv_live (view (dev st))"
  shows "proc_ok view st"
  using assms unfolding proc_ok_def flow_ptr_def by blast

lemma proc_ok_dom: "proc_ok view st \<Longrightarrow> dom (flows st) \<subseteq> fv_live (view (dev st))"
  by (simp add: proc_ok_def)

lemma flow_tab_upd:
  assumes "flows st' = (flows st)(p := x)" "\<And>c'. c' \<noteq> c \<Longrightarrow> flow_ptr view st' c' = flow_ptr view st c' \<and> flow_ptr view st c' \<noteq> Some p"
    and "Option.bind (flow_ptr view st' c) (flows st') = y"
  shows "fs_tab (flow_abs view st') = (fs_tab (flow_abs view st))(c := y)"
proof
  fix c' show "fs_tab (flow_abs view st') c' = ((fs_tab (flow_abs view st))(c := y)) c'"
    using assms(2) [of c'] assms(3) by (cases "c' = c"; cases "flow_ptr view st c'") (auto simp: flow_abs_tab assms(1))
qed

text \<open>An object that stands for a client is changed.\<close>

lemma change_flow:
  assumes ok: "proc_ok view st" and p: "flow_ptr view st c = Some p" and fd: "flow_ok fd'"
    and st': "flows st' = (flows st)(p \<mapsto> fd')" "fv_flows (view (dev st')) = fv_flows (view (dev st))" "fv_live (view (dev st')) = fv_live (view (dev st))"
  shows "proc_ok view st'" "fs_tab (flow_abs view st') = (fs_tab (flow_abs view st))(c \<mapsto> fd')"
proof -
  have ptr: "flow_ptr view st' = flow_ptr view st" using st'(2) by (simp add: flow_ptr_def fun_eq_iff)
  show "proc_ok view st'"
  proof (rule proc_okI)
    fix crc key q assume "fv_flows (view (dev st')) crc key = Some q"
    then have q: "fv_flows (view (dev st)) crc key = Some q" by (simp add: st')
    show "\<exists>c. crc = client_crc c \<and> key = client_hkey c" using proc_okD(1) [OF ok q] by blast
    show "\<exists>fd. flows st' q = Some fd \<and> flow_ok fd" using proc_okD(2) [OF ok q] fd by (simp add: st'(1))
  qed (use ptr flow_ptr_inj [OF ok] proc_ok_dom [OF ok] flow_ptr_ok(2) [OF ok p] st' in auto)
  show "fs_tab (flow_abs view st') = (fs_tab (flow_abs view st))(c \<mapsto> fd')"
    using p flow_ptr_other [OF ok p] by (intro flow_tab_upd [OF st'(1)]) (auto simp: ptr st'(1))
qed

text \<open>A client is erased and its object freed.\<close>

lemma drop_flow:
  assumes ok: "proc_ok view st" and p: "flow_ptr view st c = Some p"
    and st': "flows st' = (flows st)(p := None)" "fv_flows (view (dev st')) = fv_flows (put_flow (client_crc c) (client_hkey c) None (view (dev st)))"
      "fv_live (view (dev st')) = fv_live (view (dev st)) - {p}"
  shows "proc_ok view st'" "fs_tab (flow_abs view st') = (fs_tab (flow_abs view st))(c := None)"
proof -
  have ptr: "flow_ptr view st' c' = (if c' = c then None else flow_ptr view st c')" for c'
    using st'(2) by (auto simp: flow_ptr_def put_flow_def)
  have fl: "fv_flows (view (dev st')) crc key = Some q \<longleftrightarrow> fv_flows (view (dev st)) crc key = Some q \<and> \<not> (crc = client_crc c \<and> key = client_hkey c)"
    for crc key q unfolding st'(2) by (auto simp: put_flow_def)
  have ne: "q \<noteq> p" if q: "fv_flows (view (dev st')) crc key = Some q" for crc key q
    using proc_okD(1) [OF ok, of crc key q] q flow_ptr_inj [OF ok p] unfolding fl by blast
  show "proc_ok view st'"
  proof (rule proc_okI)
    fix crc key q assume q: "fv_flows (view (dev st')) crc key = Some q"
    then show "\<exists>c. crc = client_crc c \<and> key = client_hkey c" using proc_okD(1) [OF ok, of crc key q] unfolding fl by blast
    show "\<exists>fd. flows st' q = Some fd \<and> flow_ok fd" using q ne [OF q] proc_okD(2) [OF ok, of crc key q] unfolding fl st'(1) by auto
  next
    fix c1 c2 q assume "flow_ptr view st' c1 = Some q" "flow_ptr view st' c2 = Some q"
    then show "c1 = c2" using flow_ptr_inj [OF ok, of c1 q c2] by (simp add: ptr split: if_splits)
  qed (use proc_ok_dom [OF ok] st' in auto)
  show "fs_tab (flow_abs view st') = (fs_tab (flow_abs view st))(c := None)"
    using p flow_ptr_other [OF ok p] by (intro flow_tab_upd [OF st'(1)]) (auto simp: ptr)
qed

text \<open>A new client gets a fresh object.\<close>

lemma add_flow:
  assumes ok: "proc_ok view st" and c: "flow_ptr view st c = None" and fd: "flow_ok fd" and p: "p \<notin> fv_live (view (dev st))"
    and st': "flows st' = (flows st)(p \<mapsto> fd)" "fv_flows (view (dev st')) = fv_flows (put_flow (client_crc c) (client_hkey c) (Some p) (view (dev st)))"
      "fv_live (view (dev st')) = insert p (fv_live (view (dev st)))"
  shows "proc_ok view st'" "fs_tab (flow_abs view st') = (fs_tab (flow_abs view st))(c \<mapsto> fd)"
proof -
  have ptr: "flow_ptr view st' c' = (if c' = c then Some p else flow_ptr view st c')" for c'
    using st'(2) by (auto simp: flow_ptr_def put_flow_def)
  have fl: "fv_flows (view (dev st')) crc key = Some q \<longleftrightarrow>
      (if crc = client_crc c \<and> key = client_hkey c then q = p else fv_flows (view (dev st)) crc key = Some q)"
    for crc key q unfolding st'(2) by (auto simp: put_flow_def)
  have ne: "q \<noteq> p" if "fv_flows (view (dev st)) crc key = Some q" for crc key q
    using proc_okD(2) [OF ok that] proc_ok_dom [OF ok] p by blast
  then have np: "flow_ptr view st c' \<noteq> Some p" for c' unfolding flow_ptr_def by blast
  show "proc_ok view st'"
  proof (rule proc_okI)
    fix crc key q assume q: "fv_flows (view (dev st')) crc key = Some q"
    then show "\<exists>c. crc = client_crc c \<and> key = client_hkey c"
      using proc_okD(1) [OF ok, of crc key q] unfolding fl by metis
    show "\<exists>fd. flows st' q = Some fd \<and> flow_ok fd"
      using q fd proc_okD(2) [OF ok, of crc key q] unfolding fl st'(1) by (auto split: if_splits)
  next
    fix c1 c2 q assume "flow_ptr view st' c1 = Some q" "flow_ptr view st' c2 = Some q"
    then show "c1 = c2" using flow_ptr_inj [OF ok, of c1 q c2] np [of c1] np [of c2] by (auto simp: ptr split: if_splits)
  qed (use proc_ok_dom [OF ok] st' in auto)
  show "fs_tab (flow_abs view st') = (fs_tab (flow_abs view st))(c \<mapsto> fd)"
    using np by (intro flow_tab_upd [OF st'(1)]) (auto simp: ptr st'(1))
qed

section \<open>Every packet is a step\<close>

text \<open>A condition holds of the state whenever an iteration comes to an end.\<close>

definition ends :: "('s proc \<Rightarrow> bool) \<Rightarrow> 's iteration \<Rightarrow> 's proc \<Rightarrow> bool" where
  "ends P it st \<longleftrightarrow> (\<forall>r st'. it st = (Ret r, st') \<longrightarrow> P st')"

lemma ends_crash: "ends P crash st"
  by (simp add: ends_def crash_def)

lemma ends_next: "P st \<Longrightarrow> ends P (next_pkt sb) st"
  by (simp add: ends_def next_pkt_def)

lemma ends_send:
  assumes "P st" "\<And>sb. ends P (k sb) st"
  shows "ends P (send_one build sb k) st"
  using assms by (cases sb) (auto simp: ends_def send_one_def crash_def split: option.splits prod.splits)

lemma ends_send_ok:
  assumes "\<And>m status m'. build m = Some (status, m') \<Longrightarrow> status = OK" "\<And>sb. ends P (k sb) st"
  shows "ends P (send_one build sb k) st"
  using assms by (cases sb) (auto simp: ends_def send_one_def crash_def split: option.splits prod.splits)

lemma ends_modify: "ends P k (f st) \<Longrightarrow> ends P (modify f k) st"
  by (simp add: ends_def modify_def)

lemma ends_request: "(\<And>url. ends P (k url) st) \<Longrightarrow> ends P (with_request m h k) st"
  using ends_crash [of P st] by (auto simp: with_request_def split: option.splits)

lemma ends_deref: "(\<And>fd. flows st p = Some fd \<Longrightarrow> ends P (k fd) st) \<Longrightarrow> ends P (deref p k) st"
  by (auto simp: ends_def deref_def split: option.splits)

lemma ends_if: "(b \<Longrightarrow> ends P x st) \<Longrightarrow> (\<not> b \<Longrightarrow> ends P y st) \<Longrightarrow> ends P (if b then x else y) st"
  by simp

lemma ends_option:
  "(x = None \<Longrightarrow> ends P n st) \<Longrightarrow> (\<And>y. x = Some y \<Longrightarrow> ends P (f y) st) \<Longrightarrow> ends P (case x of None \<Rightarrow> n | Some y \<Rightarrow> f y) st"
  by (cases x) auto

lemmas ends_branches = ends_if ends_option ends_request
lemmas ends_intros = ends_crash ends_next ends_send ends_modify ends_request

lemma send_syn_ok: "send_syn_pkt rc i m m' = Some (status, m'') \<Longrightarrow> status = OK"
  by (auto simp: send_syn_pkt_def bind_eq_Some_conv)

lemma ends_send_syn: "(\<And>sb. ends P (k sb) st) \<Longrightarrow> ends P (send_one (send_syn_pkt rc i m) sb k) st"
  by (rule ends_send_ok [OF send_syn_ok])

lemma on_dev_simps [simp]: "flows (on_dev f st) = flows st" "dev (on_dev f st) = f (dev st)"
  by (simp_all add: on_dev_def)

lemma set_flow_simps [simp]: "flows (set_flow p fd st) = (flows st)(p \<mapsto> fd)" "dev (set_flow p fd st) = dev st"
  by (simp_all add: set_flow_def)

definition reach :: "('s \<Rightarrow> fe_view) \<Rightarrow> 's proc \<Rightarrow> 's proc \<Rightarrow> bool" where
  "reach view st st' \<longleftrightarrow> proc_ok view st' \<and> flow_step (flow_abs view st) (flow_abs view st')"

lemma reach_refl: "proc_ok view st \<Longrightarrow> reach view st st"
  by (simp add: reach_def flow_step.stay)

context flow_env begin

lemma ends_cache:
  assumes "\<And>b d. view d = view (dev st) \<Longrightarrow> length b = unat (mb_data_len m) \<Longrightarrow> ends P (k b) (st\<lparr>dev := d\<rparr>)"
  shows "ends P (cache_pkt E m k) st"
proof (cases "rte_malloc_buf E (unat (mb_data_len m)) (dev st)")
  case (Pair r d)
  then have "view d = view (dev st)" using malloc_buf [of "unat (mb_data_len m)" "dev st"] by simp
  then show ?thesis
    using assms [of d "take (unat (mb_data_len m)) (mb_data m)"] Pair by (auto simp: ends_def cache_pkt_def ldn_def split: option.splits)
qed

lemma close_reach:
  assumes ok: "proc_ok view st" and p: "flow_ptr view st c = Some p" "flows st p = Some fd" "fd_state fd \<in> {COMPLETE, OFFLOAD}"
  shows "reach view st (close_flow E (client_crc c) (client_hkey c) (client_key c) p fd st)" (is "reach view st ?st'")
proof -
  have v: "flows ?st' = (flows st)(p := None)"
      "view (dev ?st') = (put_flow (client_crc c) (client_hkey c) None (view (dev st)))\<lparr>fv_dels := fv_dels (view (dev st)) @ offload_del c fd,
         fv_live := fv_live (view (dev st)) - {p}\<rparr>"
    by (simp_all add: close_flow_def free_flow_def Let_def free free_buf erase del_enq offload_del_def put_flow_def split: option.split)
  note d = drop_flow [OF ok p(1) v(1)]
  have "proc_ok view ?st'" "fs_tab (flow_abs view ?st') = (fs_tab (flow_abs view st))(c := None)"
    by (rule d; simp add: v(2))+
  moreover from this(2) have "flow_abs view ?st' =
      (flow_abs view st)\<lparr>fs_tab := (fs_tab (flow_abs view st))(c := None), fs_dels := fs_dels (flow_abs view st) @ offload_del c fd\<rparr>"
    by (intro flow_sys.equality) (simp_all add: flow_abs_def v(2) put_flow_def)
  moreover have "fs_tab (flow_abs view st) c = Some fd" using p by (simp add: flow_abs_tab)
  ultimately show ?thesis using p(3) by (simp add: reach_def flow_step.close)
qed

text \<open>A change of the object of a client together with what is enqueued.\<close>

lemma change_reach:
  assumes ok: "proc_ok view st" and p: "flow_ptr view st c = Some p" "flows st p = Some fd" "flow_ok fd'"
    and st': "flows st' = (flows st)(p \<mapsto> fd')" "view (dev st') = (view (dev st))\<lparr>fv_adds := as, fv_dels := ds\<rparr>"
    and step: "flow_step (flow_abs view st) ((flow_abs view st)\<lparr>fs_tab := (fs_tab (flow_abs view st))(c \<mapsto> fd'), fs_adds := as, fs_dels := ds\<rparr>)"
  shows "reach view st st'"
proof -
  have "proc_ok view st'" "fs_tab (flow_abs view st') = (fs_tab (flow_abs view st))(c \<mapsto> fd')"
    by (rule change_flow [OF ok p(1,3) st'(1)]; simp add: st'(2))+
  moreover from this(2) have "flow_abs view st' = (flow_abs view st)\<lparr>fs_tab := (fs_tab (flow_abs view st))(c \<mapsto> fd'), fs_adds := as, fs_dels := ds\<rparr>"
    by (intro flow_sys.equality) (simp_all add: flow_abs_def st'(2))
  ultimately show ?thesis using step by (simp add: reach_def)
qed

lemma src_established_reach:
  assumes ok: "proc_ok view st" and p: "flow_ptr view st c = Some p" "flows st p = Some fd" "fd_state fd \<in> {COMPLETE, OFFLOAD}"
  shows "ends (reach view st) (src_established E rc m h (client_crc c) (client_hkey c) (client_key c) p fd sb) st"
proof -
  have ab: "fs_tab (flow_abs view st) c = Some fd" and fok: "flow_ok fd" using p flow_ptr_ok(1) [OF ok p(1)] by (auto simp: flow_abs_tab)
  note stay = reach_refl [OF ok] and close = close_reach [OF ok p]
  have move: "reach view st (set_flow p (fd\<lparr>fd_state := BACKEND_SYN, fd_entry_data := data, fd_recv_pkt := Some b, fd_pkt_size := unat (mb_data_len m)\<rparr>) st1)"
    if "md_d_index data \<noteq> md_d_index (fd_entry_data fd)" "length b = unat (mb_data_len m)" "flows st1 = flows st"
      and "view (dev st1) = (view (dev st))\<lparr>fv_dels := fv_dels (view (dev st)) @ offload_del c fd\<rparr>" for st1 data b
  proof -
    let ?fd = "fd\<lparr>fd_state := BACKEND_SYN, fd_entry_data := data, fd_recv_pkt := Some b, fd_pkt_size := unat (mb_data_len m)\<rparr>"
    have "flow_ok ?fd" using that(2) by (simp add: flow_ok_def)
    then show ?thesis
      using flow_step.move_flow [OF ab p(3), of ?fd] that
      by (intro change_reach [OF ok p(1,2), where fd' = ?fd and as = "fv_adds (view (dev st))" and ds = "fv_dels (view (dev st)) @ offload_del c fd"])
        (simp_all add: flow_abs_def)
  qed
  have up: "reach view st (on_dev (add_enqueue E \<lparr>mp_key = client_key c, mp_data = fd_entry_data fd\<rparr>) (set_flow p (fd\<lparr>fd_state := OFFLOAD\<rparr>) st))"
    if "fd_state fd = COMPLETE"
    using that fok flow_step.offload [OF ab]
    by (intro change_reach [OF ok p(1,2), where fd' = "fd\<lparr>fd_state := OFFLOAD\<rparr>" and as = "fv_adds (view (dev st)) @ [\<lparr>mp_key = client_key c, mp_data = fd_entry_data fd\<rparr>]"
          and ds = "fv_dels (view (dev st))"]) (simp_all add: flow_ok_def add_enq flow_abs_def)
  have down: "reach view st (on_dev (del_enqueue E (client_key c)) (set_flow p (fd\<lparr>fd_state := COMPLETE\<rparr>) st))" if "fd_state fd = OFFLOAD"
    using that fok flow_step.take_back [OF ab]
    by (intro change_reach [OF ok p(1,2), where fd' = "fd\<lparr>fd_state := COMPLETE\<rparr>" and as = "fv_adds (view (dev st))"
          and ds = "fv_dels (view (dev st)) @ [client_key c]"]) (simp_all add: flow_ok_def del_enq flow_abs_def)
  show ?thesis
    unfolding src_established_def
  proof (intro ends_branches)
    fix url :: bytes and data :: my_data assume d: "md_d_index data \<noteq> md_d_index (fd_entry_data fd)"
    show "ends (reach view st) (send_one (send_rst_pkt rc (md_d_index (fd_entry_data fd)) m) sb (\<lambda>sb.
        modify (if fd_state fd = OFFLOAD then on_dev (del_enqueue E (client_key c)) else id) (
        send_one (send_syn_pkt rc (md_d_index data) m) sb (\<lambda>sb.
        modify (case fd_recv_pkt fd of None \<Rightarrow> id | Some b \<Rightarrow> on_dev (rte_free_buf E b)) (
        cache_pkt E m (\<lambda>b. modify (set_flow p (fd\<lparr>fd_state := BACKEND_SYN, fd_entry_data := data, fd_recv_pkt := Some b,
          fd_pkt_size := unat (mb_data_len m)\<rparr>)) (next_pkt sb))))))) st"
      using d by (intro ends_send_syn ends_send ends_modify ends_cache ends_next stay move)
        (auto simp: del_enq free_buf offload_del_def split: option.split)
  qed (use stay close up down in \<open>auto intro!: ends_intros\<close>)
qed

lemma src_connecting_reach:
  assumes "proc_ok view st" "\<not> has_flag RTE_TCP_FIN_FLAG h" "\<not> has_flag RTE_TCP_RST_FLAG h"
  shows "ends (reach view st) (src_connecting E rc m h p fd sb) st"
  using assms reach_refl [OF assms(1)] unfolding src_connecting_def by (auto intro!: ends_intros split: option.split)

lemma dst_established_reach:
  assumes ok: "proc_ok view st" and p: "flow_ptr view st c = Some p" "flows st p = Some fd" "fd_state fd \<in> {COMPLETE, OFFLOAD}"
  shows "ends (reach view st) (dst_established E rc m h (client_crc c) (client_hkey c) (client_key c) p fd sb) st"
  using reach_refl [OF ok] close_reach [OF ok p] unfolding dst_established_def by (auto intro!: ends_intros)

lemma dst_connecting_reach:
  assumes ok: "proc_ok view st" and p: "flow_ptr view st c = Some p" "flows st p = Some fd" "fd_state fd = BACKEND_SYN"
  shows "ends (reach view st) (dst_connecting E rc h (client_key c) p fd sb) st"
proof -
  have ab: "fs_tab (flow_abs view st) c = Some fd" and fok: "flow_ok fd" using p flow_ptr_ok(1) [OF ok p(1)] by (auto simp: flow_abs_tab)
  have up: "reach view st (on_dev (add_enqueue E \<lparr>mp_key = client_key c, mp_data = fd_entry_data fd\<rparr>) (set_flow p (fd\<lparr>fd_state := OFFLOAD\<rparr>) st))"
    using p(3) fok flow_step.offload [OF ab]
    by (intro change_reach [OF ok p(1,2), where fd' = "fd\<lparr>fd_state := OFFLOAD\<rparr>" and as = "fv_adds (view (dev st)) @ [\<lparr>mp_key = client_key c, mp_data = fd_entry_data fd\<rparr>]"
          and ds = "fv_dels (view (dev st))"]) (simp_all add: flow_ok_def add_enq flow_abs_def)
  have keep: "reach view st (set_flow p (fd\<lparr>fd_state := COMPLETE\<rparr>) st)" if "md_offload_flag (fd_entry_data fd) \<noteq> 1"
    using p(3) fok flow_step.establish [OF ab p(3) that]
    by (intro change_reach [OF ok p(1,2), where fd' = "fd\<lparr>fd_state := COMPLETE\<rparr>" and as = "fv_adds (view (dev st))"
          and ds = "fv_dels (view (dev st))"]) (simp_all add: flow_ok_def flow_abs_def)
  show ?thesis
    using reach_refl [OF ok] up keep unfolding dst_connecting_def by (auto intro!: ends_intros split: option.split)
qed

lemma new_client_reach:
  assumes ok: "proc_ok view st" and c: "flow_ptr view st c = None"
  shows "ends (reach view st) (new_client E rc m h (client_crc c) (client_hkey c) sb) st"
proof -
  let ?fd = "\<lambda>data b. \<lparr>fd_state = BACKEND_SYN, fd_entry_data = data, fd_recv_pkt = Some b, fd_pkt_size = unat (mb_data_len m)\<rparr>"
  have new: "reach view st (on_dev (flow_insert E (client_crc c) (client_hkey c) p) (set_flow p (?fd data b) (st\<lparr>dev := d'\<rparr>)))"
    if "rte_malloc_flow E (dev st) = (Some p, d)" "view d' = view d" "length b = unat (mb_data_len m)" for p d d' data b
  proof -
    let ?st = "on_dev (flow_insert E (client_crc c) (client_hkey c) p) (set_flow p (?fd data b) (st\<lparr>dev := d'\<rparr>))"
    have p: "p \<notin> fv_live (view (dev st))" "view d' = (view (dev st))\<lparr>fv_live := Set.insert p (fv_live (view (dev st)))\<rparr>"
      using malloc [OF that(1)] that(2) by simp_all
    have fok: "flow_ok (?fd data b)" using that(3) by (simp add: flow_ok_def)
    have v: "view (flow_insert E (client_crc c) (client_hkey c) p d') = put_flow (client_crc c) (client_hkey c) (Some p) (view d')"
      using c p(2) by (simp add: insert flow_ptr_def)
    have "proc_ok view ?st" "fs_tab (flow_abs view ?st) = (fs_tab (flow_abs view st))(c \<mapsto> ?fd data b)"
      by (rule add_flow [OF ok c fok p(1)]; simp add: v p(2) put_flow_def)+
    moreover from this(2) have "flow_abs view ?st = (flow_abs view st)\<lparr>fs_tab := (fs_tab (flow_abs view st))(c \<mapsto> ?fd data b)\<rparr>"
      by (intro flow_sys.equality) (simp_all add: flow_abs_def v p(2) put_flow_def)
    moreover have "fs_tab (flow_abs view st) c = None" using c by (simp add: flow_abs_tab)
    ultimately show ?thesis using flow_step.open_flow [of "flow_abs view st" c "?fd data b"] fok by (simp add: reach_def)
  qed
  have alloc: "ends (reach view st) (\<lambda>st. case rte_malloc_flow E (dev st) of
      (None, d) \<Rightarrow> (Crash, st\<lparr>dev := d\<rparr>)
    | (Some p, d) \<Rightarrow> cache_pkt E m (\<lambda>b. modify (set_flow p (?fd data b)) (
        modify (on_dev (flow_insert E (client_crc c) (client_hkey c) p)) (next_pkt sb))) (st\<lparr>dev := d\<rparr>)) st" for data sb
  proof (cases "rte_malloc_flow E (dev st)")
    case (Pair r d)
    show ?thesis
    proof (cases r)
      case (Some p)
      have "ends (reach view st) (cache_pkt E m (\<lambda>b. modify (set_flow p (?fd data b)) (
          modify (on_dev (flow_insert E (client_crc c) (client_hkey c) p)) (next_pkt sb)))) (st\<lparr>dev := d\<rparr>)"
        using new Pair Some by (intro ends_cache ends_modify ends_next) simp
      then show ?thesis using Pair Some by (simp add: ends_def)
    qed (simp add: ends_def Pair)
  qed
  show ?thesis
    using reach_refl [OF ok] unfolding new_client_def by (intro ends_branches ends_send_syn ends_next alloc)
qed

text \<open>
  The one packet that is not a step: FIN or RST from a client whose connection is in state \<open>BACKEND_SYN\<close>, which
  frees the object and leaves a pointer to it in the hash map.
\<close>

end

definition src_client :: "pkt_hdr \<Rightarrow> client" where
  "src_client h = (h_src_addr h, h_src_port h)"

definition dst_client :: "pkt_hdr \<Rightarrow> client" where
  "dst_client h = (h_dst_addr h, h_dst_port h)"

definition aborts :: "('s \<Rightarrow> fe_view) \<Rightarrow> 's proc \<Rightarrow> mbuf \<Rightarrow> bool" where
  "aborts view st m \<longleftrightarrow> (\<exists>h fd. parse_hdr m = Some (Some h) \<and> fs_tab (flow_abs view st) (src_client h) = Some fd \<and>
     fd_state fd = BACKEND_SYN \<and> (has_flag RTE_TCP_FIN_FLAG h \<or> has_flag RTE_TCP_RST_FLAG h))"

lemma client_simps:
  "calculate_crc8 crc8_table (h_src_addr h) (h_src_port h) = client_crc (src_client h)"
  "calculate_crc8 crc8_table (h_dst_addr h) (h_dst_port h) = client_crc (dst_client h)"
  "conn_key (h_src_addr h) (h_src_port h) = client_hkey (src_client h)"
  "conn_key (h_dst_addr h) (h_dst_port h) = client_hkey (dst_client h)"
  "conn_my_key (client_crc (src_client h)) (h_src_addr h) (h_src_port h) = client_key (src_client h)"
  "conn_my_key (client_crc (dst_client h)) (h_dst_addr h) (h_dst_port h) = client_key (dst_client h)"
  by (simp_all add: client_crc_def client_hkey_def client_key_def src_client_def dst_client_def)

context flow_env begin

lemma to_client_reach:
  assumes ok: "proc_ok view st" and k: "ends (reach view st) k st"
  shows "ends (reach view st) (to_client E rc m h (client_crc c) (client_hkey c) (client_key c) sb k) st"
proof (cases "flow_ptr view st c")
  case None
  then show ?thesis using k by (simp add: ends_def to_client_def find flow_ptr_def)
next
  case (Some p)
  obtain fd where fd: "flows st p = Some fd" "fd_state fd \<noteq> INIT" using flow_ptr_ok(1) [OF ok Some] by (auto simp: flow_ok_def)
  have "ends (reach view st) (case fd_state fd of BACKEND_SYN \<Rightarrow> dst_connecting E rc h (client_key c) p fd sb
      | COMPLETE \<Rightarrow> dst_established E rc m h (client_crc c) (client_hkey c) (client_key c) p fd sb
      | OFFLOAD \<Rightarrow> dst_established E rc m h (client_crc c) (client_hkey c) (client_key c) p fd sb | INIT \<Rightarrow> k) st"
    using dst_connecting_reach [OF ok Some fd(1)] dst_established_reach [OF ok Some fd(1)] fd(2) by (cases "fd_state fd") simp_all
  then show ?thesis using Some fd by (simp add: ends_def to_client_def deref_def find flow_ptr_def)
qed

lemma process_pkt_reach:
  assumes ok: "proc_ok view st" and ab: "\<not> aborts view st m"
  shows "ends (reach view st) (process_pkt E crc8_table rc m sb) st"
proof (cases "parse_hdr m")
  case (Some x)
  show ?thesis
  proof (cases x)
    case None
    then show ?thesis using Some reach_refl [OF ok] by (simp add: process_pkt_def ends_next)
  next
    case h: (Some h)
    let ?c = "src_client h"
    let ?new = "to_client E rc m h (client_crc (dst_client h)) (client_hkey (dst_client h)) (client_key (dst_client h)) sb
      (new_client E rc m h (client_crc ?c) (client_hkey ?c) sb)"
    have "ends (reach view st) (from_client E rc m h (client_crc ?c) (client_hkey ?c) (client_key ?c) sb ?new) st"
    proof (cases "flow_ptr view st ?c")
      case None
      then show ?thesis
        using to_client_reach [OF ok new_client_reach [OF ok None]] by (simp add: ends_def from_client_def find flow_ptr_def)
    next
      case p: (Some p)
      obtain fd where fd: "flows st p = Some fd" "fd_state fd \<noteq> INIT" using flow_ptr_ok(1) [OF ok p] by (auto simp: flow_ok_def)
      have "\<not> has_flag RTE_TCP_FIN_FLAG h" "\<not> has_flag RTE_TCP_RST_FLAG h" if "fd_state fd = BACKEND_SYN"
        using ab that Some h p fd(1) by (auto simp: aborts_def flow_abs_tab)
      then have "ends (reach view st) (case fd_state fd of COMPLETE \<Rightarrow> src_established E rc m h (client_crc ?c) (client_hkey ?c) (client_key ?c) p fd sb
          | OFFLOAD \<Rightarrow> src_established E rc m h (client_crc ?c) (client_hkey ?c) (client_key ?c) p fd sb
          | BACKEND_SYN \<Rightarrow> src_connecting E rc m h p fd sb | INIT \<Rightarrow> ?new) st"
        using src_established_reach [OF ok p fd(1)] src_connecting_reach [OF ok] fd(2) by (cases "fd_state fd") simp_all
      then show ?thesis using p fd by (simp add: ends_def from_client_def deref_def find flow_ptr_def)
    qed
    then show ?thesis using Some h by (simp add: process_pkt_def client_simps Let_def)
  qed
qed (simp add: process_pkt_def ends_crash)

end

section \<open>Runs of the front end\<close>

text \<open>
  Packets of any number of bursts and workers, one after the other, with whatever the packet buffers do in
  between; no packet in the run is one that aborts a connection attempt.
\<close>

inductive abort_free_run :: "'s fe_env \<Rightarrow> ('s \<Rightarrow> fe_view) \<Rightarrow> 's proc \<Rightarrow> 's proc \<Rightarrow> bool" for E view st0 where
  start: "abort_free_run E view st0 st0"
| packet: "abort_free_run E view st0 st \<Longrightarrow> \<not> aborts view st m \<Longrightarrow> process_pkt E crc8_table rc m sb st = (Ret r, st') \<Longrightarrow> abort_free_run E view st0 st'"
| buffers: "abort_free_run E view st0 st \<Longrightarrow> view d = view (dev st) \<Longrightarrow> abort_free_run E view st0 (st\<lparr>dev := d\<rparr>)"

definition proc_init :: "('s \<Rightarrow> fe_view) \<Rightarrow> 's proc \<Rightarrow> bool" where
  "proc_init view st \<longleftrightarrow> flows st = Map.empty \<and> fv_flows (view (dev st)) = (\<lambda>crc. Map.empty) \<and> fv_adds (view (dev st)) = [] \<and> fv_dels (view (dev st)) = []"

lemma proc_init_ok: "proc_init view st \<Longrightarrow> proc_ok view st \<and> flow_inv (flow_abs view st)"
  by (simp add: proc_init_def proc_ok_def flow_inv_simps flow_abs_def flow_ptr_def)

lemma same_view: "view d = view (dev st) \<Longrightarrow> proc_ok view (st\<lparr>dev := d\<rparr>) = proc_ok view st \<and> flow_abs view (st\<lparr>dev := d\<rparr>) = flow_abs view st"
  by (simp add: proc_ok_def flow_abs_def flow_ptr_def)

context flow_env begin

lemma process_pkt_step:
  "proc_ok view st \<Longrightarrow> \<not> aborts view st m \<Longrightarrow> process_pkt E crc8_table rc m sb st = (Ret r, st') \<Longrightarrow>
   proc_ok view st' \<and> flow_step (flow_abs view st) (flow_abs view st')"
  using process_pkt_reach [of st m rc sb] by (simp add: ends_def reach_def)

lemma run_inv: "abort_free_run E view st0 st \<Longrightarrow> proc_init view st0 \<Longrightarrow> proc_ok view st \<and> flow_inv (flow_abs view st)"
proof (induction rule: abort_free_run.induct)
  case start
  then show ?case by (rule proc_init_ok)
next
  case (packet st m rc sb r st')
  then show ?case using process_pkt_step flow_step_inv by blast
next
  case (buffers st d)
  then show ?case using same_view [of view d st] by simp
qed

lemma abort_outcome:
  assumes ok: "proc_ok view st" and ab: "aborts view st m" and r: "process_pkt E crc8_table rc m sb st = (Ret (Inr sb'), st')"
  shows "\<exists>h p. parse_hdr m = Some (Some h) \<and> flow_find E (client_crc (src_client h)) (client_hkey (src_client h)) (dev st') = Some p \<and> flows st' p = None"
proof -
  obtain h fd where h: "parse_hdr m = Some (Some h)" "fs_tab (flow_abs view st) (src_client h) = Some fd" "fd_state fd = BACKEND_SYN"
      "has_flag RTE_TCP_FIN_FLAG h \<or> has_flag RTE_TCP_RST_FLAG h"
    using ab by (auto simp: aborts_def)
  then obtain p where p: "flow_ptr view st (src_client h) = Some p" "flows st p = Some fd"
    by (auto simp: flow_abs_tab bind_eq_Some_conv)
  have "src_connecting E rc m h p fd sb st = (Ret (Inr sb'), st')"
    using r h p by (simp add: process_pkt_def client_simps Let_def from_client_def deref_def find flow_ptr_def)
  then have "st' = free_flow E p fd st"
    using h(4) by (cases sb) (auto simp: src_connecting_def send_one_def modify_def next_pkt_def crash_def split: option.splits if_splits)
  then have "flows st' p = None" "view (dev st') = (view (dev st))\<lparr>fv_live := fv_live (view (dev st)) - {p}\<rparr>"
    by (simp_all add: free_flow_def Let_def free free_buf split: option.split)
  then show ?thesis using h(1) p(1) by (auto simp: find flow_ptr_def)
qed

end

lemma dangling_crash:
  assumes "parse_hdr m = Some (Some h)" "flow_find E (client_crc (src_client h)) (client_hkey (src_client h)) (dev st) = Some p" "flows st p = None"
  shows "process_pkt E crc8_table rc m sb st = (Crash, st)"
  using assms by (simp add: process_pkt_def client_simps Let_def from_client_def deref_def)

section \<open>Properties\<close>

text \<open>
  (C4) Every packet that \<open>process_pkts\<close> handles is one step of the connection state machine, with the same
  operations enqueued for the switch, and keeps the connection table sound: no dangling pointer, no pointer
  shared by two clients.  The only exception is an aborted connection attempt.
\<close>

theorem process_pkt_refines:
  assumes "flow_env E view" "proc_ok view st" "\<not> aborts view st m" "process_pkt E crc8_table rc m sb st = (Ret r, st')"
  shows "proc_ok view st' \<and> flow_step (flow_abs view st) (flow_abs view st')"
  by (rule flow_env.process_pkt_step [OF assms])

text \<open>
  (C5) What the front end enqueues for the switch agrees with its own table: in every state that it reaches from
  its start by packets none of which aborts a connection attempt (a FIN or RST of the client while the connection
  to the server is being set up), a client has been enqueued for addition as often as for deletion, and once more
  exactly while its connection is offloaded; and then the latest addition names the server of the connection.
\<close>

theorem offload_operations_balanced:
  assumes "flow_env E view" "abort_free_run E view st0 st" "proc_init view st0"
  shows "(\<forall>c. add_count (flow_abs view st) c = del_count (flow_abs view st) c + (if offloaded (flow_abs view st) c then 1 else 0)) \<and>
    (\<forall>c fd. fs_tab (flow_abs view st) c = Some fd \<longrightarrow> fd_state fd = OFFLOAD \<longrightarrow> last_add (flow_abs view st) c = Some (fd_entry_data fd))"
  using flow_env.run_inv [OF assms] by (auto simp: flow_inv_def)

text \<open>
  (C15) Every pointer in the connection table is well typed, in every state that the front end reaches from its
  start by packets none of which aborts a connection attempt: it stands in the map that the CRC of its client
  selects and under the key of this client, and points to a live object past \<open>INIT\<close> with a cached packet of the
  recorded size.  After an aborted attempt this is no longer so, as the next theorem shows.
\<close>

theorem flow_table_typed:
  assumes "flow_env E view" "abort_free_run E view st0 st" "proc_init view st0" "flow_find E crc key (dev st) = Some p"
  shows "\<exists>c fd b. crc = client_crc c \<and> key = client_hkey c \<and> flows st p = Some fd \<and> fd_state fd \<noteq> INIT \<and>
    fd_recv_pkt fd = Some b \<and> length b = fd_pkt_size fd"
proof -
  have ok: "proc_ok view st" using flow_env.run_inv [OF assms(1-3)] by simp
  have "fv_flows (view (dev st)) crc key = Some p" using assms(4) flow_env.find [OF assms(1)] by simp
  then show ?thesis using proc_okD [OF ok] by (fastforce simp: flow_ok_def)
qed

text \<open>
  (C31) A client that aborts while its connection is being set up leaves a pointer to a freed object in the
  table: the next packet of the same client makes the worker use it.
\<close>

theorem aborted_connection_dangles:
  assumes "flow_env E view" "proc_ok view st" "aborts view st m" "process_pkt E crc8_table rc m sb st = (Ret (Inr sb'), st')"
    and "parse_hdr m = Some (Some h)" "parse_hdr m' = Some (Some h')" "src_client h' = src_client h"
  shows "process_pkt E crc8_table rc' m' sb'' st' = (Crash, st')"
  using flow_env.abort_outcome [OF assms(1-4)] assms(5-7) by (auto intro: dangling_crash)

section \<open>Libraries that meet the contract\<close>

text \<open>A new object gets an address above all that are in use, and every packet buffer has 2048 bytes.\<close>

record ref_dev =
  rf_flows :: "u8 \<Rightarrow> u64 \<rightharpoonup> nat"
  rf_adds :: "my_pair list"
  rf_dels :: "my_key list"
  rf_live :: "nat list"

definition rf_view :: "ref_dev \<Rightarrow> fe_view" where
  "rf_view s = \<lparr>fv_flows = rf_flows s, fv_adds = rf_adds s, fv_dels = rf_dels s, fv_live = set (rf_live s)\<rparr>"

definition rf_put :: "u8 \<Rightarrow> u64 \<Rightarrow> nat option \<Rightarrow> ref_dev \<Rightarrow> ref_dev" where
  "rf_put crc key r s = s\<lparr>rf_flows := (rf_flows s)(crc := (rf_flows s crc)(key := r))\<rparr>"

definition rf_fresh :: "ref_dev \<Rightarrow> nat" where
  "rf_fresh s = Suc (sum_list (rf_live s))"

definition ref_mbuf :: mbuf where
  "ref_mbuf = \<lparr>mb_data = replicate 2048 0, mb_data_len = 0, mb_pkt_len = 0, mb_ol_flags = {}, mb_l2_len = 0, mb_l3_len = 0, mb_l4_len = 0\<rparr>"

definition ref_fe_env :: "ref_dev fe_env" where
  "ref_fe_env = \<lparr>flow_find = (\<lambda>crc key s. rf_flows s crc key),
     flow_insert = (\<lambda>crc key p s. if rf_flows s crc key = None then rf_put crc key (Some p) s else s),
     flow_erase = (\<lambda>crc key s. rf_put crc key None s),
     add_enqueue = (\<lambda>x s. s\<lparr>rf_adds := rf_adds s @ [x]\<rparr>), del_enqueue = (\<lambda>k s. s\<lparr>rf_dels := rf_dels s @ [k]\<rparr>),
     rte_malloc_flow = (\<lambda>s. (Some (rf_fresh s), s\<lparr>rf_live := rf_fresh s # rf_live s\<rparr>)),
     rte_free_flow = (\<lambda>p s. s\<lparr>rf_live := removeAll p (rf_live s)\<rparr>),
     rte_malloc_buf = (\<lambda>n s. (Some (), s)), rte_free_buf = (\<lambda>b s. s),
     rte_pktmbuf_alloc_bulk = (\<lambda>n s. (Some (replicate n ref_mbuf), s)), rte_pktmbuf_free_bulk = (\<lambda>ms s. s),
     rte_eth_rx_burst = (\<lambda>q n s. ([], s)), rte_eth_tx_burst = (\<lambda>q ms s. (length ms, s))\<rparr>"

lemma rf_fresh: "rf_fresh s \<notin> set (rf_live s)"
  using member_le_sum_list [of "rf_fresh s" "rf_live s"] by (auto simp: rf_fresh_def)

interpretation ref_fe: flow_env ref_fe_env rf_view
  by unfold_locales (auto simp: ref_fe_env_def rf_view_def rf_put_def put_flow_def rf_fresh)

definition ref_proc :: "ref_dev proc" where
  "ref_proc = \<lparr>flows = Map.empty, dev = \<lparr>rf_flows = (\<lambda>crc. Map.empty), rf_adds = [], rf_dels = [], rf_live = []\<rparr>\<rparr>"

lemma ref_proc_init: "proc_init rf_view ref_proc"
  by (simp add: proc_init_def ref_proc_def rf_view_def)

end
