(* ===== verification/Pkt_Safe.thy ===== *)
theory Pkt_Safe
  imports Flow_Machine
begin

text \<open>
  When \<open>process_pkts\<close> is safe: with enough memory, complete headers, short requests and known servers, every packet
  is handled without an access outside a buffer, and fills at most two of the send buffers.
\<close>

section \<open>Conditions\<close>

text \<open>The send buffers: \<open>N\<close> of them with at least \<open>R\<close> bytes each, at most \<open>n\<close> in use.\<close>

definition bufs :: "nat \<Rightarrow> nat \<Rightarrow> nat \<Rightarrow> send_bufs \<Rightarrow> bool" where
  "bufs R N n sb \<longleftrightarrow> length (fst sb) = N \<and> snd sb \<le> n \<and> (\<forall>m \<in> set (fst sb). R \<le> length (mb_data m))"

text \<open>A received packet lies in its buffer, and its request is short enough for \<open>url_copy\<close>.\<close>

definition pkt_ok :: "nat \<Rightarrow> mbuf \<Rightarrow> bool" where
  "pkt_ok R m \<longleftrightarrow> recv_ok R m \<and> 66 \<le> R \<and> 66 \<le> length (mb_data m) \<and>
     (\<forall>h. parse_hdr m = Some (Some h) \<longrightarrow> payload_flag h \<longrightarrow> 14 + unat (h_total_length h) \<le> length (mb_data m) \<and>
        length (request_of (payload_of (mb_data m) (34 + unat (drop_bit 4 (h_data_off h)) * 4) (unat (h_total_length h) - unat (header_size h)))) < 20)"

text \<open>Every rule and every connection has a known server, and a cached packet is one that was received.\<close>

definition rules_served :: "rule_controller \<Rightarrow> bool" where
  "rules_served rc \<longleftrightarrow> (\<forall>key data. lookup_balancing_rule key rc = Some data \<longrightarrow> server_ok rc (md_d_index data)) \<and>
     length (si_mac (get_virtual_server_info rc)) = 6"

definition flow_served :: "nat \<Rightarrow> rule_controller \<Rightarrow> flow_data \<Rightarrow> bool" where
  "flow_served R rc fd \<longleftrightarrow> server_ok rc (md_d_index (fd_entry_data fd)) \<and>
     (\<exists>b. fd_recv_pkt fd = Some b \<and> fd_pkt_size fd = length b \<and> 54 \<le> length b \<and> length b \<le> R)"

definition flows_served :: "nat \<Rightarrow> rule_controller \<Rightarrow> 's proc \<Rightarrow> bool" where
  "flows_served R rc st \<longleftrightarrow> (\<forall>p fd. flows st p = Some fd \<longrightarrow> flow_served R rc fd)"

definition memory_left :: "'s fe_env \<Rightarrow> bool" where
  "memory_left E \<longleftrightarrow> (\<forall>s. fst (rte_malloc_flow E s) \<noteq> None) \<and> (\<forall>n s. fst (rte_malloc_buf E n s) \<noteq> None)"

section \<open>Iterations that go on\<close>

definition goes :: "(send_bufs \<Rightarrow> 's proc \<Rightarrow> bool) \<Rightarrow> 's iteration \<Rightarrow> 's proc \<Rightarrow> bool" where
  "goes P it st \<longleftrightarrow> (\<exists>sb st'. it st = (Ret (Inr sb), st') \<and> P sb st')"

lemma goes_next: "P sb st \<Longrightarrow> goes P (next_pkt sb) st"
  by (simp add: goes_def next_pkt_def ret_def)

lemma goes_modify: "goes P k (f st) \<Longrightarrow> goes P (modify f k) st"
  by (simp add: goes_def modify_def)

lemma goes_send:
  assumes "bufs R N n sb" "n < N" "builds R build" "\<And>sb'. bufs R N (n + 1) sb' \<Longrightarrow> goes P (k sb') st"
  shows "goes P (send_one build sb k) st"
proof -
  obtain ms i where sb: "sb = (ms, i)" by (cases sb)
  have i: "i < length ms" "R \<le> length (mb_data (ms ! i))" using assms(1,2) by (auto simp: bufs_def sb)
  then obtain s' where s': "build (ms ! i) = Some (OK, s')" "R \<le> length (mb_data s')" using assms(3) by (auto simp: builds_def)
  have "bufs R N (n + 1) (ms[i := s'], i + 1)"
    using assms(1) s'(2) set_update_subset_insert [of ms i s'] by (auto simp: bufs_def sb)
  then show ?thesis using assms(4) i s' by (simp add: goes_def send_one_def sb)
qed

lemma goes_if: "(b \<Longrightarrow> goes P x st) \<Longrightarrow> (\<not> b \<Longrightarrow> goes P y st) \<Longrightarrow> goes P (if b then x else y) st"
  by simp

lemma goes_option:
  "(x = None \<Longrightarrow> goes P n st) \<Longrightarrow> (\<And>y. x = Some y \<Longrightarrow> goes P (f y) st) \<Longrightarrow> goes P (case x of None \<Rightarrow> n | Some y \<Rightarrow> f y) st"
  by (cases x) auto

lemma goes_request:
  assumes "pkt_ok R m" "parse_hdr m = Some (Some h)" "payload_flag h" "\<And>url. goes P (k url) st"
  shows "goes P (with_request m h k) st"
proof -
  let ?o = "34 + unat (drop_bit 4 (h_data_off h)) * 4" and ?n = "unat (h_total_length h) - unat (header_size h)"
  have "unat (h_data_off h) div 16 < 16" using unat_u8_lt [of "h_data_off h"] by linarith
  then have "unat (drop_bit 4 (h_data_off h)) < 16" by (simp add: unat_drop_bit)
  then have "unat (header_size h) = 20 + unat (drop_bit 4 (h_data_off h)) * 4"
    by (simp add: header_size_def unat_word_ariths unsigned_ucast_eq take_bit_eq_mod)
  moreover have "unat (header_size h) < unat (h_total_length h)" using assms(3) by (simp add: payload_flag_def word_less_nat_alt)
  ultimately have "?o + ?n \<le> length (mb_data m)" using assms(1-3) by (auto simp: pkt_ok_def)
  then have "request_key (mb_data m) ?o ?n \<noteq> None"
    using assms(1-3) by (simp add: request_key_eq Let_def pkt_ok_def)
  then show ?thesis using assms(4) by (auto simp: with_request_def)
qed

lemma goes_cache:
  assumes "memory_left E" "recv_ok R m"
    and "\<And>b d. 54 \<le> length b \<Longrightarrow> length b \<le> R \<Longrightarrow> length b = unat (mb_data_len m) \<Longrightarrow> goes P (k b) (st\<lparr>dev := d\<rparr>)"
  shows "goes P (cache_pkt E m k) st"
proof (cases "rte_malloc_buf E (unat (mb_data_len m)) (dev st)")
  case (Pair r d)
  then obtain u where "r = Some u" using assms(1) by (metis fst_conv memory_left_def not_None_eq)
  then show ?thesis
    using Pair assms(2) assms(3) [of "take (unat (mb_data_len m)) (mb_data m)" d]
    by (simp add: goes_def cache_pkt_def ldn_def recv_ok_def)
qed

section \<open>Every branch goes on\<close>

text \<open>At most two more buffers in use, and all connections served.\<close>

definition fine :: "nat \<Rightarrow> nat \<Rightarrow> nat \<Rightarrow> rule_controller \<Rightarrow> send_bufs \<Rightarrow> 's proc \<Rightarrow> bool" where
  "fine R N n rc sb st \<longleftrightarrow> bufs R N n sb \<and> flows_served R rc st"

lemma bufs_mono: "bufs R N n sb \<Longrightarrow> n \<le> n' \<Longrightarrow> bufs R N n' sb"
  by (auto simp: bufs_def)

lemma served_on_dev [simp]: "flows_served R rc (on_dev f st) = flows_served R rc st" "flows_served R rc (st\<lparr>dev := d\<rparr>) = flows_served R rc st"
  by (simp_all add: flows_served_def)

lemma served_set_flow: "flows_served R rc st \<Longrightarrow> flow_served R rc fd \<Longrightarrow> flows_served R rc (set_flow p fd st)"
  by (simp add: flows_served_def)

lemma served_free_flow: "flows_served R rc st \<Longrightarrow> flows_served R rc (free_flow E p fd st)"
  by (auto simp: flows_served_def free_flow_def Let_def split: option.split)

lemma served_close_flow: "flows_served R rc st \<Longrightarrow> flows_served R rc (close_flow E crc key k p fd st)"
  by (simp add: close_flow_def Let_def served_free_flow)

lemma recv_ok_as_rst: "recv_ok R m \<Longrightarrow> recv_ok R (as_rst m)"
  by (simp add: recv_ok_def as_rst_def)

definition ready :: "'s fe_env \<Rightarrow> nat \<Rightarrow> nat \<Rightarrow> nat \<Rightarrow> rule_controller \<Rightarrow> mbuf \<Rightarrow> send_bufs \<Rightarrow> 's proc \<Rightarrow> bool" where
  "ready E R N n rc m sb st \<longleftrightarrow> pkt_ok R m \<and> rules_served rc \<and> memory_left E \<and> bufs R N n sb \<and> n + 2 \<le> N \<and> flows_served R rc st"

lemma readyD:
  assumes "ready E R N n rc m sb st"
  shows "pkt_ok R m" "rules_served rc" "memory_left E" "bufs R N n sb" "n + 2 \<le> N" "flows_served R rc st"
    "recv_ok R m" "recv_ok R (as_rst m)" "66 \<le> R" "54 \<le> R" "66 \<le> length (mb_data m)" "54 \<le> length (mb_data m)" "length (si_mac (get_virtual_server_info rc)) = 6"
  using assms by (auto simp: ready_def pkt_ok_def rules_served_def recv_ok_as_rst)

lemma fineI: "bufs R N n' sb \<Longrightarrow> n' \<le> n + 2 \<Longrightarrow> flows_served R rc st \<Longrightarrow> fine R N (n + 2) rc sb st"
  by (auto simp: fine_def intro: bufs_mono)

lemma bufs_Suc: "bufs R N n sb \<Longrightarrow> bufs R N (Suc (Suc n)) sb" "bufs R N (Suc n) sb \<Longrightarrow> bufs R N (Suc (Suc n)) sb"
  by (auto simp: bufs_def)

lemma flow_served_state: "flow_served R rc fd \<Longrightarrow> flow_served R rc (fd\<lparr>fd_state := s\<rparr>)"
  by (simp add: flow_served_def)

lemmas served_intros = served_set_flow served_close_flow served_free_flow flow_served_state
lemmas builds_intros = builds_forward_inbound builds_forward_outbound builds_reply_rst builds_send_rst builds_send_syn

lemma src_established_goes:
  assumes r: "ready E R N n rc m sb st" and h: "parse_hdr m = Some (Some h)" and fd: "flow_served R rc fd"
  shows "goes (fine R N (n + 2) rc) (src_established E rc m h crc key k p fd sb) st"
proof -
  note d = readyD [OF r]
  have srv: "server_ok rc (md_d_index (fd_entry_data fd))" using fd by (simp add: flow_served_def)
  show ?thesis
    unfolding src_established_def
  proof (intro goes_if goes_request [OF d(1) h] goes_option)
    fix url data assume "lookup_balancing_rule url rc = Some data"
    then have new: "server_ok rc (md_d_index data)" using d(2) by (auto simp: rules_served_def)
    show "goes (fine R N (n + 2) rc) (send_one (send_rst_pkt rc (md_d_index (fd_entry_data fd)) m) sb (\<lambda>sb.
        modify (if fd_state fd = OFFLOAD then on_dev (del_enqueue E k) else id) (
        send_one (send_syn_pkt rc (md_d_index data) m) sb (\<lambda>sb.
        modify (case fd_recv_pkt fd of None \<Rightarrow> id | Some b \<Rightarrow> on_dev (rte_free_buf E b)) (
        cache_pkt E m (\<lambda>b. modify (set_flow p (fd\<lparr>fd_state := BACKEND_SYN, fd_entry_data := data, fd_recv_pkt := Some b,
          fd_pkt_size := unat (mb_data_len m)\<rparr>)) (next_pkt sb))))))) st"
      using d srv new
      by (intro goes_send [OF d(4)] goes_modify goes_send [where n = "n + 1" and R = R and N = N] goes_cache [OF d(3,7)] goes_next fineI [where n' = "n + 2"])
        (auto simp: flow_served_def intro!: builds_intros served_intros split: option.split)
  qed (use d srv fd in \<open>auto intro!: goes_send [where R = R and N = N] goes_modify goes_next builds_intros served_intros simp: fine_def bufs_Suc\<close>)
qed

lemma src_connecting_goes:
  assumes r: "ready E R N n rc m sb st" and fd: "flow_served R rc fd"
  shows "goes (fine R N (n + 2) rc) (src_connecting E rc m h p fd sb) st"
proof -
  note d = readyD [OF r]
  obtain b where b: "fd_recv_pkt fd = Some b" "54 \<le> length b" "server_ok rc (md_d_index (fd_entry_data fd))" using fd by (auto simp: flow_served_def)
  then have "ld32 b 38 \<noteq> None" by (simp add: ld32_def)
  then show ?thesis
    using d b unfolding src_connecting_def
    by (auto intro!: goes_send [where R = R and N = N] goes_modify goes_next builds_intros served_intros simp: fine_def bufs_Suc)
qed

lemma dst_connecting_goes:
  assumes r: "ready E R N n rc m sb st" and fd: "flow_served R rc fd"
  shows "goes (fine R N (n + 2) rc) (dst_connecting E rc h k p fd sb) st"
proof -
  note d = readyD [OF r]
  obtain b where b: "fd_recv_pkt fd = Some b" "fd_pkt_size fd = length b" "54 \<le> length b" "length b \<le> R" "server_ok rc (md_d_index (fd_entry_data fd))"
    using fd by (auto simp: flow_served_def)
  show ?thesis
    using d b fd unfolding dst_connecting_def
    by (auto intro!: goes_send [where R = R and N = N] goes_modify goes_next builds_send_cached served_intros simp: fine_def bufs_Suc)
qed

lemma dst_established_goes:
  assumes r: "ready E R N n rc m sb st"
  shows "goes (fine R N (n + 2) rc) (dst_established E rc m h crc key k p fd sb) st"
  using readyD [OF r] unfolding dst_established_def
  by (auto intro!: goes_send [where R = R and N = N] goes_modify goes_next builds_intros served_intros simp: fine_def bufs_Suc)

lemma new_client_goes:
  assumes r: "ready E R N n rc m sb st" and h: "parse_hdr m = Some (Some h)"
  shows "goes (fine R N (n + 2) rc) (new_client E rc m h crc key sb) st"
proof -
  note d = readyD [OF r]
  let ?fd = "\<lambda>data b. \<lparr>fd_state = BACKEND_SYN, fd_entry_data = data, fd_recv_pkt = Some b, fd_pkt_size = unat (mb_data_len m)\<rparr>"
  have alloc: "goes (fine R N (n + 2) rc) (\<lambda>st. case rte_malloc_flow E (dev st) of
      (None, d) \<Rightarrow> (Crash, st\<lparr>dev := d\<rparr>)
    | (Some p, d) \<Rightarrow> cache_pkt E m (\<lambda>b. modify (set_flow p (?fd data b)) (modify (on_dev (flow_insert E crc key p)) (next_pkt sb))) (st\<lparr>dev := d\<rparr>)) st"
    if "bufs R N (n + 1) sb" "server_ok rc (md_d_index data)" for data sb
  proof -
    obtain p d' where p: "rte_malloc_flow E (dev st) = (Some p, d')" using d(3) by (metis memory_left_def not_None_eq prod.collapse)
    have "goes (fine R N (n + 2) rc) (cache_pkt E m (\<lambda>b. modify (set_flow p (?fd data b)) (
        modify (on_dev (flow_insert E crc key p)) (next_pkt sb)))) (st\<lparr>dev := d'\<rparr>)"
      using that d(6) by (intro goes_cache [OF d(3,7)] goes_modify goes_next) (auto simp: fine_def bufs_Suc flow_served_def intro!: served_set_flow)
    then show ?thesis using p by (simp add: goes_def)
  qed
  show ?thesis
    unfolding new_client_def
  proof (intro goes_if goes_request [OF d(1) h] goes_option)
    fix url data assume "lookup_balancing_rule url rc = Some data"
    then have "server_ok rc (md_d_index data)" using d(2) by (auto simp: rules_served_def)
    then show "goes (fine R N (n + 2) rc) (send_one (send_syn_pkt rc (md_d_index data) m) sb (\<lambda>sb st. case rte_malloc_flow E (dev st) of
        (None, d) \<Rightarrow> (Crash, st\<lparr>dev := d\<rparr>)
      | (Some p, d) \<Rightarrow> cache_pkt E m (\<lambda>b. modify (set_flow p (?fd data b)) (modify (on_dev (flow_insert E crc key p)) (next_pkt sb))) (st\<lparr>dev := d\<rparr>))) st"
      using d by (intro goes_send [OF d(4)] alloc builds_send_syn) auto
  qed (use d in \<open>auto intro!: goes_next simp: fine_def bufs_Suc\<close>)
qed

section \<open>Packets and bursts\<close>

lemma to_client_goes:
  assumes r: "ready E R N n rc m sb st" and env: "flow_env E view" and ok: "proc_ok view st" and k: "goes (fine R N (n + 2) rc) k' st"
  shows "goes (fine R N (n + 2) rc) (to_client E rc m h (client_crc c) (client_hkey c) k sb k') st"
proof (cases "flow_ptr view st c")
  case None
  then show ?thesis using k by (simp add: goes_def to_client_def flow_env.find [OF env] flow_ptr_def)
next
  case (Some p)
  obtain fd where fd: "flows st p = Some fd" "fd_state fd \<noteq> INIT" using flow_ptr_ok(1) [OF ok Some] by (auto simp: flow_ok_def)
  then have "flow_served R rc fd" using readyD(6) [OF r] by (simp add: flows_served_def)
  then have "goes (fine R N (n + 2) rc) (case fd_state fd of BACKEND_SYN \<Rightarrow> dst_connecting E rc h k p fd sb
      | COMPLETE \<Rightarrow> dst_established E rc m h (client_crc c) (client_hkey c) k p fd sb
      | OFFLOAD \<Rightarrow> dst_established E rc m h (client_crc c) (client_hkey c) k p fd sb | INIT \<Rightarrow> k') st"
    using dst_connecting_goes [OF r] dst_established_goes [OF r] fd(2) by (cases "fd_state fd") simp_all
  then show ?thesis using Some fd by (simp add: goes_def to_client_def deref_def flow_env.find [OF env] flow_ptr_def)
qed

lemma process_pkt_goes:
  assumes r: "ready E R N n rc m sb st" and env: "flow_env E view" and ok: "proc_ok view st"
  shows "goes (fine R N (n + 2) rc) (process_pkt E crc8_table rc m sb) st"
proof -
  note d = readyD [OF r]
  have "parse_hdr m \<noteq> None" using d(12) by (simp add: parse_hdr_def mem_simps)
  then obtain x where x: "parse_hdr m = Some x" by blast
  show ?thesis
  proof (cases x)
    case None
    then show ?thesis using x d(4,6) by (simp add: process_pkt_def) (auto intro!: goes_next simp: fine_def bufs_Suc)
  next
    case h: (Some h)
    let ?c = "src_client h"
    let ?new = "to_client E rc m h (client_crc (dst_client h)) (client_hkey (dst_client h)) (client_key (dst_client h)) sb
      (new_client E rc m h (client_crc ?c) (client_hkey ?c) sb)"
    have hh: "parse_hdr m = Some (Some h)" using x h by simp
    have new: "goes (fine R N (n + 2) rc) ?new st" by (rule to_client_goes [OF r env ok new_client_goes [OF r hh]])
    have "goes (fine R N (n + 2) rc) (from_client E rc m h (client_crc ?c) (client_hkey ?c) (client_key ?c) sb ?new) st"
    proof (cases "flow_ptr view st ?c")
      case None
      then show ?thesis using new by (simp add: goes_def from_client_def flow_env.find [OF env] flow_ptr_def)
    next
      case p: (Some p)
      obtain fd where fd: "flows st p = Some fd" "fd_state fd \<noteq> INIT" using flow_ptr_ok(1) [OF ok p] by (auto simp: flow_ok_def)
      then have "flow_served R rc fd" using d(6) by (simp add: flows_served_def)
      then have "goes (fine R N (n + 2) rc) (case fd_state fd of COMPLETE \<Rightarrow> src_established E rc m h (client_crc ?c) (client_hkey ?c) (client_key ?c) p fd sb
          | OFFLOAD \<Rightarrow> src_established E rc m h (client_crc ?c) (client_hkey ?c) (client_key ?c) p fd sb
          | BACKEND_SYN \<Rightarrow> src_connecting E rc m h p fd sb | INIT \<Rightarrow> ?new) st"
        using src_established_goes [OF r hh] src_connecting_goes [OF r] fd(2) by (cases "fd_state fd") simp_all
      then show ?thesis using p fd by (simp add: goes_def from_client_def deref_def flow_env.find [OF env] flow_ptr_def)
    qed
    then show ?thesis using hh by (simp add: process_pkt_def client_simps Let_def)
  qed
qed

text \<open>No packet of the burst aborts a connection attempt when its turn comes.\<close>

fun calm :: "'s fe_env \<Rightarrow> ('s \<Rightarrow> fe_view) \<Rightarrow> rule_controller \<Rightarrow> mbuf list \<Rightarrow> send_bufs \<Rightarrow> 's proc \<Rightarrow> bool" where
  "calm E view rc [] sb st = True"
| "calm E view rc (m # ms) sb st = (\<not> aborts view st m \<and>
     (\<forall>sb' st'. process_pkt E crc8_table rc m sb st = (Ret (Inr sb'), st') \<longrightarrow> calm E view rc ms sb' st'))"

lemma process_loop_goes:
  assumes env: "flow_env E view" and rc: "rules_served rc" and mem: "memory_left E"
  shows "\<forall>m \<in> set ms. pkt_ok R m \<Longrightarrow> bufs R N n sb \<Longrightarrow> n + 2 * length ms \<le> N \<Longrightarrow> flows_served R rc st \<Longrightarrow> proc_ok view st \<Longrightarrow>
    calm E view rc ms sb st \<Longrightarrow>
    goes (\<lambda>sb st'. fine R N (n + 2 * length ms) rc sb st' \<and> proc_ok view st' \<and> flow_step\<^sup>*\<^sup>* (flow_abs view st) (flow_abs view st'))
      (process_loop E crc8_table rc ms sb) st"
proof (induction ms arbitrary: n sb st)
  case Nil
  then show ?case by (simp add: goes_def ret_def fine_def)
next
  case (Cons m ms)
  have r: "ready E R N n rc m sb st" using Cons.prems rc mem by (simp add: ready_def)
  obtain sb1 st1 where 1: "process_pkt E crc8_table rc m sb st = (Ret (Inr sb1), st1)" "fine R N (n + 2) rc sb1 st1"
    using process_pkt_goes [OF r env Cons.prems(5)] by (auto simp: goes_def)
  have 2: "proc_ok view st1" "flow_step (flow_abs view st) (flow_abs view st1)"
    using flow_env.process_pkt_step [OF env Cons.prems(5) _ 1(1)] Cons.prems(6) by auto
  have "goes (\<lambda>sb st'. fine R N (n + 2 + 2 * length ms) rc sb st' \<and> proc_ok view st' \<and> flow_step\<^sup>*\<^sup>* (flow_abs view st1) (flow_abs view st'))
      (process_loop E crc8_table rc ms sb1) st1"
    using Cons.prems 1 2 by (intro Cons.IH) (auto simp: fine_def)
  then show ?case using 1(1) 2(2) by (auto simp: goes_def seq_def intro: converse_rtranclp_into_rtranclp)
qed

section \<open>Properties\<close>

text \<open>
  (C6) A burst of packets is safe: with two send buffers per packet, enough memory, complete headers, short
  requests, known servers, and when no packet of the burst aborts a connection attempt as its turn comes
  (a FIN or RST of a client whose connection to the server is being set up), \<open>process_pkts\<close> returns, has filled at most two
  buffers per packet, keeps the connection table sound and all connections served, moves every connection only
  as the state machine allows, and reports an error only if the network card did not take all the packets.
\<close>

theorem process_pkts_safe:
  assumes "flow_env E view" "rules_served rc" "memory_left E" "\<forall>m \<in> set ms. pkt_ok R m" "flows_served R rc st" "proc_ok view st"
    and "rte_pktmbuf_alloc_bulk E (2 * length ms) (dev st) = (Some pk, d)" "length pk = 2 * length ms" "\<forall>m \<in> set pk. R \<le> length (mb_data m)"
    and "calm E view rc ms (pk, 0) (st\<lparr>dev := d\<rparr>)"
  shows "\<exists>pk' n st1 st'. process_loop E crc8_table rc ms (pk, 0) (st\<lparr>dev := d\<rparr>) = (Ret (Inr (pk', n)), st1) \<and> length pk' = 2 * length ms \<and> n \<le> 2 * length ms \<and>
    process_pkts E crc8_table q rc ms st = (Ret (if fst (rte_eth_tx_burst E q (take n pk') (dev st1)) = n then OK else INTERNAL_ERROR), st') \<and>
    proc_ok view st' \<and> flows_served R rc st' \<and> flow_step\<^sup>*\<^sup>* (flow_abs view st) (flow_abs view st')"
proof -
  have v: "view d = view (dev st)" using flow_env.alloc_bulk [OF assms(1), of "2 * length ms" "dev st"] assms(7) by simp
  have "goes (\<lambda>sb st'. fine R (2 * length ms) (0 + 2 * length ms) rc sb st' \<and> proc_ok view st' \<and>
      flow_step\<^sup>*\<^sup>* (flow_abs view (st\<lparr>dev := d\<rparr>)) (flow_abs view st')) (process_loop E crc8_table rc ms (pk, 0)) (st\<lparr>dev := d\<rparr>)"
    using assms v by (intro process_loop_goes) (simp_all add: bufs_def same_view)
  then obtain pk' n st1 where l: "process_loop E crc8_table rc ms (pk, 0) (st\<lparr>dev := d\<rparr>) = (Ret (Inr (pk', n)), st1)" "n \<le> 2 * length ms" "length pk' = 2 * length ms"
      "flows_served R rc st1" "proc_ok view st1" "flow_step\<^sup>*\<^sup>* (flow_abs view st) (flow_abs view st1)"
    using v by (auto simp: goes_def fine_def bufs_def same_view)
  obtain k d1 where tx: "rte_eth_tx_burst E q (take n pk') (dev st1) = (k, d1)" by fastforce
  let ?d = "rte_pktmbuf_free_bulk E (drop n pk') d1"
  have vd: "view ?d = view (dev st1)"
    using flow_env.tx_burst [OF assms(1), of q "take n pk'" "dev st1"] flow_env.free_bulk [OF assms(1), of "drop n pk'" d1] tx by simp
  have "process_pkts E crc8_table q rc ms st = (Ret (if k = n then OK else INTERNAL_ERROR), st1\<lparr>dev := ?d\<rparr>)"
    using assms(7) l(1) tx by (simp add: process_pkts_def seq_def)
  then show ?thesis using l tx vd by (auto simp: same_view)
qed

end
