(* ===== verification/Frontend_Splice.thy ===== *)
theory Frontend_Splice
  imports Pkt_Safe Backend_Flow
begin

text \<open>
  The front end and the back-end agent together: the SYN that \<open>send_syn_pkt\<close> builds from the first request of a
  client carries, in its acknowledgement number, what the agent on the server needs to splice the connection;
  and the packets that set a connection up.
\<close>

section \<open>The SYN\<close>

lemma nth_other: "N \<le> length p \<Longrightarrow> i + length bs \<le> N \<Longrightarrow> j < N \<Longrightarrow> j < i \<or> i + length bs \<le> j \<Longrightarrow> patch p i bs ! j = p ! j"
  by (rule nth_patch_out) auto

lemma nth_here: "N \<le> length p \<Longrightarrow> Suc i \<le> N \<Longrightarrow> patch p i [b] ! i = b"
  by (simp add: nth_patch)

lemma nth_copy: "n \<le> length r \<Longrightarrow> n \<le> length s \<Longrightarrow> j < n \<Longrightarrow> patch s 0 (take n r) ! j = r ! j"
  by (simp add: nth_patch)

lemma be32_other:
  "N \<le> length p \<Longrightarrow> i + length bs \<le> N \<Longrightarrow> j + 4 \<le> N \<Longrightarrow> j + 4 \<le> i \<or> i + length bs \<le> j \<Longrightarrow> be32 (patch p i bs) j = be32 p j"
  by (rule be32_patch_other) auto

lemma be32_here: "N \<le> length p \<Longrightarrow> i + 4 \<le> N \<Longrightarrow> be32 (patch p i (bytes32 w)) i = bswap32 w"
  by (rule be32_patch_same) simp

lemmas look66 = long_patch [where N = 66] long_copy [where N = 66] nth_other [where N = 66] nth_here [where N = 66] nth_copy
  be32_other [where N = 66] be32_here [where N = 66]

lemma syn_data_fields:
  assumes "66 \<le> length r" "66 \<le> length s" "length (si_mac si) = 6"
  shows "66 \<le> length (syn_data si r s)" "syn_data si r s ! 47 = RTE_TCP_SYN_FLAG"
    "be32 (syn_data si r s) 38 = be32 r 38 - 1" "be32 (syn_data si r s) 42 = be32 r 42 - 1"
  using assms by (simp_all add: syn_data_def look66 del: length_patch)

lemma syn_data_keeps:
  assumes "66 \<le> length r" "66 \<le> length s" "length (si_mac si) = 6" "j \<in> {12, 13, 23, 26, 27, 28, 29, 34, 35}"
  shows "syn_data si r s ! j = r ! j"
  using assms by (auto simp: syn_data_def look66 simp del: length_patch)

text \<open>
  What the network card puts on the wire: the first \<open>mb_data_len\<close> bytes of the buffer, with the two checksums
  that it computes in place.
\<close>

definition wire_of :: "mbuf \<Rightarrow> bytes \<Rightarrow> bool" where
  "wire_of m s \<longleftrightarrow> length s = unat (mb_data_len m) \<and> (\<forall>j < length s. j \<notin> {24, 25, 50, 51} \<longrightarrow> s ! j = mb_data m ! j)"

lemma wire_nth: "wire_of m s \<Longrightarrow> j < unat (mb_data_len m) \<Longrightarrow> j \<notin> {24, 25, 50, 51} \<Longrightarrow> s ! j = mb_data m ! j"
  by (simp add: wire_of_def)

lemma syn_on_the_wire:
  assumes syn: "send_syn_pkt rc i m s = Some (status, s')" "wire_of s' syn"
    and "66 \<le> length (mb_data m)" "66 \<le> length (mb_data s)" "tcp_frame (mb_data m)" "server_ok rc i"
  shows "tcp_frame syn" "ingress_key syn = ingress_key (mb_data m)" "tcp_syn (syn ! off_flags)" "be32 syn off_ack_seq = be32 (mb_data m) off_ack_seq - 1"
proof -
  obtain si where si: "lookup_backend_server_info i rc = Some si" "length (si_mac si) = 6" using assms(6) by (rule server_okE)
  have s': "s' = tx_fields (syn_data si (mb_data m) (mb_data s)) 32 66 s" using syn(1) send_syn_pkt_eq [OF assms(3,4) si] by simp
  then have l: "length syn = 66" and w: "\<And>j. j < 66 \<Longrightarrow> j \<notin> {24, 25, 50, 51} \<Longrightarrow> syn ! j = syn_data si (mb_data m) (mb_data s) ! j"
    using syn(2) by (auto simp: wire_of_def tx_fields_def)
  note keep = syn_data_keeps [OF assms(3,4) si(2)] and fields = syn_data_fields [OF assms(3,4) si(2)]
  show "tcp_frame syn" using assms(5) l by (simp add: tcp_frame_def w keep)
  show "ingress_key syn = ingress_key (mb_data m)" by (simp add: ingress_key_def w keep)
  show "tcp_syn (syn ! off_flags)" by (simp add: w fields tcp_syn_def RTE_TCP_SYN_FLAG_def)
  have "be32 syn 42 = be32 (syn_data si (mb_data m) (mb_data s)) 42" by (simp add: be32_def w)
  then show "be32 syn off_ack_seq = be32 (mb_data m) off_ack_seq - 1" by (simp add: fields)
qed

text \<open>
  (C1) The front end and the back-end agent splice the connection exactly where the client left off.  Let the front
  end send the SYN that it builds from the request \<open>m\<close> of a client to the server, and the server answer with
  its initial sequence number \<open>S\<close>, other flows interleaving at will.  From then on, until the server resets the
  flow, the byte that the server sends at distance \<open>x\<close> from \<open>S + 1\<close> reaches the client at distance \<open>x\<close> from the
  sequence number that the client acknowledged in its request, and an acknowledgement of the client at distance
  \<open>x\<close> from that number reaches the server at distance \<open>x\<close> from \<open>S + 1\<close>.
\<close>

theorem frontend_splice:
  assumes env: "bpf_env h"
    and syn: "send_syn_pkt rc i m sb = Some (status, sb')" "wire_of sb' syn" "server_ok rc i"
    and req: "66 \<le> length (mb_data m)" "66 \<le> length (mb_data sb)" "tcp_frame (mb_data m)" "ingress_key (mb_data m) = k"
    and run1: "agent_run h maps (Ingress syn # es1) maps1" and run2: "agent_run h maps1 (Egress sa # es2) maps2"
    and sa: "tcp_frame sa" "egress_key sa = k" "tcp_syn (sa ! off_flags)" "tcp_ack (sa ! off_flags)"
    and fresh: "flow_of h maps k = None"
    and room: "card (dom (seq_of h maps)) < max_entries" "card (dom (flow_of h maps1)) < max_entries"
    and es1: "\<forall>e \<in> set es1. event_key e \<noteq> Some k" and es2: "\<forall>e \<in> set es2. \<not> server_reset k e"
    and p: "tcp_frame p" "egress_key p = k" and r: "tcp_frame r" "ingress_key r = k" "sack_ok r"
  shows "\<exists>q maps3 t. egress_tc_prog h maps2 p = Some (TC_ACT_OK, q, maps3) \<and>
      be32 q off_seq - be32 (mb_data m) off_ack_seq = be32 p off_seq - (be32 sa off_seq + 1) \<and>
      ingress_xdp_prog h maps2 r = Some (XDP_PASS, t, maps2) \<and>
      be32 t off_ack_seq - (be32 sa off_seq + 1) = be32 r off_ack_seq - be32 (mb_data m) off_ack_seq"
proof -
  note w = syn_on_the_wire [OF syn(1,2) req(1-3) syn(3)]
  have k: "ingress_key syn = k" using w(2) req(4) by simp
  obtain q maps3 t where "egress_tc_prog h maps2 p = Some (TC_ACT_OK, q, maps3)"
      "be32 q off_seq - be32 syn off_ack_seq = be32 p off_seq - be32 sa off_seq"
      "ingress_xdp_prog h maps2 r = Some (XDP_PASS, t, maps2)"
      "be32 t off_ack_seq - be32 sa off_seq = be32 r off_ack_seq - be32 syn off_ack_seq"
    using splice_run [OF env run1 run2 w(1) k w(3) sa fresh room es1 es2 p r] by blast
  then show ?thesis by (auto simp: w(4) algebra_simps)
qed

end
