(* ===== verification/Frontend_Run.thy ===== *)
theory Frontend_Run
  imports Frontend_Splice
begin

text \<open>
  How a connection is set up by the front end, packet by packet, and concrete packets on which the theorems about
  the front end are applied.
\<close>

section \<open>Setting a connection up\<close>

text \<open>A packet with a request whose rule is \<open>data\<close>, and the connection that it opens.\<close>

definition asks_for :: "rule_controller \<Rightarrow> mbuf \<Rightarrow> pkt_hdr \<Rightarrow> my_data \<Rightarrow> bool" where
  "asks_for rc m h data \<longleftrightarrow> parse_hdr m = Some (Some h) \<and> payload_flag h \<and>
     (\<exists>url. request_key (mb_data m) (34 + unat (drop_bit 4 (h_data_off h)) * 4) (unat (h_total_length h) - unat (header_size h)) = Some url \<and>
        lookup_balancing_rule url rc = Some data)"

definition opened :: "flow_state \<Rightarrow> my_data \<Rightarrow> mbuf \<Rightarrow> flow_data" where
  "opened s data m = \<lparr>fd_state = s, fd_entry_data = data, fd_recv_pkt = Some (take (unat (mb_data_len m)) (mb_data m)),
     fd_pkt_size = unat (mb_data_len m)\<rparr>"

context flow_env begin

lemma flow_ptr_None: "proc_ok view st \<Longrightarrow> fs_tab (flow_abs view st) c = None \<longleftrightarrow> flow_ptr view st c = None"
  using flow_ptr_ok(1) [of view st c] by (cases "flow_ptr view st c") (auto simp: flow_abs_tab)

lemma request_run:
  assumes ok: "proc_ok view st" and ask: "asks_for rc m h data" and mem: "memory_left E" and len: "unat (mb_data_len m) \<le> length (mb_data m)"
    and new: "fs_tab (flow_abs view st) (src_client h) = None" "fs_tab (flow_abs view st) (dst_client h) = None"
    and syn: "i < length pk" "send_syn_pkt rc (md_d_index data) m (pk ! i) = Some (OK, syn)"
  shows "\<exists>st1. process_pkt E crc8_table rc m (pk, i) st = (Ret (Inr (pk[i := syn], i + 1)), st1) \<and> proc_ok view st1 \<and>
    flow_abs view st1 = (flow_abs view st)\<lparr>fs_tab := (fs_tab (flow_abs view st))(src_client h \<mapsto> opened BACKEND_SYN data m)\<rparr>"
proof -
  let ?c = "src_client h" and ?n = "unat (mb_data_len m)" and ?fd = "opened BACKEND_SYN data m"
  obtain p d where p: "rte_malloc_flow E (dev st) = (Some p, d)" using mem by (metis memory_left_def not_None_eq prod.collapse)
  obtain u d' where b: "rte_malloc_buf E ?n d = (Some u, d')" using mem by (metis memory_left_def not_None_eq prod.collapse)
  have v: "p \<notin> fv_live (view (dev st))" "view d' = (view (dev st))\<lparr>fv_live := insert p (fv_live (view (dev st)))\<rparr>"
    using malloc [OF p] malloc_buf [of ?n d] b by simp_all
  have n: "flow_ptr view st ?c = None" "flow_ptr view st (dst_client h) = None" using new flow_ptr_None [OF ok] by simp_all
  let ?st = "on_dev (flow_insert E (client_crc ?c) (client_hkey ?c) p) (set_flow p ?fd (st\<lparr>dev := d'\<rparr>))"
  have run: "process_pkt E crc8_table rc m (pk, i) st = (Ret (Inr (pk[i := syn], i + 1)), ?st)"
    using ask n p b syn len
    by (auto simp: asks_for_def process_pkt_def client_simps Let_def from_client_def to_client_def new_client_def find flow_ptr_def with_request_def
        send_one_def cache_pkt_def ldn_in modify_def next_pkt_def ret_def opened_def)
  have "fv_flows (view d') (client_crc ?c) (client_hkey ?c) = None" using n(1) v(2) by (simp add: flow_ptr_def)
  then have dv: "view (dev ?st) = put_flow (client_crc ?c) (client_hkey ?c) (Some p) (view d')" by (simp add: insert)
  have fok: "flow_ok ?fd" using len by (simp add: flow_ok_def opened_def)
  have "proc_ok view ?st" "fs_tab (flow_abs view ?st) = (fs_tab (flow_abs view st))(?c \<mapsto> ?fd)"
    by (rule add_flow [OF ok n(1) fok v(1)]; (simp only: dv v(2))?; simp add: put_flow_def)+
  moreover from this(2) have "flow_abs view ?st = (flow_abs view st)\<lparr>fs_tab := (fs_tab (flow_abs view st))(?c \<mapsto> ?fd)\<rparr>"
    by (intro flow_sys.equality) (simp_all add: flow_abs_def dv v(2) put_flow_def del: on_dev_simps)
  ultimately show ?thesis using run by blast
qed

lemma syn_ack_run:
  assumes ok: "proc_ok view st" and c: "fs_tab (flow_abs view st) c = Some (opened BACKEND_SYN data m)"
    and h: "parse_hdr m2 = Some (Some h2)" "dst_client h2 = c" "fs_tab (flow_abs view st) (src_client h2) = None"
      "h_flags h2 = RTE_TCP_ACK_FLAG OR RTE_TCP_SYN_FLAG"
    and len: "unat (mb_data_len m) \<le> length (mb_data m)"
    and req: "i < length pk" "send_cached_pkt rc (md_d_index data) (take (unat (mb_data_len m)) (mb_data m)) (unat (mb_data_len m)) (pk ! i) = Some (OK, req)"
  shows "\<exists>st2. process_pkt E crc8_table rc m2 (pk, i) st = (Ret (Inr (pk[i := req], i + 1)), st2) \<and> proc_ok view st2 \<and>
    flow_abs view st2 = (if md_offload_flag data = 1
      then (flow_abs view st)\<lparr>fs_tab := (fs_tab (flow_abs view st))(c \<mapsto> opened OFFLOAD data m),
        fs_adds := fs_adds (flow_abs view st) @ [\<lparr>mp_key = client_key c, mp_data = data\<rparr>]\<rparr>
      else (flow_abs view st)\<lparr>fs_tab := (fs_tab (flow_abs view st))(c \<mapsto> opened COMPLETE data m)\<rparr>)"
proof -
  obtain p where p: "flow_ptr view st c = Some p" "flows st p = Some (opened BACKEND_SYN data m)"
    using c by (auto simp: flow_abs_tab bind_eq_Some_conv)
  have n: "flow_ptr view st (src_client h2) = None" using h(3) flow_ptr_None [OF ok] by simp
  let ?s = "if md_offload_flag data = 1 then OFFLOAD else COMPLETE"
  let ?fd = "opened ?s data m" and ?x = "\<lparr>mp_key = client_key c, mp_data = data\<rparr>"
  let ?st = "(if md_offload_flag data = 1 then on_dev (add_enqueue E ?x) else id) (set_flow p ?fd st)"
  have run: "process_pkt E crc8_table rc m2 (pk, i) st = (Ret (Inr (pk[i := req], i + 1)), ?st)"
    using p n h(1,3,4) req unfolding h(2) [symmetric]
    by (simp add: process_pkt_def client_simps Let_def from_client_def to_client_def find flow_ptr_def deref_def dst_connecting_def
        modify_def send_one_def next_pkt_def ret_def opened_def)
  have fok: "flow_ok ?fd" using len by (simp add: flow_ok_def opened_def)
  have dv: "flows ?st = (flows st)(p \<mapsto> ?fd)"
      "view (dev ?st) = (view (dev st))\<lparr>fv_adds := fv_adds (view (dev st)) @ (if md_offload_flag data = 1 then [?x] else [])\<rparr>"
    by (simp_all add: add_enq)
  have "proc_ok view ?st" "fs_tab (flow_abs view ?st) = (fs_tab (flow_abs view st))(c \<mapsto> ?fd)"
    by (rule change_flow [OF ok p(1) fok dv(1)]; simp only: dv(2); simp)+
  moreover from this(2) have "flow_abs view ?st = (flow_abs view st)\<lparr>fs_tab := (fs_tab (flow_abs view st))(c \<mapsto> ?fd),
      fs_adds := fs_adds (flow_abs view st) @ (if md_offload_flag data = 1 then [?x] else [])\<rparr>"
    by (intro flow_sys.equality) (simp_all only: dv(2) flow_abs_def, simp_all)
  ultimately show ?thesis using run by (cases "md_offload_flag data = 1") auto
qed

end

text \<open>
  (C13) A connection is set up in two packets.  The first request of a client makes the front end send a SYN to the
  server that the rule of the request names, and remember the request.  The SYN-ACK of the server makes it send
  the remembered request, unchanged but for the addresses; then the connection is complete, or, if the
  rule says so, offloaded, with this client and this server enqueued for the switch.  Nothing else changes.
\<close>

theorem connection_setup:
  assumes env: "flow_env E view" and ok: "proc_ok view st" and ask: "asks_for rc m h data" and mem: "memory_left E"
    and len: "recv_ok R m" "66 \<le> length (mb_data m)" "66 \<le> R" and srv: "server_ok rc (md_d_index data)"
    and new: "fs_tab (flow_abs view st) (src_client h) = None" "fs_tab (flow_abs view st) (dst_client h) = None"
    and sa: "parse_hdr m2 = Some (Some h2)" "dst_client h2 = src_client h" "src_client h2 \<noteq> src_client h"
      "fs_tab (flow_abs view st) (src_client h2) = None" "h_flags h2 = RTE_TCP_ACK_FLAG OR RTE_TCP_SYN_FLAG"
    and pk: "i + 1 < length pk" "R \<le> length (mb_data (pk ! i))" "R \<le> length (mb_data (pk ! (i + 1)))"
  shows "\<exists>syn req st1 st2.
    process_pkt E crc8_table rc m (pk, i) st = (Ret (Inr (pk[i := syn], i + 1)), st1) \<and>
    send_syn_pkt rc (md_d_index data) m (pk ! i) = Some (OK, syn) \<and>
    process_pkt E crc8_table rc m2 (pk[i := syn], i + 1) st1 = (Ret (Inr (pk[i := syn, i + 1 := req], i + 2)), st2) \<and>
    send_cached_pkt rc (md_d_index data) (take (unat (mb_data_len m)) (mb_data m)) (unat (mb_data_len m)) (pk ! (i + 1)) = Some (OK, req) \<and>
    flow_abs view st2 = (if md_offload_flag data = 1
      then (flow_abs view st)\<lparr>fs_tab := (fs_tab (flow_abs view st))(src_client h \<mapsto> opened OFFLOAD data m),
        fs_adds := fs_adds (flow_abs view st) @ [\<lparr>mp_key = client_key (src_client h), mp_data = data\<rparr>]\<rparr>
      else (flow_abs view st)\<lparr>fs_tab := (fs_tab (flow_abs view st))(src_client h \<mapsto> opened COMPLETE data m)\<rparr>)"
proof -
  let ?n = "unat (mb_data_len m)"
  have l: "?n \<le> length (mb_data m)" "54 \<le> length (take ?n (mb_data m))" "length (take ?n (mb_data m)) \<le> R" "length (take ?n (mb_data m)) = ?n"
    using len(1) by (auto simp: recv_ok_def)
  obtain syn where syn: "send_syn_pkt rc (md_d_index data) m (pk ! i) = Some (OK, syn)"
    using builds_send_syn [OF len(3,2) srv] pk(2) by (auto simp: builds_def)
  obtain req where req: "send_cached_pkt rc (md_d_index data) (take ?n (mb_data m)) ?n (pk ! (i + 1)) = Some (OK, req)"
    using builds_send_cached [OF l(2,3) srv] pk(3) unfolding builds_def l(4) by blast
  obtain st1 where st1: "process_pkt E crc8_table rc m (pk, i) st = (Ret (Inr (pk[i := syn], i + 1)), st1)" "proc_ok view st1"
      "flow_abs view st1 = (flow_abs view st)\<lparr>fs_tab := (fs_tab (flow_abs view st))(src_client h \<mapsto> opened BACKEND_SYN data m)\<rparr>"
    using flow_env.request_run [OF env ok ask mem l(1) new _ syn] pk(1) by auto
  have "\<exists>st2. process_pkt E crc8_table rc m2 (pk[i := syn], i + 1) st1 = (Ret (Inr (pk[i := syn, i + 1 := req], i + 1 + 1)), st2) \<and> proc_ok view st2 \<and>
    flow_abs view st2 = (if md_offload_flag data = 1
      then (flow_abs view st1)\<lparr>fs_tab := (fs_tab (flow_abs view st1))(src_client h \<mapsto> opened OFFLOAD data m),
        fs_adds := fs_adds (flow_abs view st1) @ [\<lparr>mp_key = client_key (src_client h), mp_data = data\<rparr>]\<rparr>
      else (flow_abs view st1)\<lparr>fs_tab := (fs_tab (flow_abs view st1))(src_client h \<mapsto> opened COMPLETE data m)\<rparr>)"
    using sa pk(1) req by (intro flow_env.syn_ack_run [OF env st1(2) _ sa(1,2) _ sa(5) l(1)]) (simp_all add: st1(3))
  then show ?thesis using st1 syn req by (auto simp: add.assoc)
qed

section \<open>Concrete packets\<close>

text \<open>
  The client of \<open>ex_key\<close> (10.0.1.100, port 1234) asks the virtual server (10.0.0.1, port 80) for \<open>GET /a HTTP/1.1\<close>; it has
  acknowledged 5001.  The rule for \<open>a\<close> names server 2 (10.0.2.5, port 80) and says that the connection is offloaded.
\<close>

definition ref_request :: mbuf where
  "ref_request = ref_mbuf\<lparr>mb_data := [12, 66, 161, 74, 255, 2, 12, 66, 161, 209, 208, 200, 8, 0,
     69, 0, 0, 57, 0, 1, 64, 0, 64, 6, 0, 0, 10, 0, 1, 100, 10, 0, 0, 1,
     4, 210, 0, 80, 0, 0, 3, 232, 0, 0, 19, 137, 80, 24, 2, 0, 0, 0, 0, 0,
     71, 69, 84, 32, 47, 97, 32, 72, 84, 84, 80, 47, 49, 46, 49, 13, 10], mb_data_len := 71\<rparr>"

definition ref_syn_ack :: mbuf where
  "ref_syn_ack = ref_mbuf\<lparr>mb_data := ex_syn_ack, mb_data_len := 54\<rparr>"

text \<open>The same client gives up: FIN and ACK.\<close>

definition ref_fin :: mbuf where
  "ref_fin = ref_request\<lparr>mb_data := (mb_data ref_request)[47 := 17]\<rparr>"

definition ref_rules :: rule_controller where
  "ref_rules = \<lparr>rule_map = [[97] \<mapsto> \<lparr>md_offload_flag = 1, md_d_index = 2\<rparr>],
     d_index_map = [2 \<mapsto> \<lparr>si_mac = [12, 66, 161, 74, 255, 2], si_ip = 0x0a000205, si_port = 80\<rparr>],
     virtual_server_info = \<lparr>si_mac = [12, 66, 161, 74, 255, 1], si_ip = 0x0a000001, si_port = 80\<rparr>\<rparr>"

definition ref_hdr :: pkt_hdr where
  "ref_hdr = \<lparr>h_src_addr = bswap32 0x0a000164, h_dst_addr = bswap32 0x0a000001, h_src_port = bswap16 1234, h_dst_port = bswap16 80,
     h_sent_seq = bswap32 1000, h_data_off = 80, h_flags = 24, h_total_length = 57\<rparr>"

definition ref_sa_hdr :: pkt_hdr where
  "ref_sa_hdr = \<lparr>h_src_addr = bswap32 0x0a000205, h_dst_addr = bswap32 0x0a000164, h_src_port = bswap16 80, h_dst_port = bswap16 1234,
     h_sent_seq = bswap32 75000, h_data_off = 80, h_flags = 18, h_total_length = 40\<rparr>"

definition ref_client :: client where
  "ref_client = (bswap32 0x0a000164, bswap16 1234)"

definition ref_data :: my_data where
  "ref_data = \<lparr>md_offload_flag = 1, md_d_index = 2\<rparr>"

lemmas le_defs = le16_def le32_def be32_def bswap16_def bswap32_def byte_at_def

lemma ref_parse: "parse_hdr ref_request = Some (Some ref_hdr)" "parse_hdr ref_fin = Some (Some (ref_hdr\<lparr>h_flags := 17\<rparr>))"
    "parse_hdr ref_syn_ack = Some (Some ref_sa_hdr)"
  by (simp_all add: parse_hdr_def ref_request_def ref_fin_def ref_syn_ack_def ex_syn_ack_def mem_simps le_defs ref_hdr_def ref_sa_hdr_def)

lemma ref_lens [simp]: "length (mb_data ref_request) = 71" "unat (mb_data_len ref_request) = 71" "length (mb_data ref_mbuf) = 2048"
    "length (mb_data ref_fin) = 71" "unat (mb_data_len ref_fin) = 71"
  by (simp_all add: ref_request_def ref_fin_def ref_mbuf_def)

lemma ref_clients: "src_client ref_hdr = ref_client" "src_client (ref_hdr\<lparr>h_flags := 17\<rparr>) = ref_client" "dst_client ref_sa_hdr = ref_client"
    "src_client ref_sa_hdr \<noteq> ref_client"
  by (simp_all add: src_client_def dst_client_def ref_hdr_def ref_sa_hdr_def ref_client_def le_defs)

lemma ref_flags: "h_flags ref_sa_hdr = RTE_TCP_ACK_FLAG OR RTE_TCP_SYN_FLAG" "md_offload_flag ref_data = 1" "md_d_index ref_data = 2"
  by (simp_all add: ref_sa_hdr_def ref_data_def tcp_flag_defs)

lemma ref_url: "request_of (payload_of (mb_data ref_request) 54 17) = [97]"
  by (simp add: request_of_def payload_of_def ref_request_def)

lemma ref_hdr_payload: "payload_flag ref_hdr" "unat (drop_bit 4 (h_data_off ref_hdr)) = 5" "unat (header_size ref_hdr) = 40" "unat (h_total_length ref_hdr) = 57"
  by (simp_all add: payload_flag_def header_size_def ref_hdr_def)

lemma ref_served: "rules_served ref_rules" "server_ok ref_rules 2"
  by (auto simp: rules_served_def ref_rules_def server_ok_def lookup_balancing_rule_def lookup_backend_server_info_def get_virtual_server_info_def split: if_splits)

lemma ref_asks: "asks_for ref_rules ref_request ref_hdr ref_data"
  using request_key_eq [of 54 17 "mb_data ref_request"] ref_url
  by (simp add: asks_for_def ref_parse ref_hdr_payload lookup_balancing_rule_def ref_rules_def ref_data_def)

lemma ref_pkt_ok: "pkt_ok 100 ref_request"
  using ref_url by (simp add: pkt_ok_def recv_ok_def ref_parse ref_hdr_payload)

lemma ref_memory: "memory_left ref_fe_env"
  by (simp add: memory_left_def ref_fe_env_def)

lemma ref_proc_ok: "proc_ok rf_view ref_proc" "fs_tab (flow_abs rf_view ref_proc) = Map.empty" "flows ref_proc = Map.empty"
  using proc_init_ok [OF ref_proc_init] by (simp_all add: flow_abs_def flow_ptr_def ref_proc_def rf_view_def fun_eq_iff)

section \<open>The theorems on the concrete packets\<close>

definition ref_bufs :: "mbuf list" where
  "ref_bufs = replicate 4 ref_mbuf"

lemma ref_bufs [simp]: "length ref_bufs = 4" "i < 4 \<Longrightarrow> ref_bufs ! i = ref_mbuf" "m \<in> set ref_bufs \<longleftrightarrow> m = ref_mbuf"
  by (simp_all add: ref_bufs_def)

lemma ref_ready: "ready ref_fe_env 100 4 0 ref_rules ref_request (ref_bufs, 0) ref_proc"
  using ref_pkt_ok ref_served ref_memory by (auto simp: ready_def bufs_def flows_served_def ref_proc_ok)

lemma buildsD: "builds R build \<Longrightarrow> R \<le> length (mb_data s) \<Longrightarrow> \<exists>s'. build s = Some (OK, s')"
  unfolding builds_def by blast

text \<open>After the request, and after the SYN-ACK.\<close>

lemma ref_opened:
  obtains syn st where "process_pkt ref_fe_env crc8_table ref_rules ref_request (ref_bufs, 0) ref_proc = (Ret (Inr (ref_bufs[0 := syn], 1)), st)"
    "proc_ok rf_view st" "fs_tab (flow_abs rf_view st) = [ref_client \<mapsto> opened BACKEND_SYN ref_data ref_request]"
    "bufs 100 4 2 (ref_bufs[0 := syn], 1)" "flows_served 100 ref_rules st" "fs_adds (flow_abs rf_view st) = []" "fs_dels (flow_abs rf_view st) = []"
proof -
  obtain syn where syn: "send_syn_pkt ref_rules (md_d_index ref_data) ref_request (ref_bufs ! 0) = Some (OK, syn)"
    using buildsD [OF builds_send_syn [of 100 ref_request ref_rules 2], of ref_mbuf] ref_served by (auto simp: ref_data_def)
  obtain st where st: "process_pkt ref_fe_env crc8_table ref_rules ref_request (ref_bufs, 0) ref_proc = (Ret (Inr (ref_bufs[0 := syn], 1)), st)"
      "proc_ok rf_view st" "flow_abs rf_view st = (flow_abs rf_view ref_proc)\<lparr>fs_tab := (fs_tab (flow_abs rf_view ref_proc))(src_client ref_hdr \<mapsto> opened BACKEND_SYN ref_data ref_request)\<rparr>"
    using ref_fe.request_run [OF ref_proc_ok(1) ref_asks ref_memory _ _ _ _ syn] by (auto simp: ref_proc_ok)
  have "fine 100 4 (0 + 2) ref_rules (ref_bufs[0 := syn], 1) st"
    using process_pkt_goes [OF ref_ready ref_fe.flow_env_axioms ref_proc_ok(1)] st(1) by (simp add: goes_def)
  then have "bufs 100 4 2 (ref_bufs[0 := syn], 1)" "flows_served 100 ref_rules st" unfolding fine_def by (simp_all add: numeral_2_eq_2)
  moreover have "fs_adds (flow_abs rf_view st) = []" "fs_dels (flow_abs rf_view st) = []"
    by (simp_all add: st(3)) (simp_all add: flow_abs_def ref_proc_def rf_view_def)
  moreover have "fs_tab (flow_abs rf_view st) = [ref_client \<mapsto> opened BACKEND_SYN ref_data ref_request]" by (simp add: st(3) ref_proc_ok ref_clients)
  ultimately show thesis using st(1,2) by (intro that)
qed

lemma ref_not_aborts: "fs_tab (flow_abs rf_view st) (src_client h) = None \<Longrightarrow> parse_hdr m = Some (Some h) \<Longrightarrow> \<not> aborts rf_view st m"
  by (simp add: aborts_def)

theorem process_pkt_refines_witness:
  "\<exists>sb st. process_pkt ref_fe_env crc8_table ref_rules ref_request (ref_bufs, 0) ref_proc = (Ret (Inr sb), st) \<and>
     fs_tab (flow_abs rf_view st) ref_client \<noteq> None \<and> proc_ok rf_view st \<and> flow_step (flow_abs rf_view ref_proc) (flow_abs rf_view st)"
proof -
  obtain syn st where st: "process_pkt ref_fe_env crc8_table ref_rules ref_request (ref_bufs, 0) ref_proc = (Ret (Inr (ref_bufs[0 := syn], 1)), st)"
      "fs_tab (flow_abs rf_view st) = [ref_client \<mapsto> opened BACKEND_SYN ref_data ref_request]"
    by (rule ref_opened)
  have "\<not> aborts rf_view ref_proc ref_request" by (rule ref_not_aborts [OF _ ref_parse(1)]) (simp add: ref_proc_ok)
  then show ?thesis using process_pkt_refines [OF ref_fe.flow_env_axioms ref_proc_ok(1) _ st(1)] st by auto
qed

theorem connection_setup_witness:
  "\<exists>sb st sb' st'. process_pkt ref_fe_env crc8_table ref_rules ref_request (ref_bufs, 0) ref_proc = (Ret (Inr (sb, 1)), st) \<and>
     process_pkt ref_fe_env crc8_table ref_rules ref_syn_ack (sb, 1) st = (Ret (Inr (sb', 2)), st') \<and>
     fs_tab (flow_abs rf_view st') ref_client = Some (opened OFFLOAD ref_data ref_request) \<and>
     fs_adds (flow_abs rf_view st') = [\<lparr>mp_key = client_key ref_client, mp_data = ref_data\<rparr>]"
proof -
  have "recv_ok 100 ref_request" "server_ok ref_rules (md_d_index ref_data)" "fs_adds (flow_abs rf_view ref_proc) = []"
    using ref_pkt_ok ref_served by (simp_all add: pkt_ok_def ref_flags flow_abs_def ref_proc_def rf_view_def)
  then show ?thesis
    using connection_setup [OF ref_fe.flow_env_axioms ref_proc_ok(1) ref_asks ref_memory, of 100 ref_syn_ack ref_sa_hdr 0 ref_bufs]
    by (force simp: ref_parse ref_clients ref_proc_ok ref_flags)
qed

theorem flow_table_typed_witness:
  "\<exists>st p fd. abort_free_run ref_fe_env rf_view ref_proc st \<and> flow_find ref_fe_env (client_crc ref_client) (client_hkey ref_client) (dev st) = Some p \<and>
     flows st p = Some fd \<and> fd_state fd \<noteq> INIT"
proof -
  obtain syn st where st: "process_pkt ref_fe_env crc8_table ref_rules ref_request (ref_bufs, 0) ref_proc = (Ret (Inr (ref_bufs[0 := syn], 1)), st)"
      "fs_tab (flow_abs rf_view st) = [ref_client \<mapsto> opened BACKEND_SYN ref_data ref_request]"
    by (rule ref_opened)
  have "\<not> aborts rf_view ref_proc ref_request" by (rule ref_not_aborts [OF _ ref_parse(1)]) (simp add: ref_proc_ok)
  then have run: "abort_free_run ref_fe_env rf_view ref_proc st" using st(1) by (blast intro: abort_free_run.intros)
  have "fs_tab (flow_abs rf_view st) ref_client \<noteq> None" using st(2) by simp
  then obtain p where p: "flow_find ref_fe_env (client_crc ref_client) (client_hkey ref_client) (dev st) = Some p"
    by (auto simp: flow_abs_tab flow_ptr_def ref_fe.find bind_eq_Some_conv)
  show ?thesis using flow_table_typed [OF ref_fe.flow_env_axioms run ref_proc_init p] run p by blast
qed

lemma ref_offloaded:
  obtains st where "abort_free_run ref_fe_env rf_view ref_proc st" "fs_tab (flow_abs rf_view st) ref_client = Some (opened OFFLOAD ref_data ref_request)"
    "fs_adds (flow_abs rf_view st) = [\<lparr>mp_key = client_key ref_client, mp_data = ref_data\<rparr>]" "fs_dels (flow_abs rf_view st) = []"
proof -
  obtain syn st where st: "process_pkt ref_fe_env crc8_table ref_rules ref_request (ref_bufs, 0) ref_proc = (Ret (Inr (ref_bufs[0 := syn], 1)), st)"
      "proc_ok rf_view st" "fs_tab (flow_abs rf_view st) = [ref_client \<mapsto> opened BACKEND_SYN ref_data ref_request]"
      "fs_adds (flow_abs rf_view st) = []" "fs_dels (flow_abs rf_view st) = []"
    by (rule ref_opened)
  have "builds 100 (send_cached_pkt ref_rules 2 (mb_data ref_request) (length (mb_data ref_request)))"
    by (rule builds_send_cached) (simp_all add: ref_served)
  then obtain req where req: "send_cached_pkt ref_rules (md_d_index ref_data) (take 71 (mb_data ref_request)) 71 (ref_bufs[0 := syn] ! 1) = Some (OK, req)"
    using buildsD [of 100 _ ref_mbuf] by (auto simp: ref_data_def)
  obtain st' where st': "process_pkt ref_fe_env crc8_table ref_rules ref_syn_ack (ref_bufs[0 := syn], 1) st = (Ret (Inr (ref_bufs[0 := syn, 1 := req], 1 + 1)), st')"
      "fs_tab (flow_abs rf_view st') ref_client = Some (opened OFFLOAD ref_data ref_request)"
      "fs_adds (flow_abs rf_view st') = [\<lparr>mp_key = client_key ref_client, mp_data = ref_data\<rparr>]" "fs_dels (flow_abs rf_view st') = []"
    using ref_fe.syn_ack_run [OF st(2) _ ref_parse(3), of ref_client ref_data ref_request 1 "ref_bufs[0 := syn]" ref_rules req] req
    by (auto simp: st(3-5) ref_clients ref_flags)
  have "\<not> aborts rf_view ref_proc ref_request" by (rule ref_not_aborts [OF _ ref_parse(1)]) (simp add: ref_proc_ok)
  moreover have "\<not> aborts rf_view st ref_syn_ack" by (rule ref_not_aborts [OF _ ref_parse(3)]) (simp add: st(3) ref_clients)
  ultimately have "abort_free_run ref_fe_env rf_view ref_proc st'" using st(1) st'(1) by (blast intro: abort_free_run.intros)
  then show thesis using st'(2-4) by (rule that)
qed

theorem offload_operations_balanced_witness:
  "\<exists>st. abort_free_run ref_fe_env rf_view ref_proc st \<and> offloaded (flow_abs rf_view st) ref_client \<and>
     add_count (flow_abs rf_view st) ref_client = del_count (flow_abs rf_view st) ref_client + 1 \<and> last_add (flow_abs rf_view st) ref_client = Some ref_data"
proof -
  obtain st where st: "abort_free_run ref_fe_env rf_view ref_proc st" "fs_tab (flow_abs rf_view st) ref_client = Some (opened OFFLOAD ref_data ref_request)"
    by (rule ref_offloaded)
  have "offloaded (flow_abs rf_view st) ref_client" using st(2) by (simp add: offloaded_def opened_def)
  then show ?thesis
    using offload_operations_balanced [OF ref_fe.flow_env_axioms st(1) ref_proc_init] st
    by (intro exI [of _ st]) (simp add: opened_def del: split_paired_All)
qed

lemma ref_fin_ok: "pkt_ok 100 ref_fin"
proof -
  have "payload_of (mb_data ref_fin) 54 17 = payload_of (mb_data ref_request) 54 17" by (simp add: payload_of_def ref_fin_def)
  moreover have "payload_flag (ref_hdr\<lparr>h_flags := 17\<rparr>) = payload_flag ref_hdr" "header_size (ref_hdr\<lparr>h_flags := 17\<rparr>) = header_size ref_hdr"
    by (simp_all add: payload_flag_def header_size_def)
  ultimately show ?thesis using ref_url by (simp add: pkt_ok_def recv_ok_def ref_parse ref_hdr_payload)
qed

theorem aborted_connection_dangles_witness:
  "\<exists>sb st sb' st'. process_pkt ref_fe_env crc8_table ref_rules ref_request (ref_bufs, 0) ref_proc = (Ret (Inr sb), st) \<and>
     process_pkt ref_fe_env crc8_table ref_rules ref_fin sb st = (Ret (Inr sb'), st') \<and>
     process_pkt ref_fe_env crc8_table ref_rules ref_request sb' st' = (Crash, st')"
proof -
  obtain syn st where st: "process_pkt ref_fe_env crc8_table ref_rules ref_request (ref_bufs, 0) ref_proc = (Ret (Inr (ref_bufs[0 := syn], 1)), st)"
      "proc_ok rf_view st" "fs_tab (flow_abs rf_view st) = [ref_client \<mapsto> opened BACKEND_SYN ref_data ref_request]"
      "bufs 100 4 2 (ref_bufs[0 := syn], 1)" "flows_served 100 ref_rules st"
    by (rule ref_opened)
  have "ready ref_fe_env 100 4 2 ref_rules ref_fin (ref_bufs[0 := syn], 1) st"
    using st ref_fin_ok ref_served ref_memory by (simp add: ready_def)
  then obtain sb' st' where fin: "process_pkt ref_fe_env crc8_table ref_rules ref_fin (ref_bufs[0 := syn], 1) st = (Ret (Inr sb'), st')"
    using process_pkt_goes [OF _ ref_fe.flow_env_axioms st(2)] by (fastforce simp: goes_def)
  have ab: "aborts rf_view st ref_fin"
    unfolding aborts_def by (intro exI conjI, rule ref_parse(2)) (simp_all add: st(3) ref_clients, simp_all add: opened_def has_flag_def tcp_flag_defs)
  show ?thesis
    using aborted_connection_dangles [OF ref_fe.flow_env_axioms st(2) ab fin ref_parse(2) ref_parse(1), of ref_rules sb'] st(1) fin
    unfolding ref_clients by blast
qed

theorem process_pkts_safe_witness:
  "\<exists>st. process_pkts ref_fe_env crc8_table 0 ref_rules [ref_request] ref_proc = (Ret OK, st) \<and> proc_ok rf_view st \<and> flows_served 100 ref_rules st"
proof -
  have "\<not> aborts rf_view ref_proc ref_request" by (rule ref_not_aborts [OF _ ref_parse(1)]) (simp add: ref_proc_ok)
  moreover have "rte_pktmbuf_alloc_bulk ref_fe_env 2 (dev ref_proc) = (Some (replicate 2 ref_mbuf), dev ref_proc)" by (simp add: ref_fe_env_def)
  moreover have "ref_proc\<lparr>dev := dev ref_proc\<rparr> = ref_proc" by simp
  ultimately obtain pk n st1 st' where "process_loop ref_fe_env crc8_table ref_rules [ref_request] (replicate 2 ref_mbuf, 0) ref_proc = (Ret (Inr (pk, n)), st1)"
      "process_pkts ref_fe_env crc8_table 0 ref_rules [ref_request] ref_proc =
         (Ret (if fst (rte_eth_tx_burst ref_fe_env 0 (take n pk) (dev st1)) = n then OK else INTERNAL_ERROR), st')"
      "n \<le> 2" "length pk = 2" "proc_ok rf_view st'" "flows_served 100 ref_rules st'"
    using process_pkts_safe [OF ref_fe.flow_env_axioms ref_served(1) ref_memory, of "[ref_request]" 100 ref_proc "replicate 2 ref_mbuf" "dev ref_proc" 0]
      ref_pkt_ok ref_proc_ok by (auto simp: flows_served_def)
  then show ?thesis by (simp add: ref_fe_env_def)
qed

text \<open>The server sends at 75001 and the client sees it at 5001, the number it acknowledged in its request.\<close>

theorem frontend_splice_witness:
  "\<exists>maps q maps' t. egress_tc_prog alist_helpers maps ex_data = Some (TC_ACT_OK, q, maps') \<and> be32 q 38 = 5001 \<and>
     ingress_xdp_prog alist_helpers maps ex_sack = Some (XDP_PASS, t, maps) \<and> be32 t 42 = 75001"
proof -
  have req: "tcp_frame (mb_data ref_request)" "ingress_key (mb_data ref_request) = ex_key" "be32 (mb_data ref_request) 42 = 5001"
    by (simp_all add: tcp_frame_def ingress_key_def ex_key_def ref_request_def le_defs)
  obtain si where si: "lookup_backend_server_info 2 ref_rules = Some si" "length (si_mac si) = 6" using ref_served(2) by (rule server_okE)
  have syn: "send_syn_pkt ref_rules 2 ref_request ref_mbuf =
      Some (OK, tx_fields (syn_data si (mb_data ref_request) (mb_data ref_mbuf)) 32 66 ref_mbuf)"
    using si by (intro send_syn_pkt_eq) simp_all
  define w where "w = take 66 (syn_data si (mb_data ref_request) (mb_data ref_mbuf))"
  have "66 \<le> length (syn_data si (mb_data ref_request) (mb_data ref_mbuf))" using si by (intro syn_data_fields) simp_all
  then have wire: "wire_of (tx_fields (syn_data si (mb_data ref_request) (mb_data ref_mbuf)) 32 66 ref_mbuf) w"
    by (simp add: wire_of_def w_def tx_fields_def)
  obtain maps1 where s1: "agent_step alist_helpers ex_maps0 (Ingress w) maps1"
    using ingress_total [of alist_helpers ex_maps0 w] agent_step.step_ingress by blast
  then have flow1: "flow_of alist_helpers maps1 = Map.empty"
    by (cases rule: ingress_maps) (simp_all add: ex_maps0_lookup)
  obtain maps2 where s2: "agent_step alist_helpers maps1 (Egress ex_syn_ack) maps2"
    using egress_total [of alist_helpers maps1 ex_syn_ack] agent_step.step_egress by blast
  have run: "agent_run alist_helpers ex_maps0 [Ingress w] maps1" "agent_run alist_helpers maps1 [Egress ex_syn_ack] maps2"
    using s1 s2 by (auto simp: agent_run_simps)
  have "\<exists>q maps3 t. egress_tc_prog alist_helpers maps2 ex_data = Some (TC_ACT_OK, q, maps3) \<and>
      be32 q 38 - be32 (mb_data ref_request) 42 = be32 ex_data 38 - (be32 ex_syn_ack 38 + 1) \<and>
      ingress_xdp_prog alist_helpers maps2 ex_sack = Some (XDP_PASS, t, maps2) \<and>
      be32 t 42 - (be32 ex_syn_ack 38 + 1) = be32 ex_sack 42 - be32 (mb_data ref_request) 42"
    by (rule frontend_splice [OF alist.bpf_env_axioms syn wire ref_served(2) _ _ req(1,2) run])
      (simp_all add: ex_syn_ack_frame ex_data_frame ex_maps0_lookup flow1 ex_sack_frame ex_sack_ok max_entries_def)
  then show ?thesis by (auto simp: ex_syn_ack_frame ex_data_frame req(3) ex_sack_fields)
qed

end
