(* ===== verification/Frontend_Offload.thy ===== *)
theory Frontend_Offload
  imports Entry_Controller Frontend_Run
begin

text \<open>
  From the packets of the clients to the offload table of the switch: \<open>process_pkts\<close> enqueues, the entry controller
  sends, and the switch's controller performs.  When do the front end and the switch agree about a client?
\<close>

section \<open>What a message leaves in the table\<close>

definition oft_entry :: "offload_connection_table_info \<Rightarrow> u8 \<Rightarrow> action" where
  "oft_entry i d_index = (oft_aid_oft_hit i, [oft_did_d_index i \<mapsto> ucast d_index])"

lemma oft_add_at:
  "oft_add i (ip, port, d) T k = (case T k of Some a \<Rightarrow> Some a | None \<Rightarrow> if oft_key i (ip, port) = k then Some (oft_entry i d) else None)"
  by (cases "T k") (auto simp: oft_add_def oft_entry_def)

lemma fold_oft_add:
  "fold (oft_add i) vs T k =
     (case T k of Some a \<Rightarrow> Some a | None \<Rightarrow> map_option (\<lambda>(ip, port, d). oft_entry i d) (find (\<lambda>(ip, port, d). oft_key i (ip, port) = k) vs))"
proof (induction vs arbitrary: T)
  case Nil
  then show ?case by (simp split: option.split)
next
  case (Cons v vs)
  obtain ip port d where v: "v = (ip, port, d)" by (cases v)
  have "fold (oft_add i) (v # vs) T k = fold (oft_add i) vs (oft_add i v T) k" by simp
  then show ?case unfolding Cons by (cases "T k") (simp_all add: v oft_add_at)
qed

lemma fold_oft_del: "fold (oft_del i) ks T k = (if k \<in> oft_key i ` set ks then None else T k)"
  by (induction ks arbitrary: T) (auto simp: oft_del_def)

lemma ucast64_inj:
  assumes "LENGTH('a) \<le> 64"
  shows "(ucast (a :: 'a::len word) :: u64) = ucast b \<longleftrightarrow> a = b"
proof
  assume e: "(ucast a :: u64) = ucast b"
  show "a = b"
  proof (rule bit_word_eqI)
    fix n assume "n < LENGTH('a)"
    then have "bit (ucast w :: u64) n = bit w n" for w :: "'a word" using assms by (simp add: bit_unsigned_iff)
    then show "bit a n = bit b n" using e by metis
  qed
qed simp

lemma oft_key_inj:
  assumes "oft_kid_cip i \<noteq> oft_kid_cport i"
  shows "oft_key i x = oft_key i y \<longleftrightarrow> x = y"
proof
  assume e: "oft_key i x = oft_key i y"
  have "oft_key i x (oft_kid_cip i) = oft_key i y (oft_kid_cip i)" "oft_key i x (oft_kid_cport i) = oft_key i y (oft_kid_cport i)"
    using e by simp_all
  then have "(ucast (fst x) :: u64) = ucast (fst y)" "(ucast (snd x) :: u64) = ucast (snd y)"
    using assms by (simp_all add: oft_key_def case_prod_beta)
  then show "x = y" by (simp add: prod_eq_iff ucast64_inj)
qed simp

text \<open>Every operation is about some client.\<close>

definition keyed :: "flow_sys \<Rightarrow> bool" where
  "keyed S \<longleftrightarrow> (\<forall>p \<in> set (fs_adds S). mp_key p \<in> range client_key) \<and> set (fs_dels S) \<subseteq> range client_key"

lemma flow_step_keyed: "flow_step S S' \<Longrightarrow> keyed S \<Longrightarrow> keyed S'"
  by (induction rule: flow_step.induct) (auto simp: keyed_def offload_del_def)

context flow_env begin

lemma run_keyed: "abort_free_run E view st0 st \<Longrightarrow> proc_init view st0 \<Longrightarrow> keyed (flow_abs view st)"
proof (induction rule: abort_free_run.induct)
  case start
  then show ?case by (simp add: keyed_def proc_init_def flow_abs_def)
next
  case (packet st m rc sb r st')
  then show ?case using run_inv process_pkt_step flow_step_keyed by blast
next
  case (buffers st d)
  then show ?case using same_view [of view d st] by simp
qed

end

lemma client_value_inj: "key_value (client_key c) = key_value (client_key c') \<longleftrightarrow> c = c'"
proof -
  have "bswap32 a = bswap32 b \<longleftrightarrow> a = b" for a b by (metis bswap32_bswap32)
  then show ?thesis by (auto simp: key_value_def client_key_def conn_my_key_def prod_eq_iff)
qed

text \<open>The table after a message with the operations of a client, from an empty table.\<close>

lemma ops_apply_client:
  assumes "oft_kid_cip i \<noteq> oft_kid_cport i" "keyed S" "mset (fst b) = mset (fs_adds S)" "mset (snd b) = mset (fs_dels S)"
  shows "ops_apply i b Map.empty (oft_key i (key_value (client_key c))) =
    (if client_key c \<in> set (fs_dels S) then None
     else map_option (\<lambda>p. oft_entry i (md_d_index (mp_data p))) (find (\<lambda>p. mp_key p = client_key c) (fst b)))"
proof -
  have s: "set (fst b) = set (fs_adds S)" "set (snd b) = set (fs_dels S)" using assms(3,4) mset_eq_setD by blast+
  have k: "key_value x = key_value (client_key c) \<longleftrightarrow> x = client_key c" if "x \<in> range client_key" for x
    using that client_value_inj [of _ c] by (metis rangeE)
  have d: "oft_key i (key_value (client_key c)) \<in> oft_key i ` set (map key_value (snd b)) \<longleftrightarrow> client_key c \<in> set (fs_dels S)"
  proof -
    have "oft_key i (key_value (client_key c)) \<in> oft_key i ` set (map key_value (snd b)) \<longleftrightarrow> (\<exists>x \<in> set (snd b). key_value x = key_value (client_key c))"
      by (auto simp: image_iff oft_key_inj [OF assms(1)]) metis+
    also have "\<dots> \<longleftrightarrow> (\<exists>x \<in> set (snd b). x = client_key c)"
      using assms(2) s(2) k unfolding keyed_def by blast
    finally show ?thesis using s(2) by simp
  qed
  have "find (\<lambda>(ip, port, d). oft_key i (ip, port) = oft_key i (key_value (client_key c))) (map pair_value ps) =
      map_option pair_value (find (\<lambda>p. mp_key p = client_key c) ps)" if "\<forall>p \<in> set ps. mp_key p \<in> range client_key" for ps
    using that k oft_key_inj [OF assms(1)] by (induction ps) (auto simp: pair_value_def key_value_def)
  then have "find (\<lambda>(ip, port, d). oft_key i (ip, port) = oft_key i (key_value (client_key c))) (map pair_value (fst b)) =
      map_option pair_value (find (\<lambda>p. mp_key p = client_key c) (fst b))"
    using assms(2) s(1) by (simp add: keyed_def)
  then show ?thesis
    unfolding ops_apply_def fold_oft_del fold_oft_add d by (simp add: option.map_comp comp_def pair_value_def case_prod_beta)
qed

section \<open>Agreement\<close>

lemma count_list_unique:
  "count_list (map f xs) k = 1 \<Longrightarrow> x \<in> set xs \<Longrightarrow> y \<in> set xs \<Longrightarrow> f x = k \<Longrightarrow> f y = k \<Longrightarrow> x = y"
proof (induction xs)
  case (Cons z zs)
  have "count_list (map f zs) k = 0 \<Longrightarrow> w \<in> set zs \<Longrightarrow> f w \<noteq> k" for w by (auto simp: count_list_0_iff)
  then show ?case using Cons by (auto split: if_splits)
qed simp

lemma find_single:
  assumes "mset xs = mset ys" "count_list (map f ys) k = 1"
  shows "find (\<lambda>x. f x = k) xs = find (\<lambda>x. f x = k) (rev ys)"
proof -
  have s: "set xs = set ys" using assms(1) by (rule mset_eq_setD)
  have ex: "\<exists>x \<in> set ys. f x = k" using assms(2) by (metis count_list_0_iff image_iff list.set_map zero_neq_one)
  obtain x where x: "find (\<lambda>x. f x = k) xs = Some x" using ex s by (cases "find (\<lambda>x. f x = k) xs") (auto simp: find_None_iff)
  obtain y where y: "find (\<lambda>x. f x = k) (rev ys) = Some y" using ex by (cases "find (\<lambda>x. f x = k) (rev ys)") (auto simp: find_None_iff)
  have "x \<in> set ys" "f x = k" "y \<in> set ys" "f y = k"
    using x y s by (auto simp: find_Some_iff) (metis length_rev nth_mem set_rev)+
  then show ?thesis using count_list_unique [OF assms(2)] x y by simp
qed

lemma ops_apply_agrees:
  assumes "oft_kid_cip i \<noteq> oft_kid_cport i" "keyed S" "flow_inv S" "mset (fst b) = mset (fs_adds S)" "mset (snd b) = mset (fs_dels S)"
  shows "ops_apply i b Map.empty (oft_key i (key_value (client_key c))) =
    (if offloaded S c \<and> del_count S c = 0 then map_option (\<lambda>d. oft_entry i (md_d_index d)) (last_add S c) else None)"
proof -
  have n: "add_count S c = del_count S c + (if offloaded S c then 1 else 0)" using assms(3) unfolding flow_inv_def by blast
  have d: "client_key c \<in> set (fs_dels S) \<longleftrightarrow> del_count S c \<noteq> 0" by (simp add: del_count_def count_list_0_iff)
  have one: "find (\<lambda>p. mp_key p = client_key c) (fst b) = find (\<lambda>p. mp_key p = client_key c) (rev (fs_adds S))" if "add_count S c = 1"
    using that assms(4) by (intro find_single) (simp_all add: add_count_def)
  have none: "find (\<lambda>p. mp_key p = client_key c) (fst b) = None" if "add_count S c = 0"
    using that mset_eq_setD [OF assms(4)] by (auto simp: find_None_iff add_count_def count_list_0_iff) (metis imageI)
  show ?thesis
    unfolding ops_apply_client [OF assms(1,2,4,5)] d
    using n one none by (auto simp: last_add_def option.map_comp comp_def)
qed

text \<open>
  (C3) From the packets of the clients to the table of the switch.  Let the front end handle any packets from its start
  on, none of which aborts a connection attempt; let one tick send all that has been enqueued, in one message of
  fewer than 1024 bytes; and let the switch's controller receive it in one piece, with an empty offload
  table that has room for the additions, the batch opened, 80 slots left in the round, and no opcode of an earlier
  message in its buffer right behind.  Then the table has an entry for exactly the clients that are
  offloaded and have never been taken back, and the entry names the server of the connection.
  So a client that was taken back and offloaded again before the tick is missing at the switch, because a message
  holds all additions before all deletions.
\<close>

theorem offload_agreement:
  assumes flow: "flow_env E view" "abort_free_run E view st0 st" "proc_init view st0"
    and queue: "offload_source Q qa qd" "ec_ok ec" "length sbuf = 1514"
      "unsent_adds qa ec q = mset (fs_adds (flow_abs view st))" "unsent_dels qd ec q = mset (fs_dels (flow_abs view st))"
    and tick: "get_offloaded_entries Q pad pad' sbuf ec q = (Ret ((sbuf', n), ec'), q')" "0 < n" "n < 1024" "unsent qa qd ec' q' = 0"
    and switch: "bf_rt_sized D dview (has_room cap)" "oft_ready i (dview s1)" "sys_recv S fd 1024 s = (Some (take n sbuf'), s1)"
      "fst (bf_rt_begin_batch D ses s1) = Some ()" "length rbuf = 1024" "idx + 80 \<le> 256" "rbuf ! n \<noteq> 3"
      "d_table (dview s1) (oft_table_hdl i) = Map.empty" "oft_kid_cip i \<noteq> oft_kid_cport i"
      "length (fs_adds (flow_abs view st)) \<le> cap"
  shows "\<exists>rbuf' idx' s'. handle_recv D S ses tgt i fd (rbuf, idx) s = (Ret (rbuf', idx'), s') \<and>
    (\<forall>c. d_table (dview s') (oft_table_hdl i) (oft_key i (key_value (client_key c))) =
      (case fs_tab (flow_abs view st) c of
         Some fd \<Rightarrow> if fd_state fd = OFFLOAD \<and> del_count (flow_abs view st) c = 0 then Some (oft_entry i (md_d_index (fd_entry_data fd))) else None
       | None \<Rightarrow> None))"
proof -
  let ?S = "flow_abs view st"
  have inv: "flow_inv ?S" "keyed ?S"
    using flow_env.run_inv [OF flow] flow_env.run_keyed [OF flow] by simp_all
  obtain b rbuf' idx' s' where b: "tick_ok qa qd ec q b sbuf' n ec' q'"
      "handle_recv D S ses tgt i fd (rbuf, idx) s = (Ret (rbuf', idx'), s')" "oft_step dview (has_room cap) i (ops_of b) s1 s'"
    using tick_at_switch [OF queue(1-3) tick(1-3) switch(1-7)] by blast
  have m: "mset (fst b) = mset (fs_adds ?S)" "mset (snd b) = mset (fs_dels ?S)"
    using b(1) queue(4,5) tick(4) by (simp_all add: tick_ok_def unsent_def)
  have "length (fst b) \<le> cap" using mset_eq_length [OF m(1)] switch(10) by simp
  then have "fits (has_room cap) i (ops_of b) (d_table (dview s1) (oft_table_hdl i))"
    unfolding switch(8) by (intro fits_has_room) (simp_all add: ops_of_adds)
  then have T: "d_table (dview s') (oft_table_hdl i) = ops_apply i b Map.empty"
    using oft_step_fits [OF b(3)] by (simp add: ops_of_apply switch(8))
  from m have "d_table (dview s') (oft_table_hdl i) (oft_key i (key_value (client_key c))) =
      (if offloaded ?S c \<and> del_count ?S c = 0 then map_option (\<lambda>d. oft_entry i (md_d_index d)) (last_add ?S c) else None)" for c
    unfolding T by (rule ops_apply_agrees [OF switch(9) inv(2,1)])
  moreover have "(if offloaded ?S c \<and> del_count ?S c = 0 then map_option (\<lambda>d. oft_entry i (md_d_index d)) (last_add ?S c) else None) =
      (case fs_tab ?S c of Some fd \<Rightarrow> if fd_state fd = OFFLOAD \<and> del_count ?S c = 0 then Some (oft_entry i (md_d_index (fd_entry_data fd))) else None
       | None \<Rightarrow> None)" for c
    using inv(1) by (auto simp: flow_inv_def offloaded_def simp del: split_paired_All split: option.split)
  ultimately show ?thesis using b(2) by auto
qed

section \<open>A concrete client\<close>

text \<open>The client of the request and the SYN-ACK is offloaded: its entry reaches the table of the reference driver with tables of 143360 entries.\<close>

theorem offload_agreement_witness:
  "\<exists>st buf n ec' q' rbuf' idx' s'. abort_free_run ref_fe_env rf_view ref_proc st \<and>
     get_offloaded_entries ref_queues ex_pad ex_pad (replicate 1514 0) ex_ec (fs_adds (flow_abs rf_view st), fs_dels (flow_abs rf_view st)) = (Ret ((buf, n), ec'), q') \<and>
     handle_recv (sized_bf_rt 143360) (ex_sys (take n buf)) 0 \<lparr>dev_id = 0, pipe_id = 65535\<rparr> ex_oft_info 5 (replicate 1024 0, 0) rd_init = (Ret (rbuf', idx'), s') \<and>
     d_table (rd_view s') 2 (oft_key ex_oft_info (0x0a000164, 1234)) = Some (oft_entry ex_oft_info 2)"
proof -
  let ?p = "\<lparr>mp_key = client_key ref_client, mp_data = ref_data\<rparr>"
  obtain st where st: "abort_free_run ref_fe_env rf_view ref_proc st" "fs_tab (flow_abs rf_view st) ref_client = Some (opened OFFLOAD ref_data ref_request)"
      "fs_adds (flow_abs rf_view st) = [?p]" "fs_dels (flow_abs rf_view st) = []"
    by (rule ref_offloaded)
  let ?m = "batch_bytes (batch_of ex_pad ex_pad ([?p], []))" and ?buf = "patch (replicate 1514 0) 0 (batch_bytes (batch_of ex_pad ex_pad ([?p], [])))"
  obtain ec' where t: "get_offloaded_entries ref_queues ex_pad ex_pad (replicate 1514 0) ex_ec ([?p], []) = (Ret ((?buf, 19), ec'), ([], []))"
    using ex_tick by blast
  have u: "unsent_adds (\<lambda>s. mset (fst s)) ex_ec ([?p], [] :: my_key list) = {#?p#}" "unsent_dels (\<lambda>s. mset (snd s)) ex_ec ([?p], [] :: my_key list) = {#}"
    by (simp_all add: unsent_adds_def unsent_dels_def ex_ec_ok)
  obtain b where b: "tick_ok (\<lambda>s. mset (fst s)) (\<lambda>s. mset (snd s)) ex_ec ([?p], []) b ?buf 19 ec' ([], [])"
    using ref_q.tick [OF ex_ec_ok(1), of "replicate 1514 0" ex_pad ex_pad "([?p], [])"] t by auto
  have e: "b \<noteq> ([], [])" "{#?p#} = mset (fst b) + unsent_adds (\<lambda>s. mset (fst s)) ec' ([], [] :: my_key list)"
      "{#} = mset (snd b) + unsent_dels (\<lambda>s. mset (snd s)) ec' ([] :: my_pair list, [])"
    using b u unfolding tick_ok_def by simp_all
  then have "fst b \<noteq> []" by (cases b) auto
  then have "unsent_adds (\<lambda>s. mset (fst s)) ec' ([], [] :: my_key list) = {#}"
    using arg_cong [OF e(2), of size] by (cases "fst b") auto
  then have left: "unsent (\<lambda>s. mset (fst s)) (\<lambda>s. mset (snd s)) ec' ([], []) = 0" using e(3) by (simp add: unsent_def)
  have r: "sys_recv (ex_sys (take 19 ?buf)) 5 1024 rd_init = (Some (take 19 ?buf), rd_init)" "fst (bf_rt_begin_batch (sized_bf_rt 143360) 0 rd_init) = Some ()"
    by (simp_all add: ex_sys_def sized_bf_rt_def ref_bf_rt_def)
  have k: "key_value (client_key ref_client) = (0x0a000164, 1234)"
    by (simp add: key_value_def client_key_def conn_my_key_def ref_client_def)
  have "\<exists>rbuf' idx' s'. handle_recv (sized_bf_rt 143360) (ex_sys (take 19 ?buf)) 0 \<lparr>dev_id = 0, pipe_id = 65535\<rparr> ex_oft_info 5 (replicate 1024 0, 0) rd_init = (Ret (rbuf', idx'), s') \<and>
    (\<forall>c. d_table (rd_view s') (oft_table_hdl ex_oft_info) (oft_key ex_oft_info (key_value (client_key c))) =
      (case fs_tab (flow_abs rf_view st) c of
         Some fd \<Rightarrow> if fd_state fd = OFFLOAD \<and> del_count (flow_abs rf_view st) c = 0 then Some (oft_entry ex_oft_info (md_d_index (fd_entry_data fd))) else None
       | None \<Rightarrow> None))"
    by (rule offload_agreement [OF ref_fe.flow_env_axioms st(1) ref_proc_init ref_q.offload_source_axioms ex_ec_ok(1) _ _ _ t _ _ left
          sized_rel.bf_rt_sized_axioms ex_oft_ready r])
      (simp_all add: u st(3,4) ex_table, simp_all add: ex_oft_info_def)
  then obtain rbuf' idx' s' where "handle_recv (sized_bf_rt 143360) (ex_sys (take 19 ?buf)) 0 \<lparr>dev_id = 0, pipe_id = 65535\<rparr> ex_oft_info 5 (replicate 1024 0, 0) rd_init = (Ret (rbuf', idx'), s')"
      "d_table (rd_view s') (oft_table_hdl ex_oft_info) (oft_key ex_oft_info (key_value (client_key ref_client))) = Some (oft_entry ex_oft_info 2)"
    using st(2,4) by (auto simp: opened_def ref_flags del_count_def simp del: split_paired_All dest!: spec [of _ ref_client])
  then show ?thesis using st(1,3,4) t by (auto simp: k ex_oft_info_def)
qed

end
