(* ===== verification/Spec2Isabelle.thy ===== *)
theory Spec2Isabelle
  imports Backend_Flow Xdp_Loader Switch_Main Frontend_Main Frontend_Offload
begin

text \<open>
  \<^bold>\<open>Miresga\<close> is a load balancer for HTTP in three parts: a programmable switch with its control plane
  (\<open>src/Switch\<close>), a front end in user space on DPDK (\<open>src/Frontend\<close>), and an agent in the kernel of every back-end
  server (\<open>src/Backend\<close>).  A client opens its connection with the switch; its first request goes to the front end, which
  chooses a server by the request line and opens a connection to it in the client's name.  The sequence
  numbers of the two halves differ, and the agent on the server translates them.  An established
  connection may be offloaded to the switch.  This development models all C and C++ code of the repository.

  \<^bold>\<open>Conventions.\<close>  A byte string is a list of 8-bit words and machine integers are words, so arithmetic wraps as
  in C.  Memory is accessed through bounds-checked loads and stores (\<open>ld8\<close>, \<open>st32\<close>, \<open>ldn\<close>, \<dots> of
  \<open>Miresga_Prelude\<close>); an access outside a buffer or through a null or dangling pointer is the value \<open>None\<close> or the outcome
  \<open>Crash\<close>, and ending the process with a message is \<open>Exit\<close>.  Code that is not in the repository is a parameter, a record
  of functions on an abstract state, with what the code relies on in a locale: the kernel's maps and
  checksum helper (\<open>bpf_env\<close>), libbpf (\<open>Xdp_Loader\<close>), the switch driver (\<open>bf_rt_driver\<close>: a call has its effect or
  fails and has none; \<open>bf_rt_sized\<close>: in addition, an entry can be added as long as the table has room, while an addition to a
  full table may fail, which the controller does not notice), the concurrent queues
  (\<open>offload_source\<close>), the hash maps, allocator and packet buffers of the front end (\<open>flow_env\<close>), the set-up of the
  network card (\<open>dpdk_log\<close>), sockets, timers, JSON.  Each locale is interpreted by a reference implementation, on which the
  theorems with hypotheses are applied to concrete packets and messages.

  \<^bold>\<open>The back-end agent\<close> (\<open>src/Backend\<close>).
  \<^item> \<open>Checksum\<close>, \<open>Backend_Agent\<close>: \<open>csum_folder_helper\<close> and one's-complement sums; the maps, the layout of a frame.
  \<^item> \<open>Backend_Ingress\<close>: \<open>ingress_xdp_prog\<close> of \<open>ingress_xdp.c\<close>, with the scan of the TCP options and the rewriting of SACK
    blocks.  Where a SACK option stands is defined on the bytes of the frame (at the beginning of the options, behind at
    most two NOPs), and the scan is shown to find exactly that.  Memory safety, exactly which frames pass, what is
    rewritten, the checksum stays valid; and exactly when it does not (a SACK option at an odd offset), and that the
    clean-up after a reset is never reached.
  \<^item> \<open>Backend_Egress\<close>: \<open>egress_tc_prog\<close> of \<open>egress_tc.c\<close>, with the same kinds of theorems.
  \<^item> \<open>Backend_Flow\<close>: both programs on the shared maps, as a state machine over frames in any order.  The invariant of
    the maps, how a flow ends, and the coherence of a spliced connection end to end.
  \<^item> \<open>Xdp_Loader\<close>: \<open>main\<close> of \<open>xdp_loader.c\<close>.  If it succeeds, both programs are attached and share the two maps.

  \<^bold>\<open>The control plane of the switch\<close> (\<open>src/Switch/control_plane\<close>).
  \<^item> \<open>Bf_Rt\<close>, \<open>Switch_Env\<close>: programs with outcomes; the driver and the system as parameters; \<open>init_ports\<close>.
  \<^item> \<open>Client\<close>: every function of \<open>client.c\<close>; each \<open>add_*_entry\<close> installs exactly a prefix of its array.
  \<^item> \<open>Controller\<close>: \<open>controller.c\<close>: loading the configuration, greeting a front end, and the loop over offload
    messages.  What is sent, when it fits, that whole messages are performed in order (\<open>oft_run\<close>: an addition may be
    refused by a full table; the outcome is exact if all additions fit), that the loop ends (the fuel is one more than
    the bytes received); stale messages, and that more than 256 operations in one round leave the arrays of handles.
  \<^item> \<open>Switch_Main\<close>: \<open>main.c\<close>.

  \<^bold>\<open>The front end\<close> (\<open>src/Frontend\<close>).
  \<^item> \<open>Rule_Controller\<close>: \<open>flow_data.hpp\<close>, \<open>my_config.hpp\<close> and the rule controller, with the contract of a table.
  \<^item> \<open>Entry_Controller\<close>: \<open>get_offloaded_entries\<close>.  It stays within its arrays and the send buffer and loses
    nothing; enough ticks send everything (at least one element per tick, so as many ticks as elements are enough);
    what a tick sends is performed by the model of \<open>controller.c\<close>, unless the message is longer than its receive buffer.
  \<^item> \<open>Frontend_Msg\<close>: the messages of the switch in \<open>main.cpp\<close>.  They are the inverse of what the model of
    \<open>controller.c\<close> sends; two messages that arrive together are not told apart.
  \<^item> \<open>Pkt_Crc\<close>, \<open>Pkt_Build\<close>: the CRC, equal to the bitwise CRC-8; the six functions that build packets; the request
    parser, with a declarative specification.
  \<^item> \<open>Pkt_Processor\<close>: \<open>process_pkts\<close>, branch by branch, with the connections as objects at addresses.
  \<^item> \<open>Flow_Machine\<close>: the abstract machine of connections, the proof that every packet is a step of it, and what
    follows for all runs without an aborted connection attempt (\<open>abort_free_run\<close>): no dangling or shared pointer, and
    additions and deletions for the switch in balance.  An aborted attempt is shown to lead to the use of a freed
    object, so the restriction is needed.
  \<^item> \<open>Pkt_Safe\<close>: under which conditions a burst is handled without a bad access, with two send buffers per packet.
  \<^item> \<open>Pkt_Worker\<close>: the set-up of the network card in order, the loop of a worker, the tear-down.
  \<^item> \<open>Frontend_Main\<close>: configuration, start-up and event loop of \<open>main.cpp\<close>, and the safety of the loop when the switch
    sends whole messages of the agreed format (\<open>wf_message\<close>).

  \<^bold>\<open>Composition.\<close>  \<open>Frontend_Splice\<close>: the SYN of the front end is what the agent needs, so that the server's first byte
  has the sequence number that the client expects.  \<open>Frontend_Run\<close>: how a connection is set up, and concrete
  packets for all theorems on the front end.  \<open>Frontend_Offload\<close>: from the packets of the clients to the table of
  the switch, for which clients both sides agree.  \<open>Entry_Controller\<close> and \<open>Frontend_Msg\<close> join the front end with the
  model of the switch's control plane, in both directions.

  \<^bold>\<open>Bounds.\<close>  The endless loops (\<open>run_controller\<close>, \<open>frontend_loop\<close>, \<open>worker_fun\<close>) are unrolled for a given number of rounds, and the
  theorems hold for all numbers.  All other recursion is structural or has a measure.

  \<^bold>\<open>Not modelled.\<close>  The data plane of the switch (P4, whose meaning lies in the compiler and the target); what is
  printed; the locks of the rule controller and the interleaving of several workers within one packet (an operation, and
  the handling of a packet, is atomic); the race in reading an object that a rule update deletes; the
  destructors, which only free memory.
\<close>

end
